(* ===== verification/Vamp_Prelude.thy ===== *)
theory Vamp_Prelude
  imports Complex_Main
begin

text \<open>
  What the components share: results of Rust calls (a value, an error, or a panic), the
  \<open>?\<close> operator on sums, loops that stop at the first error, \<open>slice::chunks\<close>, the decimal
  rendering and parsing of \<^verbatim>\<open>i64\<close>, and the locale of step systems that keep an invariant.
\<close>

named_theorems rust_simps "equations of the result and loop combinators"

section \<open>Results\<close>

text \<open>
  A Rust call returns \<open>Ok\<close>, returns \<open>Err\<close>, or unwinds. The last is not an error value:
  no caller in the program catches it.
\<close>

datatype ('e, 'a) rust = Ok 'a | Err 'e | Panic

fun map_err :: "('e \<Rightarrow> 'f) \<Rightarrow> ('e, 'a) rust \<Rightarrow> ('f, 'a) rust" where
  "map_err f (Ok v) = Ok v"
| "map_err f (Err e) = Err (f e)"
| "map_err f Panic = Panic"

fun map_ok :: "('a \<Rightarrow> 'b) \<Rightarrow> ('e, 'a) rust \<Rightarrow> ('e, 'b) rust" where
  "map_ok f (Ok v) = Ok (f v)"
| "map_ok f (Err e) = Err e"
| "map_ok f Panic = Panic"

lemma map_ok_iff:
  "map_ok f r = Ok w \<longleftrightarrow> (\<exists>v. r = Ok v \<and> w = f v)"
  "map_ok f r = Err e \<longleftrightarrow> r = Err e"
  "map_ok f r = Panic \<longleftrightarrow> r = Panic"
  by (cases r; auto)+

lemma map_err_iff:
  "map_err g r = Ok v \<longleftrightarrow> r = Ok v"
  "map_err g r = Err e \<longleftrightarrow> (\<exists>x. r = Err x \<and> e = g x)"
  "map_err g r = Panic \<longleftrightarrow> r = Panic"
  by (cases r; auto)+

text \<open>\<open>and_then\<close> is the \<open>?\<close> operator inside a function that cannot panic.\<close>

definition and_then :: "'e + 'a \<Rightarrow> ('a \<Rightarrow> 'e + 'b) \<Rightarrow> 'e + 'b" where
  "and_then m f = (case m of Inl e \<Rightarrow> Inl e | Inr x \<Rightarrow> f x)"

lemma and_then_simps [simp, rust_simps]:
  "and_then (Inl e) f = Inl e"
  "and_then (Inr x) f = f x"
  by (simp_all add: and_then_def)

lemma and_then_Inr_iff: "and_then m f = Inr y \<longleftrightarrow> (\<exists>x. m = Inr x \<and> f x = Inr y)"
  by (cases m) auto

lemma and_then_Inl_iff:
  "and_then m f = Inl e \<longleftrightarrow> m = Inl e \<or> (\<exists>x. m = Inr x \<and> f x = Inl e)"
  by (cases m) auto

lemma and_then_cong [fundef_cong]:
  "m = m' \<Longrightarrow> (\<And>x. m' = Inr x \<Longrightarrow> f x = g x) \<Longrightarrow> and_then m f = and_then m' g"
  by (cases m') auto

section \<open>Loops that stop at the first error\<close>

text \<open>\<open>for_each f i xs s\<close> runs \<open>f i x\<close> for each element; \<open>i\<close> counts the iterations.\<close>

fun for_each :: "(nat \<Rightarrow> 'a \<Rightarrow> 's \<Rightarrow> 'e + 's) \<Rightarrow> nat \<Rightarrow> 'a list \<Rightarrow> 's \<Rightarrow> 'e + 's" where
  "for_each f i [] s = Inr s"
| "for_each f i (x # xs) s = and_then (f i x s) (for_each f (Suc i) xs)"

lemma for_each_append:
  "for_each f i (xs @ ys) s = and_then (for_each f i xs s) (for_each f (i + length xs) ys)"
proof (induction xs arbitrary: i s)
  case Nil
  then show ?case by simp
next
  case (Cons x xs)
  then show ?case by (cases "f i x s") auto
qed

lemma for_each_invariant:
  assumes "\<And>i x s s'. x \<in> set xs \<Longrightarrow> P s \<Longrightarrow> f i x s = Inr s' \<Longrightarrow> P s'"
    and "P s" and "for_each f i xs s = Inr s'"
  shows "P s'"
  using assms
proof (induction xs arbitrary: i s)
  case Nil
  then show ?case by simp
next
  case (Cons x xs)
  from Cons.prems(3) obtain u where u: "f i x s = Inr u" and r: "for_each f (Suc i) xs u = Inr s'"
    by (auto simp: and_then_Inr_iff)
  have "P u" using Cons.prems(1) [of x s i u] Cons.prems(2) u by simp
  then show ?case using Cons.IH [of u "Suc i"] Cons.prems(1) r by (meson list.set_intros(2))
qed

lemma for_each_index: "for_each (\<lambda>_. g) i xs s = for_each (\<lambda>_. g) j xs s"
proof (induction xs arbitrary: i j s)
  case Nil
  then show ?case by simp
next
  case (Cons x xs)
  show ?case by (cases "g x s") (simp_all, rule Cons.IH)
qed

text \<open>A loop over batches, each of which loops over its rows, is the loop over all the rows.\<close>

lemma for_each_concat:
  "for_each (\<lambda>_. for_each (\<lambda>_. g) 0) i bs s = for_each (\<lambda>_. g) 0 (concat bs) s"
proof (induction bs arbitrary: i s)
  case Nil
  then show ?case by simp
next
  case (Cons b bs)
  show ?case
    by (cases "for_each (\<lambda>_. g) 0 b s")
       (simp_all add: for_each_append Cons.IH for_each_index [of g "length b" _ _ 0])
qed

section \<open>slice::chunks\<close>

function chunks :: "nat \<Rightarrow> 'a list \<Rightarrow> 'a list list" where
  "chunks n xs = (if xs = [] \<or> n = 0 then [] else take n xs # chunks n (drop n xs))"
  by pat_completeness auto
termination
  by (relation "measure (\<lambda>(n, xs). length xs)") auto

declare chunks.simps [simp del]

lemma chunks_Nil [simp]: "chunks n [] = []"
  by (simp add: chunks.simps)

lemma concat_chunks: "0 < n \<Longrightarrow> concat (chunks n xs) = xs"
proof (induction n xs rule: chunks.induct)
  case (1 n xs)
  then show ?case by (cases "xs = []") (simp_all add: chunks.simps [of n xs])
qed

lemma chunks_length: "c \<in> set (chunks n xs) \<Longrightarrow> 0 < length c \<and> length c \<le> n"
proof (induction n xs rule: chunks.induct)
  case (1 n xs)
  then show ?case by (cases "xs = [] \<or> n = 0") (auto simp: chunks.simps [of n xs])
qed

section \<open>Machine integers as decimal text\<close>

definition i64_min :: int where "i64_min = - 9223372036854775808"

definition i64_max :: int where "i64_max = 9223372036854775807"

definition is_i64 :: "int \<Rightarrow> bool" where
  "is_i64 n \<longleftrightarrow> i64_min \<le> n \<and> n \<le> i64_max"

definition digit_char :: "nat \<Rightarrow> char" where
  "digit_char d = char_of (48 + d)"

definition digit_val :: "char \<Rightarrow> nat option" where
  "digit_val c = (let k = of_char c :: nat in if 48 \<le> k \<and> k \<le> 57 then Some (k - 48) else None)"

fun show_nat :: "nat \<Rightarrow> string" where
  "show_nat n = (if n < 10 then [digit_char n] else show_nat (n div 10) @ [digit_char (n mod 10)])"

declare show_nat.simps [simp del]

text \<open>\<^verbatim>\<open>i64::to_string\<close>.\<close>

definition show_int :: "int \<Rightarrow> string" where
  "show_int n = (if n < 0 then CHR ''-'' # show_nat (nat (- n)) else show_nat (nat n))"

fun digits_val :: "nat \<Rightarrow> string \<Rightarrow> nat option" where
  "digits_val acc [] = Some acc"
| "digits_val acc (c # cs) =
     (case digit_val c of None \<Rightarrow> None | Some d \<Rightarrow> digits_val (10 * acc + d) cs)"

text \<open>
  \<^verbatim>\<open>str::parse::<i64>\<close>: an optional sign, at least one digit, then digit by digit until a
  character that is none or a value out of range. The errors are those of
  \<^verbatim>\<open>std::num::IntErrorKind\<close>.
\<close>

datatype int_error = Empty | InvalidDigit | PosOverflow | NegOverflow

fun int_error_text :: "int_error \<Rightarrow> string" where
  "int_error_text Empty = ''cannot parse integer from empty string''"
| "int_error_text InvalidDigit = ''invalid digit found in string''"
| "int_error_text PosOverflow = ''number too large to fit in target type''"
| "int_error_text NegOverflow = ''number too small to fit in target type''"

fun parse_digits :: "int \<Rightarrow> int \<Rightarrow> string \<Rightarrow> int_error + int" where
  "parse_digits sg acc [] = Inr acc"
| "parse_digits sg acc (c # cs) =
     (case digit_val c of
        None \<Rightarrow> Inl InvalidDigit
      | Some d \<Rightarrow>
          let v = 10 * acc + sg * int d in
          if is_i64 v then parse_digits sg v cs
          else Inl (if sg < 0 then NegOverflow else PosOverflow))"

definition parse_i64 :: "string \<Rightarrow> int_error + int" where
  "parse_i64 s =
     (case s of
        [] \<Rightarrow> Inl Empty
      | c # cs \<Rightarrow>
          if c = CHR ''-'' then (if cs = [] then Inl InvalidDigit else parse_digits (-1) 0 cs)
          else if c = CHR ''+'' then (if cs = [] then Inl InvalidDigit else parse_digits 1 0 cs)
          else parse_digits 1 0 s)"

lemma digit_val_digit_char [simp]: "d < 10 \<Longrightarrow> digit_val (digit_char d) = Some d"
  by (simp add: digit_val_def digit_char_def)

lemma digits_val_append:
  "digits_val acc (xs @ ys) =
     (case digits_val acc xs of None \<Rightarrow> None | Some v \<Rightarrow> digits_val v ys)"
  by (induction xs arbitrary: acc) (auto split: option.splits)

lemma show_nat_nonempty [simp]: "show_nat n \<noteq> []"
  by (subst show_nat.simps) simp

lemma digits_val_show_nat: "digits_val 0 (show_nat n) = Some n"
proof (induction n rule: show_nat.induct)
  case (1 n)
  show ?case
  proof (cases "n < 10")
    case True
    then show ?thesis by (subst show_nat.simps) simp
  next
    case False
    with "1.IH" have "digits_val 0 (show_nat (n div 10)) = Some (n div 10)" by simp
    with False show ?thesis by (subst show_nat.simps) (simp add: digits_val_append)
  qed
qed

lemma hd_show_nat_digit: "\<exists>d < 10. hd (show_nat n) = digit_char d"
proof (induction n rule: show_nat.induct)
  case (1 n)
  show ?case
  proof (cases "n < 10")
    case True
    then show ?thesis by (subst show_nat.simps) auto
  next
    case False
    with "1.IH" show ?thesis by (subst show_nat.simps) (simp add: hd_append)
  qed
qed

lemma digit_char_not_sign: "d < 10 \<Longrightarrow> digit_char d \<noteq> CHR ''-'' \<and> digit_char d \<noteq> CHR ''+''"
proof -
  assume "d < 10"
  then have "digit_val (digit_char d) = Some d" by simp
  moreover have "digit_val (CHR ''-'') = None" "digit_val (CHR ''+'') = None"
    by (simp_all add: digit_val_def)
  ultimately show ?thesis by auto
qed

lemma digits_val_mono: "digits_val acc ds = Some v \<Longrightarrow> acc \<le> v"
proof (induction acc ds rule: digits_val.induct)
  case (1 acc)
  then show ?case by simp
next
  case (2 acc c cs)
  then obtain d where "digit_val c = Some d" "digits_val (10 * acc + d) cs = Some v"
    by (auto split: option.splits)
  with "2.IH" have "10 * acc + d \<le> v" by simp
  then show ?case by simp
qed

lemma parse_digits_val:
  assumes "digits_val acc ds = Some v" and "sg = 1 \<or> sg = -1" and "is_i64 (sg * int v)"
  shows "parse_digits sg (sg * int acc) ds = Inr (sg * int v)"
  using assms(1)
proof (induction acc ds rule: digits_val.induct)
  case (1 acc)
  then show ?case by simp
next
  case (2 acc c cs)
  then obtain d where d: "digit_val c = Some d" "digits_val (10 * acc + d) cs = Some v"
    by (auto split: option.splits)
  have "10 * acc + d \<le> v" using d(2) by (rule digits_val_mono)
  then have "is_i64 (10 * (sg * int acc) + sg * int d)"
    using assms(2,3) by (auto simp: is_i64_def i64_min_def i64_max_def)
  moreover have "10 * (sg * int acc) + sg * int d = sg * int (10 * acc + d)"
    by (simp add: algebra_simps)
  ultimately show ?case using "2.IH" [OF d] d(1) by simp
qed

lemma parse_show_int: "is_i64 n \<Longrightarrow> parse_i64 (show_int n) = Inr n"
proof -
  assume n: "is_i64 n"
  obtain c cs where s: "show_nat (nat n) = c # cs" by (cases "show_nat (nat n)") simp_all
  obtain d where "d < 10" "c = digit_char d" using hd_show_nat_digit [of "nat n"] s by auto
  then have c: "c \<noteq> CHR ''-''" "c \<noteq> CHR ''+''" using digit_char_not_sign by auto
  show ?thesis
  proof (cases "n < 0")
    case True
    with n show ?thesis
      using parse_digits_val [OF digits_val_show_nat, of "-1" "nat (- n)"]
      by (simp add: parse_i64_def show_int_def)
  next
    case False
    with n have "parse_digits 1 0 (c # cs) = Inr n"
      using parse_digits_val [OF digits_val_show_nat, of 1 "nat n"] s by simp
    with False s c show ?thesis by (simp add: parse_i64_def show_int_def del: parse_digits.simps)
  qed
qed

lemma parse_digits_range: "parse_digits sg acc ds = Inr n \<Longrightarrow> is_i64 acc \<Longrightarrow> is_i64 n"
  by (induction sg acc ds rule: parse_digits.induct)
     (auto simp: Let_def split: option.splits if_splits)

lemma parse_i64_range: "parse_i64 s = Inr n \<Longrightarrow> is_i64 n"
proof -
  have "is_i64 0" by (simp add: is_i64_def i64_min_def i64_max_def)
  then show "parse_i64 s = Inr n \<Longrightarrow> is_i64 n"
    using parse_digits_range [of _ 0]
    by (auto simp: parse_i64_def split: list.splits if_splits simp del: parse_digits.simps)
qed

section \<open>Step systems\<close>

text \<open>
  The contract every stateful component of the program meets: each of its steps keeps its
  invariant, so every run does. \<open>step\<close> is total; a step that changes nothing models a
  request that was refused.
\<close>

locale step_system =
  fixes step :: "'s \<Rightarrow> 'ev \<Rightarrow> 's"
    and inv :: "'s \<Rightarrow> bool"
  assumes step_inv: "inv s \<Longrightarrow> inv (step s ev)"
begin

lemma run_inv: "inv s \<Longrightarrow> inv (foldl step s evs)"
  by (induction evs arbitrary: s) (simp_all add: step_inv)

lemma run_inv_append: "inv s \<Longrightarrow> inv (foldl step s (evs @ evs'))"
  by (rule run_inv)

lemma every_prefix_inv: "inv s \<Longrightarrow> inv (foldl step s (take n evs))"
  by (rule run_inv)

end

text \<open>
  The same for a component whose scheduler chooses: its steps are a relation. What holds
  initially and is kept by every step holds of every state that is reached.
\<close>

locale transition_system =
  fixes step :: "'s \<Rightarrow> 's \<Rightarrow> bool"
    and inv :: "'s \<Rightarrow> bool"
  assumes keeps: "step s s' \<Longrightarrow> inv s \<Longrightarrow> inv s'"
begin

lemma reached_inv:
  assumes "step\<^sup>*\<^sup>* s s'" and "inv s"
  shows "inv s'"
  using assms by (induction rule: rtranclp_induct) (auto intro: keeps)

text \<open>A measure that some step decreases from every state that is not final leads to a final one.\<close>

lemma final_reached:
  assumes "inv s" and "P s"
    and "\<And>s. inv s \<Longrightarrow> P s \<Longrightarrow> \<not> final s \<Longrightarrow> \<exists>s'. step s s' \<and> P s' \<and> (m s' :: nat) < m s"
  shows "\<exists>s'. step\<^sup>*\<^sup>* s s' \<and> P s' \<and> final s'"
  using assms(1,2)
proof (induction "m s" arbitrary: s rule: less_induct)
  case less
  show ?case
  proof (cases "final s")
    case False
    then obtain t where t: "step s t" "P t" "m t < m s" using assms(3) less.prems by blast
    then obtain u where "step\<^sup>*\<^sup>* t u" "P u" "final u"
      using less.hyps [OF t(3)] keeps [OF t(1) less.prems(1)] by blast
    then show ?thesis using t(1) by (meson converse_rtranclp_into_rtranclp)
  qed (use less.prems in blast)
qed

end

text \<open>
  A transition system that implements an abstract one: through \<open>abs\<close> each of its steps is a step
  there, or is not seen. Its runs are runs there, so that what holds of every abstract run from
  the image of a state holds, through \<open>abs\<close>, of every run from that state.
\<close>

locale refinement = transition_system +
  fixes astep :: "'a \<Rightarrow> 'a \<Rightarrow> bool"
    and abs :: "'s \<Rightarrow> 'a"
  assumes simulated: "inv s \<Longrightarrow> step s s' \<Longrightarrow> abs s' = abs s \<or> astep (abs s) (abs s')"
begin

lemma runs_refine:
  assumes "step\<^sup>*\<^sup>* s s'" and "inv s"
  shows "astep\<^sup>*\<^sup>* (abs s) (abs s')"
  using assms(1)
proof (induction rule: rtranclp_induct)
  case (step t u)
  have "inv t" by (rule reached_inv [OF step.hyps(1) assms(2)])
  then have "abs u = abs t \<or> astep (abs t) (abs u)" by (rule simulated [OF _ step.hyps(2)])
  then show ?case using step.IH by (metis rtranclp.rtrancl_into_rtrancl)
qed simp

lemma abstract_inv:
  assumes "step\<^sup>*\<^sup>* s s'" and "inv s" and "P (abs s)" and "\<And>a a'. astep a a' \<Longrightarrow> P a \<Longrightarrow> P a'"
  shows "P (abs s')"
  using runs_refine [OF assms(1,2)] assms(3,4) by (induction rule: rtranclp_induct) blast+

end

end
