(* ===== verification/Schema.thy ===== *)
theory Schema
  imports Vamp_Prelude
begin

text \<open>
  The data the application exchanges with its frontends and its database:
  \<^verbatim>\<open>src-tauri/src/db/{bigint_id,schema,filtered_schema}.rs\<close>. Structs are records (a two-letter
  prefix keeps their field names apart), enums are datatypes. \<^verbatim>\<open>i32\<close> and \<^verbatim>\<open>i64\<close> fields are
  \<open>int\<close>; \<^verbatim>\<open>f32\<close>/\<^verbatim>\<open>f64\<close> fields are the finite values JSON can carry, as \<open>rat\<close>. What
  \<^verbatim>\<open>serde_json::to_value\<close> makes of each row type is written out, since it is what a client sees.
\<close>

section \<open>JSON values\<close>

datatype json =
    JNull
  | JBool bool
  | JInt int
  | JReal rat
  | JStr string
  | JArr "json list"
  | JObj "(string \<times> json) list"

fun opt_json :: "('a \<Rightarrow> json) \<Rightarrow> 'a option \<Rightarrow> json" where
  "opt_json f None = JNull"
| "opt_json f (Some x) = f x"

section \<open>BigintId\<close>

datatype BigintId = BigintId string

fun id_text :: "BigintId \<Rightarrow> string" where
  "id_text (BigintId s) = s"

definition from_i64 :: "int \<Rightarrow> BigintId" where
  "from_i64 n = BigintId (show_int n)"

text \<open>\<^verbatim>\<open>self.0.parse().expect(..)\<close>: an id that is no number unwinds.\<close>

definition to_i64 :: "BigintId \<Rightarrow> ('e, int) rust" where
  "to_i64 b = (case parse_i64 (id_text b) of Inr n \<Rightarrow> Ok n | Inl e \<Rightarrow> Panic)"

definition bigint_try_from :: "int \<Rightarrow> BigintId" where
  "bigint_try_from n = from_i64 n"

lemma to_i64_from_i64 [simp]: "is_i64 n \<Longrightarrow> to_i64 (from_i64 n) = Ok n"
  by (simp add: to_i64_def from_i64_def parse_show_int)

lemma from_i64_inj: "is_i64 m \<Longrightarrow> is_i64 n \<Longrightarrow> from_i64 m = from_i64 n \<Longrightarrow> m = n"
  by (metis from_i64_def id_text.simps sum.inject(2) parse_show_int)

lemma to_i64_not_Err [simp]: "to_i64 b \<noteq> Err e"
  by (simp add: to_i64_def split: sum.splits)

lemma to_i64_range: "to_i64 b = Ok n \<Longrightarrow> is_i64 n"
  by (auto simp: to_i64_def parse_i64_range split: sum.splits)

text \<open>\<^verbatim>\<open>ids.iter().map(|id| id.to_i64()).collect()\<close>: the first bad id unwinds.\<close>

fun to_i64_all :: "BigintId list \<Rightarrow> ('e, int list) rust" where
  "to_i64_all [] = Ok []"
| "to_i64_all (b # bs) =
     (case to_i64 b of
        Ok n \<Rightarrow> (case to_i64_all bs of Ok ns \<Rightarrow> Ok (n # ns) | Err e \<Rightarrow> Err e | Panic \<Rightarrow> Panic)
      | Err e \<Rightarrow> Err e
      | Panic \<Rightarrow> Panic)"

lemma to_i64_all_not_Err [simp]: "to_i64_all bs \<noteq> Err e"
  by (induction bs) (auto split: rust.splits)

lemma to_i64_all_length: "to_i64_all bs = Ok ns \<Longrightarrow> length ns = length bs"
  by (induction bs arbitrary: ns) (auto split: rust.splits)

section \<open>Rows returned by the database (schema.rs)\<close>

record TrackRow =
  tr_id :: BigintId
  tr_artist :: string
  tr_track_name :: string
  tr_length_seconds :: "int option"
  tr_bitrate_kbps :: "int option"
  tr_tempo_bpm :: "rat option"
  tr_addition_time :: string
  tr_listened_seconds :: int

record ErrorRow =
  er_key :: string
  er_error_text :: string

record TrackAddConflict =
  tc_id :: BigintId
  tc_artist :: string
  tc_track_name :: string
  tc_length_seconds :: "int option"
  tc_bitrate_kbps :: "int option"
  tc_tempo_bpm :: "rat option"
  tc_addition_time :: string
  tc_conflict_reason :: string
  tc_same_track_id :: BigintId

record TrackSource =
  ts_id :: BigintId
  ts_track_id :: BigintId
  ts_url :: string

record ListenInfo =
  li_id :: BigintId
  li_track_id :: BigintId
  li_listened_from :: int
  li_listened_to :: int

record Tag =
  tg_id :: BigintId
  tg_tag_name :: string

record TrackMeta =
  tm_id :: BigintId
  tm_track_id :: BigintId
  tm_key :: string
  tm_value :: string

record NewTrack =
  nt_artist :: string
  nt_track_name :: string
  nt_length_seconds :: "int option"
  nt_bitrate_kbps :: "int option"
  nt_tempo_bpm :: "rat option"
  nt_addition_time :: string
  nt_sources :: "string list"

record TrackWithSources =
  tw_track :: TrackRow
  tw_sources :: "TrackSource list"

record TrackUpdate =
  tu_artist :: "string option"
  tu_track_name :: "string option"
  tu_length_seconds :: "int option"
  tu_bitrate_kbps :: "int option"
  tu_tempo_bpm :: "rat option"
  tu_addition_time :: "string option"

record NewError =
  ne_key :: string
  ne_error_text :: string

section \<open>Search types (schema.rs)\<close>

datatype NumericOperator = Lt | Gt | Eq | Lte | Gte | Ne

fun as_sql :: "NumericOperator \<Rightarrow> string" where
  "as_sql Lt = ''<''"
| "as_sql Gt = ''>''"
| "as_sql Eq = ''=''"
| "as_sql Lte = ''<=''"
| "as_sql Gte = ''>=''"
| "as_sql Ne = ''!=''"

datatype SearchParam =
    NumericComparison NumericOperator rat
  | NumericBetween rat rat
  | TextLike string bool
  | TextIn "string list"
  | NullCheck bool
  | TagsIn "BigintId list"
  | TagsAll "BigintId list"

record SearchCriteria =
  sc_column_name :: string
  sc_criteria :: "SearchParam list"

record TagAssignment =
  ta_track_id :: BigintId
  ta_tag_ids :: "BigintId list"

record NewTrackConflict =
  nc_artist :: string
  nc_track_name :: string
  nc_length_seconds :: "int option"
  nc_bitrate_kbps :: "int option"
  nc_tempo_bpm :: "rat option"
  nc_addition_time :: string
  nc_conflict_reason :: string
  nc_same_track_id :: BigintId

section \<open>Typed filters (filtered\_schema.rs)\<close>

datatype FilterNumericOperator = FLt | FGt | FEq | FLte | FGte | FNe

datatype FilterSearchParam =
    FNumericComparison FilterNumericOperator rat
  | FNumericBetween rat rat
  | FTextLike string bool
  | FTextIn "string list"
  | FNullCheck bool
  | FTagsAny "BigintId list"
  | FTagsAll "BigintId list"

datatype CriteriaName =
  Id | Artist | TrackName | LengthSeconds | BitrateKbps | TempoBpm | AdditionTime | Tags
  | ListenedSeconds

record SearchCriteriaFiltered =
  sf_filter_name :: CriteriaName
  sf_criteria :: "FilterSearchParam list"

section \<open>What \<^verbatim>\<open>serde_json::to_value\<close> makes of the rows\<close>

definition track_fields :: "TrackRow \<Rightarrow> (string \<times> json) list" where
  "track_fields t =
     [(''id'', JStr (id_text (tr_id t))),
      (''artist'', JStr (tr_artist t)),
      (''track_name'', JStr (tr_track_name t)),
      (''length_seconds'', opt_json JInt (tr_length_seconds t)),
      (''bitrate_kbps'', opt_json JInt (tr_bitrate_kbps t)),
      (''tempo_bpm'', opt_json JReal (tr_tempo_bpm t)),
      (''addition_time'', JStr (tr_addition_time t)),
      (''listened_seconds'', JInt (tr_listened_seconds t))]"

definition track_json :: "TrackRow \<Rightarrow> json" where
  "track_json t = JObj (track_fields t)"

definition source_json :: "TrackSource \<Rightarrow> json" where
  "source_json s =
     JObj [(''id'', JStr (id_text (ts_id s))),
           (''track_id'', JStr (id_text (ts_track_id s))),
           (''url'', JStr (ts_url s))]"

text \<open>\<^verbatim>\<open>#[serde(flatten)]\<close>: the track's fields at the top level, then \<^verbatim>\<open>sources\<close>.\<close>

definition track_with_sources_json :: "TrackWithSources \<Rightarrow> json" where
  "track_with_sources_json w =
     JObj (track_fields (tw_track w) @ [(''sources'', JArr (map source_json (tw_sources w)))])"

definition listen_json :: "ListenInfo \<Rightarrow> json" where
  "listen_json l =
     JObj [(''id'', JStr (id_text (li_id l))),
           (''track_id'', JStr (id_text (li_track_id l))),
           (''listened_from'', JInt (li_listened_from l)),
           (''listened_to'', JInt (li_listened_to l))]"

definition tag_json :: "Tag \<Rightarrow> json" where
  "tag_json t = JObj [(''id'', JStr (id_text (tg_id t))), (''tag_name'', JStr (tg_tag_name t))]"

definition meta_json :: "TrackMeta \<Rightarrow> json" where
  "meta_json m =
     JObj [(''id'', JStr (id_text (tm_id m))),
           (''track_id'', JStr (id_text (tm_track_id m))),
           (''key'', JStr (tm_key m)),
           (''value'', JStr (tm_value m))]"

end
