(* ===== verification/Wire.thy ===== *)
theory Wire
  imports Vamp_Prelude "HOL-Library.Word"
begin

text \<open>
  What travels on a websocket: tungstenite's messages, \<^verbatim>\<open>String::from_utf8\<close> (a HOL string holds
  the bytes of a Rust one), and the wire types of \<^verbatim>\<open>src-tauri/rtc/transport_types.rs\<close>, shared by
  the signalling server and the transport. Connection ids and their registries are common to
  both servers.
\<close>

section \<open>Messages\<close>

datatype Message =
    Text string
  | Binary "nat list"
  | Ping "nat list"
  | Pong "nat list"
  | Close

definition is_close :: "Message \<Rightarrow> bool" where
  "is_close m \<longleftrightarrow> m = Close"

section \<open>UTF-8\<close>

definition cont_byte :: "nat \<Rightarrow> bool" where
  "cont_byte b \<longleftrightarrow> 128 \<le> b \<and> b \<le> 191"

text \<open>Well-formed sequences of one to four bytes; overlong forms and surrogates are refused.\<close>

definition utf8_pair :: "nat \<Rightarrow> nat \<Rightarrow> bool" where
  "utf8_pair a b \<longleftrightarrow>
     (a = 224 \<and> 160 \<le> b \<and> b \<le> 191)
   \<or> (225 \<le> a \<and> a \<le> 236 \<and> cont_byte b)
   \<or> (a = 237 \<and> 128 \<le> b \<and> b \<le> 159)
   \<or> (238 \<le> a \<and> a \<le> 239 \<and> cont_byte b)"

definition utf8_quad :: "nat \<Rightarrow> nat \<Rightarrow> bool" where
  "utf8_quad a b \<longleftrightarrow>
     (a = 240 \<and> 144 \<le> b \<and> b \<le> 191)
   \<or> (241 \<le> a \<and> a \<le> 243 \<and> cont_byte b)
   \<or> (a = 244 \<and> 128 \<le> b \<and> b \<le> 143)"

fun valid_utf8 :: "nat list \<Rightarrow> bool" where
  "valid_utf8 [] \<longleftrightarrow> True"
| "valid_utf8 (a # bs) \<longleftrightarrow>
     (if a < 128 then valid_utf8 bs
      else
        (case bs of
           [] \<Rightarrow> False
         | b # cs \<Rightarrow>
             if 194 \<le> a \<and> a \<le> 223 then cont_byte b \<and> valid_utf8 cs
             else
               (case cs of
                  [] \<Rightarrow> False
                | c # ds \<Rightarrow>
                    if utf8_pair a b then cont_byte c \<and> valid_utf8 ds
                    else
                      (case ds of
                         [] \<Rightarrow> False
                       | d # es \<Rightarrow>
                           utf8_quad a b \<and> cont_byte c \<and> cont_byte d \<and> valid_utf8 es))))"

definition from_utf8 :: "nat list \<Rightarrow> string option" where
  "from_utf8 bs = (if valid_utf8 bs then Some (map char_of bs) else None)"

section \<open>Wire types (transport\_types.rs)\<close>

datatype 't TransportMsg =
    Ack "32 word" string
  | Normal "32 word" string 't

record 't WireMsg =
  wm_tag :: string
  wm_message :: "'t TransportMsg option"

section \<open>Registries\<close>

type_synonym ConnectionId = nat

text \<open>
  A registry maps a name (a routing tag, an address) to the connections it names. The owners of
  a client are what its clean-up goes through, so a registry is sound when every entry is
  accounted for by its owner.
\<close>

locale owned_registry =
  fixes owner_of :: "'s \<Rightarrow> 'name \<Rightarrow> 'conn set"
    and claims :: "'s \<Rightarrow> 'conn \<Rightarrow> 'name set"
    and sound :: "'s \<Rightarrow> bool"
    and drop_conn :: "'conn \<Rightarrow> 's \<Rightarrow> 's"
  assumes owned: "sound s \<Longrightarrow> c \<in> owner_of s n \<Longrightarrow> n \<in> claims s c"
    and drop_owner: "sound s \<Longrightarrow> owner_of (drop_conn c s) n = owner_of s n - {c}"
    and drop_sound: "sound s \<Longrightarrow> sound (drop_conn c s)"
begin

text \<open>A client that leaves takes all its entries with it, and no one else's.\<close>

lemma left_nowhere: "sound s \<Longrightarrow> c \<notin> owner_of (drop_conn c s) n"
  by (simp add: drop_owner)

lemma others_stay: "sound s \<Longrightarrow> c' \<noteq> c \<Longrightarrow> c' \<in> owner_of (drop_conn c s) n \<longleftrightarrow> c' \<in> owner_of s n"
  by (simp add: drop_owner)

lemma drop_all:
  "sound s \<Longrightarrow> sound (fold drop_conn cs s)
     \<and> owner_of (fold drop_conn cs s) n = owner_of s n - set cs"
  by (induction cs arbitrary: s) (auto simp: drop_owner drop_sound)

lemma unclaimed_not_owner: "sound s \<Longrightarrow> n \<notin> claims s c \<Longrightarrow> c \<notin> owner_of s n"
  using owned by blast

end

end
