(* ===== verification/Routing.thy ===== *)
theory Routing
  imports Schema Wire
begin

text \<open>
  The tables of the signalling server (\<^verbatim>\<open>src-tauri/signalling/ws_server.rs\<close>): routing records
  of at most two connections per tag, the connection table, the rate limiter of a connection,
  and the parsing of an incoming frame. The locks around them are held for one operation each.
\<close>

section \<open>Configuration\<close>

text \<open>Durations are nanoseconds.\<close>

record ServerConfig =
  max_message_size :: nat
  send_buffer_limit :: nat
  messages_per_second :: nat
  messages_per_connection :: nat
  first_message_max_delay :: nat
  idle_check_timeout :: nat

definition default_config :: ServerConfig where
  "default_config =
     \<lparr>max_message_size = 8192, send_buffer_limit = 100, messages_per_second = 10,
      messages_per_connection = 128, first_message_max_delay = 5 * 10 ^ 9,
      idle_check_timeout = 60 * 10 ^ 9\<rparr>"

section \<open>Routing records\<close>

record RoutingRecord =
  pair :: "ConnectionId list"

definition empty_record :: RoutingRecord where
  "empty_record = \<lparr>pair = []\<rparr>"

definition contains :: "RoutingRecord \<Rightarrow> ConnectionId \<Rightarrow> bool" where
  "contains r c \<longleftrightarrow> c \<in> set (pair r)"

definition is_full :: "RoutingRecord \<Rightarrow> bool" where
  "is_full r \<longleftrightarrow> length (pair r) \<ge> 2"

definition add :: "ConnectionId \<Rightarrow> RoutingRecord \<Rightarrow> RoutingRecord" where
  "add c r = (if \<not> contains r c \<and> \<not> is_full r then r\<lparr>pair := pair r @ [c]\<rparr> else r)"

definition other_connection :: "RoutingRecord \<Rightarrow> ConnectionId \<Rightarrow> ConnectionId option" where
  "other_connection r c = find (\<lambda>k. k \<noteq> c) (pair r)"

definition remove :: "ConnectionId \<Rightarrow> RoutingRecord \<Rightarrow> RoutingRecord" where
  "remove c r = r\<lparr>pair := filter (\<lambda>k. k \<noteq> c) (pair r)\<rparr>"

definition is_empty :: "RoutingRecord \<Rightarrow> bool" where
  "is_empty r \<longleftrightarrow> pair r = []"

definition record_ok :: "RoutingRecord \<Rightarrow> bool" where
  "record_ok r \<longleftrightarrow> distinct (pair r) \<and> length (pair r) \<le> 2"

lemma record_ok_empty [simp]: "record_ok empty_record"
  by (simp add: record_ok_def empty_record_def)

lemma record_ok_add [simp]: "record_ok r \<Longrightarrow> record_ok (add c r)"
  by (auto simp: record_ok_def add_def contains_def is_full_def)

lemma record_ok_remove [simp]: "record_ok r \<Longrightarrow> record_ok (remove c r)"
  by (auto simp: record_ok_def remove_def intro: le_trans [OF length_filter_le])

lemma set_add: "set (pair (add c r)) = set (pair r) \<union> (if is_full r then {} else {c})"
  by (auto simp: add_def contains_def)

lemma set_remove [simp]: "set (pair (remove c r)) = set (pair r) - {c}"
  by (auto simp: remove_def)

lemma set_empty_record [simp]: "set (pair empty_record) = {}"
  by (simp add: empty_record_def)

lemma other_connection_Some: "other_connection r c = Some d \<Longrightarrow> d \<in> set (pair r) \<and> d \<noteq> c"
  by (auto simp: other_connection_def find_Some_iff)

lemma other_connection_None: "other_connection r c = None \<longleftrightarrow> set (pair r) \<subseteq> {c}"
  by (auto simp: other_connection_def find_None_iff)

section \<open>The shared state\<close>

text \<open>
  A \<^verbatim>\<open>ConnectionHandler\<close> is the sending half of a connection's queue and its close notifier; the
  model names the connection that has the other halves.
\<close>

datatype ConnectionHandler = Handler ConnectionId

record ServerState =
  rtt :: "string \<Rightarrow> RoutingRecord option"
  ct :: "ConnectionId \<Rightarrow> ConnectionHandler option"

definition empty_state :: ServerState where
  "empty_state = \<lparr>rtt = (\<lambda>_. None), ct = (\<lambda>_. None)\<rparr>"

datatype route_error = ConnectionNotFound | RoutingRecordFull | RecordOnly | NoOtherConnection

definition record_connection ::
  "ConnectionId \<Rightarrow> ConnectionHandler \<Rightarrow> ServerState \<Rightarrow> ServerState" where
  "record_connection c h st = st\<lparr>ct := (ct st)(c := Some h)\<rparr>"

text \<open>\<^verbatim>\<open>entry(..).or_default()\<close>, then the changes made through the reference it returns.\<close>

definition put_record :: "string \<Rightarrow> RoutingRecord \<Rightarrow> ServerState \<Rightarrow> ServerState" where
  "put_record tag r st = st\<lparr>rtt := (rtt st)(tag := Some r)\<rparr>"

definition record_rtr_and_get_forwarding_queue ::
  "string \<Rightarrow> ConnectionId \<Rightarrow> bool \<Rightarrow> ServerState
     \<Rightarrow> (route_error + ConnectionHandler) \<times> ServerState" where
  "record_rtr_and_get_forwarding_queue tag c has_payload st =
     (if ct st c = None then (Inl ConnectionNotFound, st)
      else
        (let r = (case rtt st tag of Some r \<Rightarrow> r | None \<Rightarrow> empty_record);
             st0 = put_record tag r st in
         if is_full r \<and> \<not> contains r c then (Inl RoutingRecordFull, st0)
         else
           (let r1 = (if \<not> contains r c then add c r else r);
                st1 = put_record tag r1 st in
            if \<not> has_payload then (Inl RecordOnly, st1)
            else
              (case other_connection r1 c of
                 None \<Rightarrow> (Inl NoOtherConnection, st1)
               | Some d \<Rightarrow>
                   (case ct st d of
                      None \<Rightarrow> (Inl NoOtherConnection, put_record tag (remove d r1) st)
                    | Some h \<Rightarrow> (Inr h, st1))))))"

definition remove_records_for ::
  "ConnectionId \<Rightarrow> string option \<Rightarrow> ServerState \<Rightarrow> ServerState" where
  "remove_records_for c tag st =
     (let st1 = st\<lparr>ct := (ct st)(c := None)\<rparr> in
      case tag of
        None \<Rightarrow> st1
      | Some t \<Rightarrow>
          (case rtt st1 t of
             None \<Rightarrow> st1
           | Some r \<Rightarrow>
               (let r1 = remove c r in
                if is_empty r1 then st1\<lparr>rtt := (rtt st1)(t := None)\<rparr> else put_record t r1 st1)))"

definition members :: "ServerState \<Rightarrow> string \<Rightarrow> ConnectionId set" where
  "members st tag = (case rtt st tag of Some r \<Rightarrow> set (pair r) | None \<Rightarrow> {})"

definition rooms_ok :: "ServerState \<Rightarrow> bool" where
  "rooms_ok st \<longleftrightarrow> (\<forall>tag r. rtt st tag = Some r \<longrightarrow> record_ok r)"

lemma record_connection_members [simp]: "members (record_connection c h st) = members st"
  by (simp add: members_def record_connection_def fun_eq_iff)

lemma record_connection_rooms [simp]: "rooms_ok (record_connection c h st) = rooms_ok st"
  by (simp add: rooms_ok_def record_connection_def)

lemma put_record_ct [simp]: "ct (put_record tag r st) = ct st"
  by (simp add: put_record_def)

lemma put_record_members:
  "members (put_record tag r st) = (members st)(tag := set (pair r))"
  by (auto simp: members_def put_record_def fun_eq_iff)

lemma put_record_rooms: "rooms_ok st \<Longrightarrow> record_ok r \<Longrightarrow> rooms_ok (put_record tag r st)"
  by (simp add: rooms_ok_def put_record_def)

text \<open>Routing a frame adds its sender to the tag's room, if there is space, and no one else.\<close>

lemma route_state:
  assumes "record_rtr_and_get_forwarding_queue tag c pl st = (res, st')" and "rooms_ok st"
  shows "ct st' = ct st" and "rooms_ok st'"
    and "members st' t \<subseteq> members st t \<union> (if t = tag \<and> ct st c \<noteq> None then {c} else {})"
proof -
  let ?r = "case rtt st tag of Some r \<Rightarrow> r | None \<Rightarrow> empty_record"
  have r: "record_ok ?r" using assms(2) by (auto simp: rooms_ok_def split: option.splits)
  have m: "set (pair ?r) = members st tag" by (simp add: members_def split: option.splits)
  define r1 where "r1 = (if \<not> contains ?r c then add c ?r else ?r)"
  have r1: "record_ok r1" "set (pair r1) \<subseteq> set (pair ?r) \<union> {c}"
    using r by (auto simp: set_add r1_def)
  have r1_remove: "record_ok (remove d r1)" "set (pair (remove d r1)) \<subseteq> set (pair ?r) \<union> {c}" for d
    using r1 by auto
  consider "st' = st"
    | r' where "st' = put_record tag r' st" "record_ok r'" "set (pair r') \<subseteq> set (pair ?r) \<union> {c}"
      "ct st c \<noteq> None"
  proof (cases "ct st c = None")
    case True
    then show ?thesis using assms(1) that(1) by (simp add: record_rtr_and_get_forwarding_queue_def)
  next
    case False
    from assms(1) False have "st' \<in> {put_record tag ?r st, put_record tag r1 st}
        \<or> (\<exists>d. st' = put_record tag (remove d r1) st)"
      unfolding record_rtr_and_get_forwarding_queue_def Let_def r1_def [symmetric]
      by (auto simp del: not_None_eq split: if_splits option.splits)
    then consider "st' = put_record tag ?r st" | "st' = put_record tag r1 st"
      | d where "st' = put_record tag (remove d r1) st" by blast
    then show ?thesis
    proof cases
      case 1
      then show ?thesis by (rule that(2) [OF _ r _ False]) blast
    next
      case 2
      then show ?thesis by (rule that(2) [OF _ r1 False])
    next
      case 3
      then show ?thesis by (rule that(2) [OF _ r1_remove False])
    qed
  qed
  then have "ct st' = ct st \<and> rooms_ok st'
      \<and> members st' t \<subseteq> members st t \<union> (if t = tag \<and> ct st c \<noteq> None then {c} else {})"
  proof cases
    case 1
    then show ?thesis using assms(2) by simp
  next
    case 2
    then show ?thesis using assms(2) m by (auto simp: put_record_members put_record_rooms)
  qed
  then show "ct st' = ct st" and "rooms_ok st'"
    and "members st' t \<subseteq> members st t \<union> (if t = tag \<and> ct st c \<noteq> None then {c} else {})"
    by blast+
qed

lemma route_Inr:
  assumes "record_rtr_and_get_forwarding_queue tag c pl st = (Inr h, st')"
  shows "pl \<and> (\<exists>d. d \<noteq> c \<and> d \<in> members st tag \<and> ct st d = Some h
     \<and> c \<in> members st' tag \<and> d \<in> members st' tag)"
proof -
  let ?r = "case rtt st tag of Some r \<Rightarrow> r | None \<Rightarrow> empty_record"
  let ?r1 = "if \<not> contains ?r c then add c ?r else ?r"
  have m: "set (pair ?r) = members st tag" by (simp add: members_def split: option.splits)
  obtain d where pl: "pl" and d: "other_connection ?r1 c = Some d" "ct st d = Some h"
    and st': "st' = put_record tag ?r1 st" and full: "\<not> (is_full ?r \<and> \<not> contains ?r c)"
    using assms by (simp add: record_rtr_and_get_forwarding_queue_def Let_def
        split: if_splits option.splits)
  have d1: "d \<in> set (pair ?r1)" "d \<noteq> c" using other_connection_Some [OF d(1)] by simp_all
  then have "d \<in> set (pair ?r)" by (simp add: set_add split: if_splits)
  moreover have "c \<in> set (pair ?r1)" using full by (simp add: set_add contains_def)
  ultimately show ?thesis using pl d(2) d1 m st' by (auto simp: put_record_members)
qed

lemma remove_ct [simp]: "ct (remove_records_for c tag st) = (ct st)(c := None)"
  by (auto simp: remove_records_for_def Let_def split: option.splits)

lemma remove_members:
  "members (remove_records_for c tag st) t = members st t - (if tag = Some t then {c} else {})"
proof -
  have e: "is_empty (remove c r) \<longleftrightarrow> set (pair r) \<subseteq> {c}" for r
    by (auto simp: is_empty_def remove_def filter_empty_conv)
  show ?thesis
    by (cases tag)
       (auto simp: remove_records_for_def Let_def members_def put_record_def e
         split: option.splits)
qed

lemma remove_rooms: "rooms_ok st \<Longrightarrow> rooms_ok (remove_records_for c tag st)"
  by (auto simp: remove_records_for_def Let_def rooms_ok_def put_record_def split: option.splits)

section \<open>The rate limiter\<close>

record MsgRateLimiter =
  rl_tag :: "string option"
  window_started_at :: nat
  window_message_count :: nat
  total_message_count :: nat
  max_messages_per_second :: nat
  max_messages_per_connection :: nat

definition new_limiter :: "nat \<Rightarrow> nat \<Rightarrow> nat \<Rightarrow> MsgRateLimiter" where
  "new_limiter now per_second per_connection =
     \<lparr>rl_tag = None, window_started_at = now, window_message_count = 0, total_message_count = 0,
      max_messages_per_second = per_second, max_messages_per_connection = per_connection\<rparr>"

definition rate_limit_by_time :: "nat \<Rightarrow> MsgRateLimiter \<Rightarrow> (string + unit) \<times> MsgRateLimiter" where
  "rate_limit_by_time now l =
     (let l1 = (if now - window_started_at l \<ge> 10 ^ 9
                then l\<lparr>window_started_at := now, window_message_count := 0\<rparr> else l) in
      if window_message_count l1 \<ge> max_messages_per_second l1
      then (Inl ''message rate limit exceeded'', l1)
      else (Inr (), l1\<lparr>window_message_count := window_message_count l1 + 1\<rparr>))"

definition limit_messages :: "MsgRateLimiter \<Rightarrow> (string + unit) \<times> MsgRateLimiter" where
  "limit_messages l =
     (if total_message_count l \<ge> max_messages_per_connection l
      then (Inl ''connection message limit reached'', l)
      else (Inr (), l\<lparr>total_message_count := total_message_count l + 1\<rparr>))"

definition try_brand_rtt_tag :: "string \<Rightarrow> MsgRateLimiter \<Rightarrow> (string + unit) \<times> MsgRateLimiter" where
  "try_brand_rtt_tag tag l =
     (case rl_tag l of
        Some existing \<Rightarrow>
          if existing \<noteq> tag then (Inl ''connection changed routing tag'', l) else (Inr (), l)
      | None \<Rightarrow> (Inr (), l\<lparr>rl_tag := Some tag\<rparr>))"

definition limiter_ok :: "MsgRateLimiter \<Rightarrow> bool" where
  "limiter_ok l \<longleftrightarrow> window_message_count l \<le> max_messages_per_second l
     \<and> total_message_count l \<le> max_messages_per_connection l"

lemma new_limiter_ok [simp]: "limiter_ok (new_limiter now a b)"
  by (simp add: limiter_ok_def new_limiter_def)

lemma rate_limit_by_time_frame:
  assumes "rate_limit_by_time now l = (r, l')"
  shows "limiter_ok l \<Longrightarrow> limiter_ok l'" and "rl_tag l' = rl_tag l"
    and "total_message_count l' = total_message_count l"
    and "max_messages_per_connection l' = max_messages_per_connection l"
    and "max_messages_per_second l' = max_messages_per_second l"
  using assms by (auto simp: rate_limit_by_time_def limiter_ok_def Let_def split: if_splits)

lemma limit_messages_frame:
  assumes "limit_messages l = (r, l')"
  shows "limiter_ok l \<Longrightarrow> limiter_ok l'" and "rl_tag l' = rl_tag l"
    and "max_messages_per_connection l' = max_messages_per_connection l"
    and "total_message_count l' = total_message_count l + (if r = Inr () then 1 else 0)"
    and "max_messages_per_second l' = max_messages_per_second l"
  using assms by (auto simp: limit_messages_def limiter_ok_def split: if_splits)

lemma try_brand_frame:
  assumes "try_brand_rtt_tag tag l = (r, l')"
  shows "limiter_ok l \<Longrightarrow> limiter_ok l'" and "r = Inr () \<Longrightarrow> rl_tag l' = Some tag"
    and "rl_tag l = Some t \<Longrightarrow> rl_tag l' = Some t"
    and "max_messages_per_connection l' = max_messages_per_connection l"
    and "total_message_count l' = total_message_count l"
    and "max_messages_per_second l' = max_messages_per_second l"
  using assms by (auto simp: try_brand_rtt_tag_def limiter_ok_def split: if_splits option.splits)

section \<open>Incoming frames\<close>

record ParsedMessage =
  pm_rtt_tag :: string
  pm_has_payload :: bool

text \<open>\<open>decode\<close> is \<^verbatim>\<open>serde_json::from_str\<close> at \<^verbatim>\<open>WireMsg<Value>\<close>.\<close>

definition parse_incoming ::
  "(string \<Rightarrow> json WireMsg option) \<Rightarrow> Message \<Rightarrow> string + ParsedMessage" where
  "parse_incoming decode m =
     and_then
       (case m of
          Text t \<Rightarrow> Inr t
        | Binary bs \<Rightarrow>
            (case from_utf8 bs of Some t \<Rightarrow> Inr t | None \<Rightarrow> Inl ''binary message is not utf-8'')
        | _ \<Rightarrow> Inl ''unsupported websocket message'')
       (\<lambda>text.
          case decode text of
            None \<Rightarrow> Inl (''invalid signalling message: '' @ text)
          | Some w \<Rightarrow>
              if wm_tag w = [] then Inl ''empty routing tag''
              else Inr \<lparr>pm_rtt_tag = wm_tag w, pm_has_payload = (wm_message w \<noteq> None)\<rparr>)"

lemma parse_incoming_tag: "parse_incoming decode m = Inr p \<Longrightarrow> pm_rtt_tag p \<noteq> []"
  by (auto simp: parse_incoming_def and_then_Inr_iff split: option.splits if_splits)

end
