(* ===== verification/Signalling.thy ===== *)
theory Signalling
  imports Routing
begin

text \<open>
  The signalling server of \<^verbatim>\<open>src-tauri/signalling/ws_server.rs\<close> as a step system: the accept
  loop, and for each connection its listen task, egress task, idle checker and clean-up. A step
  is what one task does between two awaits; the order of the events is the scheduler's choice.
  \<^verbatim>\<open>AtomicUsize\<close> counters are \<open>nat\<close>.
\<close>

named_theorems step_defs "definitions of the server's steps"

section \<open>State\<close>

text \<open>
  The listen task waits for a frame, holds a frame it has found the destination of, or is over.
  The egress task runs, has left its loop with its queue still open, or is over.
\<close>

datatype listen_state = Listening | Sending ConnectionHandler Message | ListenDone

datatype egress_state = Running | Closing | EgressDone

datatype idle_state = FirstWait | Watching nat | IdleDone

record connection =
  cn_limiter :: MsgRateLimiter
  cn_cancelled :: bool
  cn_listen :: listen_state
  cn_egress :: egress_state
  cn_idle :: idle_state
  cn_queue :: "Message list"
  cn_written :: "Message list"
  cn_incoming :: nat
  cn_forwarded :: nat
  cn_recorded :: bool
  cn_gone :: bool

record ServerMetrics =
  sm_rate_limited_by_time :: nat
  sm_rate_limited_by_count :: nat
  sm_forwarded :: nat
  sm_bad_routing_tag :: nat
  sm_incoming_msg :: nat

record server =
  sv_next :: ConnectionId
  sv_state :: ServerState
  sv_conns :: "ConnectionId \<Rightarrow> connection option"
  sv_metrics :: ServerMetrics

definition zero_metrics :: ServerMetrics where
  "zero_metrics =
     \<lparr>sm_rate_limited_by_time = 0, sm_rate_limited_by_count = 0, sm_forwarded = 0,
      sm_bad_routing_tag = 0, sm_incoming_msg = 0\<rparr>"

definition empty_server :: server where
  "empty_server =
     \<lparr>sv_next = 0, sv_state = empty_state, sv_conns = (\<lambda>_. None), sv_metrics = zero_metrics\<rparr>"

definition new_connection :: "ServerConfig \<Rightarrow> nat \<Rightarrow> connection" where
  "new_connection cfg now =
     \<lparr>cn_limiter = new_limiter now (messages_per_second cfg) (messages_per_connection cfg),
      cn_cancelled = False, cn_listen = Listening, cn_egress = Running, cn_idle = FirstWait,
      cn_queue = [], cn_written = [], cn_incoming = 0, cn_forwarded = 0, cn_recorded = False,
      cn_gone = False\<rparr>"

definition put_conn :: "ConnectionId \<Rightarrow> connection \<Rightarrow> server \<Rightarrow> server" where
  "put_conn c cn s = s\<lparr>sv_conns := (sv_conns s)(c := Some cn)\<rparr>"

definition on_metrics :: "(ServerMetrics \<Rightarrow> ServerMetrics) \<Rightarrow> server \<Rightarrow> server" where
  "on_metrics f s = s\<lparr>sv_metrics := f (sv_metrics s)\<rparr>"

definition record_incoming_msg :: "ServerMetrics \<Rightarrow> ServerMetrics" where
  "record_incoming_msg m = m\<lparr>sm_incoming_msg := sm_incoming_msg m + 1\<rparr>"

definition record_time_rate_limit :: "ServerMetrics \<Rightarrow> ServerMetrics" where
  "record_time_rate_limit m = m\<lparr>sm_rate_limited_by_time := sm_rate_limited_by_time m + 1\<rparr>"

definition record_count_rate_limit :: "ServerMetrics \<Rightarrow> ServerMetrics" where
  "record_count_rate_limit m = m\<lparr>sm_rate_limited_by_count := sm_rate_limited_by_count m + 1\<rparr>"

definition record_forwarded :: "ServerMetrics \<Rightarrow> ServerMetrics" where
  "record_forwarded m = m\<lparr>sm_forwarded := sm_forwarded m + 1\<rparr>"

definition record_bad_routing_tag :: "ServerMetrics \<Rightarrow> ServerMetrics" where
  "record_bad_routing_tag m = m\<lparr>sm_bad_routing_tag := sm_bad_routing_tag m + 1\<rparr>"

section \<open>Processing a frame\<close>

text \<open>
  \<^verbatim>\<open>MsgProcessor::process\<close> up to the destination: an error, which ends the connection, a frame
  that is skipped (\<open>None\<close>), or the handler of the connection the frame goes to.
\<close>

definition process ::
  "(string \<Rightarrow> json WireMsg option) \<Rightarrow> nat \<Rightarrow> ConnectionId \<Rightarrow> connection \<Rightarrow> Message \<Rightarrow> server
     \<Rightarrow> (string + ConnectionHandler option) \<times> connection \<times> server" where [step_defs]:
  "process decode now c cn msg s =
     (let s1 = on_metrics record_incoming_msg s in
      case rate_limit_by_time now (cn_limiter cn) of
        (Inl e, l1) \<Rightarrow> (Inr None, cn\<lparr>cn_limiter := l1\<rparr>, on_metrics record_time_rate_limit s1)
      | (Inr _, l1) \<Rightarrow>
          (case limit_messages l1 of
             (Inl e, l2) \<Rightarrow> (Inl e, cn\<lparr>cn_limiter := l2\<rparr>, on_metrics record_count_rate_limit s1)
           | (Inr _, l2) \<Rightarrow>
               (case parse_incoming decode msg of
                  Inl e \<Rightarrow> (Inl e, cn\<lparr>cn_limiter := l2\<rparr>, s1)
                | Inr p \<Rightarrow>
                    (case try_brand_rtt_tag (pm_rtt_tag p) l2 of
                       (Inl e, l3) \<Rightarrow>
                         (Inl e, cn\<lparr>cn_limiter := l3, cn_cancelled := True\<rparr>,
                          on_metrics record_bad_routing_tag s1)
                     | (Inr _, l3) \<Rightarrow>
                         (case record_rtr_and_get_forwarding_queue (pm_rtt_tag p) c
                                 (pm_has_payload p) (sv_state s1) of
                            (Inl e, st) \<Rightarrow>
                              (Inr None, cn\<lparr>cn_limiter := l3, cn_incoming := cn_incoming cn + 1\<rparr>,
                               s1\<lparr>sv_state := st\<rparr>)
                          | (Inr h, st) \<Rightarrow>
                              (Inr (Some h),
                               cn\<lparr>cn_limiter := l3, cn_incoming := cn_incoming cn + 1\<rparr>,
                               s1\<lparr>sv_state := st\<rparr>))))))"

text \<open>\<^verbatim>\<open>close_notifier.cancel()\<close> after the loop of \<^verbatim>\<open>listen_task\<close>.\<close>

definition end_listening :: "connection \<Rightarrow> connection" where
  "end_listening cn = cn\<lparr>cn_listen := ListenDone, cn_cancelled := True\<rparr>"

definition receive ::
  "(string \<Rightarrow> json WireMsg option) \<Rightarrow> nat \<Rightarrow> ConnectionId \<Rightarrow> connection \<Rightarrow> Message \<Rightarrow> server \<Rightarrow> server"
  where [step_defs]:
  "receive decode now c cn msg s =
     (if is_close msg then put_conn c (end_listening cn) s
      else
        (case process decode now c cn msg s of
           (Inl e, cn', s') \<Rightarrow> put_conn c (end_listening cn') s'
         | (Inr None, cn', s') \<Rightarrow> put_conn c cn' s'
         | (Inr (Some h), cn', s') \<Rightarrow> put_conn c (cn'\<lparr>cn_listen := Sending h msg\<rparr>) s'))"

text \<open>
  \<^verbatim>\<open>try_send\<close>: it fails when the receiver is gone or the queue is full. The marker and the
  metrics count a success; a failure is an error of \<^verbatim>\<open>process\<close>.
\<close>

definition forward ::
  "ServerConfig \<Rightarrow> ConnectionId \<Rightarrow> connection \<Rightarrow> ConnectionId \<Rightarrow> Message \<Rightarrow> server \<Rightarrow> server"
  where [step_defs]:
  "forward cfg c cn d msg s =
     (case sv_conns s d of
        Some dn \<Rightarrow>
          if cn_egress dn = EgressDone \<or> length (cn_queue dn) \<ge> send_buffer_limit cfg
          then put_conn c (end_listening cn) s
          else
            on_metrics record_forwarded
              (put_conn c (cn\<lparr>cn_listen := Listening, cn_forwarded := cn_forwarded cn + 1\<rparr>)
                (put_conn d (dn\<lparr>cn_queue := cn_queue dn @ [msg]\<rparr>) s))
      | None \<Rightarrow> put_conn c (end_listening cn) s)"

section \<open>Steps\<close>

text \<open>
  One constructor per thing that can happen next; a step that is not enabled changes nothing.
  \<open>EgressSend c ok\<close> is one message handed to the socket, \<open>ok\<close> its success.
\<close>

datatype event =
    Accepted nat
  | HandshakeFailed
  | Recorded ConnectionId
  | Incoming ConnectionId nat Message
  | ForwardStep ConnectionId
  | ReadEnd ConnectionId
  | ListenCancelled ConnectionId
  | EgressSend ConnectionId bool
  | EgressCancelled ConnectionId
  | EgressClosed ConnectionId
  | IdleTimer ConnectionId
  | IdleCancelled ConnectionId
  | Cleanup ConnectionId

definition with_conn ::
  "ConnectionId \<Rightarrow> (connection \<Rightarrow> bool) \<Rightarrow> (connection \<Rightarrow> server \<Rightarrow> server) \<Rightarrow> server \<Rightarrow> server" where
  "with_conn c enabled f s =
     (case sv_conns s c of Some cn \<Rightarrow> if enabled cn then f cn s else s | None \<Rightarrow> s)"

definition egress_send :: "bool \<Rightarrow> connection \<Rightarrow> connection" where [step_defs]:
  "egress_send sent cn =
     (case cn_queue cn of
        [] \<Rightarrow> cn
      | m # ms \<Rightarrow>
          if sent then cn\<lparr>cn_queue := ms, cn_written := cn_written cn @ [m]\<rparr>
          else cn\<lparr>cn_queue := ms, cn_cancelled := True, cn_egress := Closing\<rparr>)"

text \<open>\<^verbatim>\<open>start_idle_checker\<close> at the end of a sleep.\<close>

definition idle_timer :: "connection \<Rightarrow> connection" where [step_defs]:
  "idle_timer cn =
     (case cn_idle cn of
        FirstWait \<Rightarrow>
          if cn_incoming cn = 0 then cn\<lparr>cn_cancelled := True, cn_idle := IdleDone\<rparr>
          else cn\<lparr>cn_idle := Watching (cn_forwarded cn)\<rparr>
      | Watching checked \<Rightarrow>
          if cn_forwarded cn = checked then cn\<lparr>cn_cancelled := True, cn_idle := IdleDone\<rparr>
          else cn\<lparr>cn_idle := Watching (cn_forwarded cn)\<rparr>
      | IdleDone \<Rightarrow> cn)"

text \<open>The end of \<^verbatim>\<open>run_connection\<close>, after the three tasks have been joined.\<close>

definition cleanup :: "ConnectionId \<Rightarrow> connection \<Rightarrow> server \<Rightarrow> server" where [step_defs]:
  "cleanup c cn s =
     (put_conn c (cn\<lparr>cn_cancelled := True, cn_gone := True\<rparr>) s)
       \<lparr>sv_state := remove_records_for c (rl_tag (cn_limiter cn)) (sv_state s)\<rparr>"

fun server_step ::
  "(string \<Rightarrow> json WireMsg option) \<Rightarrow> ServerConfig \<Rightarrow> server \<Rightarrow> event \<Rightarrow> server" where
  "server_step decode cfg s (Accepted now) =
     (put_conn (sv_next s) (new_connection cfg now) s)\<lparr>sv_next := sv_next s + 1\<rparr>"
| "server_step decode cfg s HandshakeFailed = s\<lparr>sv_next := sv_next s + 1\<rparr>"
| "server_step decode cfg s (Recorded c) =
     with_conn c (\<lambda>cn. \<not> cn_recorded cn)
       (\<lambda>cn s. (put_conn c (cn\<lparr>cn_recorded := True\<rparr>) s)
          \<lparr>sv_state := record_connection c (Handler c) (sv_state s)\<rparr>) s"
| "server_step decode cfg s (Incoming c now msg) =
     with_conn c (\<lambda>cn. cn_listen cn = Listening) (\<lambda>cn. receive decode now c cn msg) s"
| "server_step decode cfg s (ForwardStep c) =
     with_conn c (\<lambda>_. True)
       (\<lambda>cn s. case cn_listen cn of
                 Sending (Handler d) msg \<Rightarrow> forward cfg c cn d msg s
               | _ \<Rightarrow> s) s"
| "server_step decode cfg s (ReadEnd c) =
     with_conn c (\<lambda>cn. cn_listen cn = Listening) (\<lambda>cn. put_conn c (end_listening cn)) s"
| "server_step decode cfg s (ListenCancelled c) =
     with_conn c (\<lambda>cn. cn_listen cn = Listening \<and> cn_cancelled cn)
       (\<lambda>cn. put_conn c (end_listening cn)) s"
| "server_step decode cfg s (EgressSend c sent) =
     with_conn c (\<lambda>cn. cn_egress cn = Running) (\<lambda>cn. put_conn c (egress_send sent cn)) s"
| "server_step decode cfg s (EgressCancelled c) =
     with_conn c (\<lambda>cn. cn_egress cn = Running \<and> cn_cancelled cn)
       (\<lambda>cn. put_conn c (cn\<lparr>cn_egress := Closing\<rparr>)) s"
| "server_step decode cfg s (EgressClosed c) =
     with_conn c (\<lambda>cn. cn_egress cn = Closing) (\<lambda>cn. put_conn c (cn\<lparr>cn_egress := EgressDone\<rparr>)) s"
| "server_step decode cfg s (IdleTimer c) =
     with_conn c (\<lambda>_. True) (\<lambda>cn. put_conn c (idle_timer cn)) s"
| "server_step decode cfg s (IdleCancelled c) =
     with_conn c (\<lambda>cn. cn_cancelled cn) (\<lambda>cn. put_conn c (cn\<lparr>cn_idle := IdleDone\<rparr>)) s"
| "server_step decode cfg s (Cleanup c) =
     with_conn c (\<lambda>cn. cn_recorded cn \<and> \<not> cn_gone cn \<and> cn_listen cn = ListenDone
                       \<and> cn_egress cn = EgressDone \<and> cn_idle cn = IdleDone) (cleanup c) s"

section \<open>The invariant\<close>

definition brand :: "server \<Rightarrow> ConnectionId \<Rightarrow> string option" where
  "brand s c = (case sv_conns s c of Some cn \<Rightarrow> rl_tag (cn_limiter cn) | None \<Rightarrow> None)"

definition carries :: "(string \<Rightarrow> json WireMsg option) \<Rightarrow> Message \<Rightarrow> string \<Rightarrow> bool" where
  "carries decode m t \<longleftrightarrow> parse_incoming decode m = Inr \<lparr>pm_rtt_tag = t, pm_has_payload = True\<rparr>"

text \<open>What holds of one connection: its counters are bounded and what it is sent has its tag.\<close>

definition conn_ok ::
  "(string \<Rightarrow> json WireMsg option) \<Rightarrow> ServerConfig \<Rightarrow> connection \<Rightarrow> bool" where
  "conn_ok decode cfg cn \<longleftrightarrow>
     limiter_ok (cn_limiter cn)
   \<and> max_messages_per_connection (cn_limiter cn) = messages_per_connection cfg
   \<and> cn_incoming cn \<le> total_message_count (cn_limiter cn)
   \<and> cn_forwarded cn + (case cn_listen cn of Sending h m \<Rightarrow> 1 | _ \<Rightarrow> 0) \<le> cn_incoming cn
   \<and> length (cn_queue cn) \<le> send_buffer_limit cfg
   \<and> (\<forall>m \<in> set (cn_queue cn) \<union> set (cn_written cn).
        \<exists>t. rl_tag (cn_limiter cn) = Some t \<and> carries decode m t)
   \<and> (cn_gone cn \<longrightarrow> cn_recorded cn \<and> cn_listen cn = ListenDone)"

text \<open>A frame on its way goes to the other connection of the room its tag names.\<close>

definition sending_ok :: "(string \<Rightarrow> json WireMsg option) \<Rightarrow> server \<Rightarrow> bool" where
  "sending_ok decode s \<longleftrightarrow>
     (\<forall>c cn d m. sv_conns s c = Some cn \<longrightarrow> cn_listen cn = Sending (Handler d) m \<longrightarrow>
        d \<noteq> c \<and> (\<exists>t. carries decode m t \<and> brand s c = Some t \<and> brand s d = Some t))"

definition members_ok :: "server \<Rightarrow> bool" where
  "members_ok s \<longleftrightarrow>
     (\<forall>t. \<forall>c \<in> members (sv_state s) t. ct (sv_state s) c \<noteq> None \<and> brand s c = Some t)"

definition table_ok :: "server \<Rightarrow> bool" where
  "table_ok s \<longleftrightarrow>
     (\<forall>c h. ct (sv_state s) c = Some h \<longrightarrow>
        h = Handler c \<and> (\<exists>cn. sv_conns s c = Some cn \<and> cn_recorded cn \<and> \<not> cn_gone cn))"

definition conns_ok :: "(string \<Rightarrow> json WireMsg option) \<Rightarrow> ServerConfig \<Rightarrow> server \<Rightarrow> bool" where
  "conns_ok decode cfg s \<longleftrightarrow>
     (\<forall>c cn. sv_conns s c = Some cn \<longrightarrow> c < sv_next s \<and> conn_ok decode cfg cn)"

definition server_ok :: "(string \<Rightarrow> json WireMsg option) \<Rightarrow> ServerConfig \<Rightarrow> server \<Rightarrow> bool" where
  "server_ok decode cfg s \<longleftrightarrow>
     rooms_ok (sv_state s) \<and> members_ok s \<and> table_ok s \<and> conns_ok decode cfg s
   \<and> sending_ok decode s"

lemmas server_ok_defs = server_ok_def members_ok_def table_ok_def conns_ok_def sending_ok_def

end
