(* ===== verification/Signalling_Safety.thy ===== *)
theory Signalling_Safety
  imports Signalling
begin

text \<open>
  Every step of the signalling server keeps \<open>server_ok\<close>: a connection is in at most the room of
  the tag it is branded with, a room has at most two connections, all of them live, and
  everything a connection is ever sent carries its own tag. Most steps change one connection
  only and are covered by one lemma.
\<close>

section \<open>Changing one connection\<close>

text \<open>The changes that concern no other connection.\<close>

definition local_change :: "connection \<Rightarrow> connection \<Rightarrow> bool" where
  "local_change cn cn' \<longleftrightarrow>
     (rl_tag (cn_limiter cn) \<noteq> None \<longrightarrow> rl_tag (cn_limiter cn') = rl_tag (cn_limiter cn))
   \<and> (cn_recorded cn \<longrightarrow> cn_recorded cn') \<and> cn_gone cn' = cn_gone cn
   \<and> (\<forall>h m. cn_listen cn' = Sending h m \<longrightarrow> cn_listen cn = Sending h m)"

lemma put_conn_simps [simp]:
  "sv_conns (put_conn c cn s) = (sv_conns s)(c := Some cn)"
  "sv_state (put_conn c cn s) = sv_state s"
  "sv_next (put_conn c cn s) = sv_next s"
  "sv_metrics (put_conn c cn s) = sv_metrics s"
  by (simp_all add: put_conn_def)

lemma on_metrics_simps [simp]:
  "sv_conns (on_metrics f s) = sv_conns s" "sv_state (on_metrics f s) = sv_state s"
  "sv_next (on_metrics f s) = sv_next s"
  by (simp_all add: on_metrics_def)

lemma brand_put_conn:
  "brand (put_conn c cn s) k = (if k = c then rl_tag (cn_limiter cn) else brand s k)"
  by (simp add: brand_def)

lemma brand_cong: "sv_conns s' = sv_conns s \<Longrightarrow> brand s' = brand s"
  by (simp add: brand_def fun_eq_iff)

lemma brand_on_metrics [simp]: "brand (on_metrics f s) = brand s"
  by (rule brand_cong) simp

lemma server_ok_metrics [simp]: "server_ok decode cfg (on_metrics f s) = server_ok decode cfg s"
proof -
  have "brand (on_metrics f s) = brand s" by (rule brand_cong) simp
  then show ?thesis by (simp add: server_ok_defs)
qed

lemma brand_mono:
  assumes "sv_conns s c = Some cn" and "local_change cn cn'" and "brand s k = Some t"
  shows "brand (put_conn c cn' s) k = Some t"
proof (cases "k = c")
  case True
  then have "rl_tag (cn_limiter cn) = Some t" using assms(1,3) by (simp add: brand_def)
  then show ?thesis using assms(2) True by (simp add: brand_put_conn local_change_def)
next
  case False
  then show ?thesis using assms(3) by (simp add: brand_put_conn)
qed

lemma sending_okD:
  assumes "server_ok decode cfg s" and "sv_conns s c = Some cn"
    and "cn_listen cn = Sending (Handler d) m"
  obtains t where "d \<noteq> c" "carries decode m t" "brand s c = Some t" "brand s d = Some t"
  using assms unfolding server_ok_def sending_ok_def by metis

lemma local_change_trans: "local_change a b \<Longrightarrow> local_change b c \<Longrightarrow> local_change a c"
  by (auto simp: local_change_def)

lemma put_conn_twice [simp]: "put_conn c a (put_conn c b s) = put_conn c a s"
  by (simp add: put_conn_def)

lemma put_conn_state: "put_conn c cn (s\<lparr>sv_state := st\<rparr>) = (put_conn c cn s)\<lparr>sv_state := st\<rparr>"
  by (simp add: put_conn_def)

lemma server_ok_put:
  assumes ok: "server_ok decode cfg s" and cn: "sv_conns s c = Some cn"
    and lc: "local_change cn cn'" and cn': "conn_ok decode cfg cn'"
  shows "server_ok decode cfg (put_conn c cn' s)"
proof -
  note mono = brand_mono [OF cn lc]
  have "members_ok (put_conn c cn' s)"
    using ok mono by (auto simp: server_ok_def members_ok_def)
  moreover have "table_ok (put_conn c cn' s)"
    using ok cn lc by (fastforce simp: server_ok_def table_ok_def local_change_def)
  moreover have "conns_ok decode cfg (put_conn c cn' s)"
    using ok cn cn' by (auto simp: server_ok_def conns_ok_def)
  moreover have "sending_ok decode (put_conn c cn' s)"
    unfolding sending_ok_def
  proof (intro allI impI)
    fix k kn d m
    assume k: "sv_conns (put_conn c cn' s) k = Some kn" and l: "cn_listen kn = Sending (Handler d) m"
    obtain kn0 where kn0: "sv_conns s k = Some kn0" "cn_listen kn0 = Sending (Handler d) m"
      using k l cn lc by (auto simp: local_change_def split: if_splits)
    obtain t where "d \<noteq> k" "carries decode m t" "brand s k = Some t" "brand s d = Some t"
      using sending_okD [OF ok kn0] .
    then show "d \<noteq> k \<and> (\<exists>t. carries decode m t \<and> brand (put_conn c cn' s) k = Some t
        \<and> brand (put_conn c cn' s) d = Some t)"
      using mono by blast
  qed
  ultimately show ?thesis using ok by (simp add: server_ok_def)
qed

lemma server_ok_conn:
  "server_ok decode cfg s \<Longrightarrow> sv_conns s c = Some cn \<Longrightarrow> conn_ok decode cfg cn"
  by (simp add: server_ok_def conns_ok_def)

text \<open>A step that is \<open>put_conn\<close> of a local change.\<close>

lemma with_conn_put_ok:
  assumes "server_ok decode cfg s"
    and "\<And>cn. enabled cn \<Longrightarrow> conn_ok decode cfg cn \<Longrightarrow>
          local_change cn (f cn) \<and> conn_ok decode cfg (f cn)"
  shows "server_ok decode cfg (with_conn c enabled (\<lambda>cn. put_conn c (f cn)) s)"
  using assms server_ok_conn server_ok_put
  by (fastforce simp: with_conn_def split: option.splits)

lemma with_conn_ok:
  assumes "server_ok decode cfg s"
    and "\<And>cn. sv_conns s c = Some cn \<Longrightarrow> enabled cn \<Longrightarrow> conn_ok decode cfg cn \<Longrightarrow>
          server_ok decode cfg (f cn s)"
  shows "server_ok decode cfg (with_conn c enabled f s)"
  using assms server_ok_conn by (fastforce simp: with_conn_def split: option.splits)

lemma end_listening_ok:
  assumes "conn_ok decode cfg cn"
  shows "local_change cn (end_listening cn) \<and> conn_ok decode cfg (end_listening cn)"
  using assms by (auto simp: local_change_def conn_ok_def end_listening_def split: listen_state.splits)

lemma egress_send_ok:
  "conn_ok decode cfg cn \<Longrightarrow> local_change cn (egress_send b cn) \<and> conn_ok decode cfg (egress_send b cn)"
  by (auto simp: local_change_def conn_ok_def egress_send_def split: list.splits listen_state.splits)

lemma idle_timer_ok:
  "conn_ok decode cfg cn \<Longrightarrow> local_change cn (idle_timer cn) \<and> conn_ok decode cfg (idle_timer cn)"
  by (auto simp: local_change_def conn_ok_def idle_timer_def split: idle_state.splits listen_state.splits)

lemma flag_change_ok:
  assumes "conn_ok decode cfg cn"
  shows "local_change cn (cn\<lparr>cn_egress := x\<rparr>) \<and> conn_ok decode cfg (cn\<lparr>cn_egress := x\<rparr>)"
    and "local_change cn (cn\<lparr>cn_idle := y\<rparr>) \<and> conn_ok decode cfg (cn\<lparr>cn_idle := y\<rparr>)"
  using assms by (auto simp: local_change_def conn_ok_def split: listen_state.splits)

section \<open>The accept loop and the connection table\<close>

lemma accepted_ok:
  assumes ok: "server_ok decode cfg s"
  shows "server_ok decode cfg (server_step decode cfg s (Accepted now))"
proof -
  let ?s = "server_step decode cfg s (Accepted now)"
  have fresh: "sv_conns s (sv_next s) = None"
    using ok by (cases "sv_conns s (sv_next s)") (auto simp: server_ok_def conns_ok_def)
  have br: "brand s k = Some t \<Longrightarrow> brand ?s k = Some t" for k t
    using fresh by (auto simp: brand_def)
  have new: "conn_ok decode cfg (new_connection cfg now)"
    by (simp add: conn_ok_def new_connection_def new_limiter_def limiter_ok_def)
  have "conns_ok decode cfg ?s"
    unfolding conns_ok_def
  proof (intro allI impI)
    fix c cn
    assume c: "sv_conns ?s c = Some cn"
    show "c < sv_next ?s \<and> conn_ok decode cfg cn"
    proof (cases "c = sv_next s")
      case True
      then show ?thesis using c new by simp
    next
      case False
      then have "c < sv_next s \<and> conn_ok decode cfg cn"
        using c ok by (simp add: server_ok_def conns_ok_def)
      then show ?thesis by simp
    qed
  qed
  moreover have "members_ok ?s" using ok br by (auto simp: server_ok_def members_ok_def)
  moreover have "table_ok ?s" using ok fresh by (fastforce simp: server_ok_def table_ok_def)
  moreover have "sending_ok decode ?s"
    unfolding sending_ok_def
  proof (intro allI impI)
    fix k kn d m
    assume "sv_conns ?s k = Some kn" and "cn_listen kn = Sending (Handler d) m"
    then have kn: "sv_conns s k = Some kn" "cn_listen kn = Sending (Handler d) m"
      by (auto simp: new_connection_def split: if_splits)
    obtain t where "d \<noteq> k" "carries decode m t" "brand s k = Some t" "brand s d = Some t"
      using sending_okD [OF ok kn] .
    then show "d \<noteq> k \<and> (\<exists>t. carries decode m t \<and> brand ?s k = Some t \<and> brand ?s d = Some t)"
      using br by blast
  qed
  ultimately show ?thesis using ok by (simp add: server_ok_def)
qed

lemma recorded_ok:
  assumes ok: "server_ok decode cfg s" and cn: "sv_conns s c = Some cn" and "\<not> cn_recorded cn"
  shows "server_ok decode cfg ((put_conn c (cn\<lparr>cn_recorded := True\<rparr>) s)
          \<lparr>sv_state := record_connection c (Handler c) (sv_state s)\<rparr>)"
proof -
  let ?p = "put_conn c (cn\<lparr>cn_recorded := True\<rparr>) s"
  let ?s = "?p\<lparr>sv_state := record_connection c (Handler c) (sv_state s)\<rparr>"
  have cok: "conn_ok decode cfg cn" using ok cn by (rule server_ok_conn)
  have p: "server_ok decode cfg ?p"
    using ok cn by (rule server_ok_put) (use cok in \<open>auto simp: local_change_def conn_ok_def\<close>)
  have br: "brand ?s = brand ?p" by (rule brand_cong) simp
  have ng: "\<not> cn_gone cn" using cok assms(3) by (simp add: conn_ok_def)
  have "h = Handler k \<and> (\<exists>kn. sv_conns ?s k = Some kn \<and> cn_recorded kn \<and> \<not> cn_gone kn)"
    if "ct (sv_state ?s) k = Some h" for k h
  proof (cases "k = c")
    case True
    then show ?thesis using that ng by (simp add: record_connection_def)
  next
    case False
    then have "ct (sv_state s) k = Some h" using that by (simp add: record_connection_def)
    then show ?thesis using ok False by (simp add: server_ok_def table_ok_def)
  qed
  then have "table_ok ?s" by (simp add: table_ok_def)
  moreover have "members_ok ?s"
    using p br by (auto simp: server_ok_def members_ok_def record_connection_def members_def)
  ultimately show ?thesis
    using p br by (simp add: server_ok_def conns_ok_def sending_ok_def)
qed

section \<open>Receiving a frame\<close>

lemma server_ok_state:
  assumes "server_ok decode cfg s" and "rooms_ok st" and "ct st = ct (sv_state s)"
    and "\<And>t. members st t \<subseteq> members (sv_state s) t
             \<union> {c. ct (sv_state s) c \<noteq> None \<and> brand s c = Some t}"
  shows "server_ok decode cfg (s\<lparr>sv_state := st\<rparr>)"
proof -
  have br: "brand (s\<lparr>sv_state := st\<rparr>) = brand s" by (rule brand_cong) simp
  have "members_ok (s\<lparr>sv_state := st\<rparr>)"
    using assms(1,3,4) br unfolding server_ok_def members_ok_def by fastforce
  then show ?thesis
    using assms br by (simp add: server_ok_def table_ok_def conns_ok_def sending_ok_def)
qed

text \<open>What the limiter may do in one frame.\<close>

definition limiter_step :: "MsgRateLimiter \<Rightarrow> MsgRateLimiter \<Rightarrow> bool" where
  "limiter_step l l' \<longleftrightarrow>
     (limiter_ok l \<longrightarrow> limiter_ok l') \<and> (rl_tag l \<noteq> None \<longrightarrow> rl_tag l' = rl_tag l)
   \<and> max_messages_per_connection l' = max_messages_per_connection l
   \<and> total_message_count l \<le> total_message_count l'"

lemma limiter_steps:
  "rate_limit_by_time now l = (r1, l1) \<Longrightarrow> limiter_step l l1"
  "limit_messages l = (r2, l2) \<Longrightarrow> limiter_step l l2"
  "try_brand_rtt_tag tag l = (r3, l3) \<Longrightarrow> limiter_step l l3"
  by (auto simp: limiter_step_def rate_limit_by_time_frame limit_messages_frame try_brand_frame
      dest: rate_limit_by_time_frame limit_messages_frame try_brand_frame)

lemma limiter_step_trans: "limiter_step a b \<Longrightarrow> limiter_step b c \<Longrightarrow> limiter_step a c"
  by (auto simp: limiter_step_def)

text \<open>The shapes of what \<open>process\<close> returns.\<close>

lemma process_cases:
  assumes "process decode now c cn msg s = (r, cn', s')"
  obtains (skipped) l f where "limiter_step (cn_limiter cn) l" "cn' = cn\<lparr>cn_limiter := l\<rparr>"
      "s' = on_metrics f s" "\<forall>h. r \<noteq> Inr (Some h)"
    | (rebranded) l f e where "limiter_step (cn_limiter cn) l"
      "cn' = cn\<lparr>cn_limiter := l, cn_cancelled := True\<rparr>" "s' = on_metrics f s" "r = Inl e"
    | (routed) l f p x st where "limiter_step (cn_limiter cn) l" "parse_incoming decode msg = Inr p"
      "rl_tag l = Some (pm_rtt_tag p)" "total_message_count l = total_message_count (cn_limiter cn) + 1"
      "cn' = cn\<lparr>cn_limiter := l, cn_incoming := cn_incoming cn + 1\<rparr>"
      "record_rtr_and_get_forwarding_queue (pm_rtt_tag p) c (pm_has_payload p) (sv_state s) = (x, st)"
      "s' = (on_metrics f s)\<lparr>sv_state := st\<rparr>"
      "r = (case x of Inl e \<Rightarrow> Inr None | Inr h \<Rightarrow> Inr (Some h))"
proof -
  obtain r1 l1 where 1: "rate_limit_by_time now (cn_limiter cn) = (r1, l1)" by fastforce
  obtain r2 l2 where 2: "limit_messages l1 = (r2, l2)" by fastforce
  have s12: "limiter_step (cn_limiter cn) l1" "limiter_step (cn_limiter cn) l2"
    using limiter_steps(1) [OF 1] limiter_steps(2) [OF 2] limiter_step_trans by blast+
  have twice: "on_metrics f (on_metrics g s) = on_metrics (f \<circ> g) s" for f g
    by (simp add: on_metrics_def)
  show thesis
  proof (cases "\<exists>e. r1 = Inl e \<or> r2 = Inl e \<or> parse_incoming decode msg = Inl e")
    case True
    then show thesis
      using assms 1 2 s12 skipped [OF s12(1)] skipped [OF s12(2)]
      by (auto simp: process_def Let_def twice split: sum.splits)
  next
    case False
    then obtain p where ok: "r1 = Inr ()" "r2 = Inr ()" and p: "parse_incoming decode msg = Inr p"
      by (cases r1; cases r2; cases "parse_incoming decode msg") auto
    obtain r3 l3 where 3: "try_brand_rtt_tag (pm_rtt_tag p) l2 = (r3, l3)" by fastforce
    have s3: "limiter_step (cn_limiter cn) l3"
      using s12(2) limiter_steps(3) [OF 3] limiter_step_trans by blast
    obtain x st where x: "record_rtr_and_get_forwarding_queue (pm_rtt_tag p) c
        (pm_has_payload p) (sv_state s) = (x, st)" by fastforce
    show thesis
    proof (cases r3)
      case (Inl e)
      then show thesis using assms 1 2 3 ok p rebranded [OF s3]
        by (auto simp: process_def Let_def twice)
    next
      case (Inr u)
      have t: "total_message_count l3 = total_message_count (cn_limiter cn) + 1"
        using rate_limit_by_time_frame(3) [OF 1] limit_messages_frame(4) [OF 2]
          try_brand_frame(5) [OF 3] ok by simp
      have b: "rl_tag l3 = Some (pm_rtt_tag p)" using try_brand_frame(2) [OF 3] Inr by simp
      have "cn' = cn\<lparr>cn_limiter := l3, cn_incoming := cn_incoming cn + 1\<rparr>
          \<and> s' = (on_metrics record_incoming_msg s)\<lparr>sv_state := st\<rparr>
          \<and> r = (case x of Inl e \<Rightarrow> Inr None | Inr h \<Rightarrow> Inr (Some h))"
        using assms 1 2 3 ok p x Inr by (auto simp: process_def Let_def split: sum.splits)
      then show thesis using routed [OF s3 p b t _ x] by blast
    qed
  qed
qed

lemma limiter_change_ok:
  assumes "conn_ok decode cfg cn" and "limiter_step (cn_limiter cn) l"
  shows "local_change cn (cn\<lparr>cn_limiter := l, cn_cancelled := b\<rparr>)
      \<and> conn_ok decode cfg (cn\<lparr>cn_limiter := l, cn_cancelled := b\<rparr>)"
    and "cn_listen cn \<noteq> ListenDone \<Longrightarrow> total_message_count l = total_message_count (cn_limiter cn) + 1 \<Longrightarrow>
      local_change cn (cn\<lparr>cn_limiter := l, cn_incoming := cn_incoming cn + 1\<rparr>)
      \<and> conn_ok decode cfg (cn\<lparr>cn_limiter := l, cn_incoming := cn_incoming cn + 1\<rparr>)"
  using assms unfolding local_change_def conn_ok_def limiter_step_def
  by (auto split: listen_state.splits)

lemma server_ok_sending:
  assumes ok: "server_ok decode cfg s" and cn: "sv_conns s c = Some cn"
    and l: "cn_listen cn = Listening" and room: "cn_forwarded cn < cn_incoming cn"
    and m: "d \<noteq> c" "carries decode m t" "brand s c = Some t" "brand s d = Some t"
  shows "server_ok decode cfg (put_conn c (cn\<lparr>cn_listen := Sending (Handler d) m\<rparr>) s)"
proof -
  let ?cn = "cn\<lparr>cn_listen := Sending (Handler d) m\<rparr>"
  let ?s = "put_conn c ?cn s"
  have br: "brand ?s = brand s" using cn by (auto simp: brand_def fun_eq_iff)
  have "conn_ok decode cfg ?cn"
    using server_ok_conn [OF ok cn] l room by (simp add: conn_ok_def)
  then have "conns_ok decode cfg ?s" using ok cn by (auto simp: server_ok_def conns_ok_def)
  moreover have "table_ok ?s" using ok cn by (fastforce simp: server_ok_def table_ok_def)
  moreover have "sending_ok decode ?s"
    unfolding sending_ok_def br
  proof (intro allI impI)
    fix k kn e n
    assume k: "sv_conns ?s k = Some kn" "cn_listen kn = Sending (Handler e) n"
    show "e \<noteq> k \<and> (\<exists>t. carries decode n t \<and> brand s k = Some t \<and> brand s e = Some t)"
    proof (cases "k = c")
      case True
      then show ?thesis using k m by auto
    next
      case False
      then show ?thesis using k sending_okD [OF ok, of k kn e n] by auto
    qed
  qed
  ultimately show ?thesis using ok br by (simp add: server_ok_def members_ok_def)
qed

lemma receive_ok:
  assumes ok: "server_ok decode cfg s" and cn: "sv_conns s c = Some cn"
    and l: "cn_listen cn = Listening"
  shows "server_ok decode cfg (receive decode now c cn msg s)"
proof (cases "is_close msg")
  case True
  then show ?thesis
    using server_ok_put [OF ok cn] end_listening_ok [OF server_ok_conn [OF ok cn]]
    by (simp add: receive_def)
next
  case False
  obtain r cn' s' where p: "process decode now c cn msg s = (r, cn', s')" by (metis prod_cases3)
  have cok: "conn_ok decode cfg cn" using ok cn by (rule server_ok_conn)
  have put: "server_ok decode cfg (put_conn c cn2 (on_metrics f s))"
    if "local_change cn cn2" "conn_ok decode cfg cn2" for cn2 f
    by (rule server_ok_put [where cn = cn]) (use ok cn that in simp_all)
  have put_end: "server_ok decode cfg (put_conn c (end_listening cn2) (on_metrics f s))"
    if "local_change cn cn2 \<and> conn_ok decode cfg cn2" for cn2 f
    using that end_listening_ok [of decode cfg cn2] local_change_trans put by blast
  from p show ?thesis
  proof (cases rule: process_cases)
    case (skipped l f)
    have "local_change cn cn' \<and> conn_ok decode cfg cn'"
      using limiter_change_ok(1) [OF cok skipped(1), of "cn_cancelled cn"] skipped(2) by simp
    then show ?thesis
      using p False skipped(3,4) put put_end
      by (cases r) (auto simp: receive_def split: option.splits)
  next
    case (rebranded l f e)
    have "local_change cn cn' \<and> conn_ok decode cfg cn'"
      using limiter_change_ok(1) [OF cok rebranded(1), of True] rebranded(2) by simp
    then show ?thesis using p False rebranded(3,4) put_end by (simp add: receive_def)
  next
    case (routed l2 f q x st)
    have lc: "local_change cn cn' \<and> conn_ok decode cfg cn'"
      using limiter_change_ok(2) [OF cok routed(1)] l routed(4,5) by simp
    let ?p = "put_conn c cn' (on_metrics f s)"
    have pok: "server_ok decode cfg ?p" using put lc by blast
    have brc: "brand ?p c = Some (pm_rtt_tag q)" using routed(3,5) by (simp add: brand_put_conn)
    have rooms: "rooms_ok (sv_state s)" using ok by (simp add: server_ok_def)
    note route = route_state [OF routed(6) rooms]
    have more: "members st t \<subseteq> members (sv_state ?p) t
        \<union> {k. ct (sv_state ?p) k \<noteq> None \<and> brand ?p k = Some t}" for t
      using route(3) [of t] brc by (cases "t = pm_rtt_tag q \<and> ct (sv_state s) c \<noteq> None") auto
    have sok: "server_ok decode cfg (?p\<lparr>sv_state := st\<rparr>)"
      by (rule server_ok_state [OF pok]) (use route(1,2) more in simp_all)
    show ?thesis
    proof (cases x)
      case (Inl e)
      then show ?thesis using p False routed(7,8) sok by (simp add: receive_def put_conn_state)
    next
      case (Inr h)
      obtain d where d: "d \<noteq> c" "d \<in> members (sv_state s) (pm_rtt_tag q)" "ct (sv_state s) d = Some h"
        and pl: "pm_has_payload q"
        using route_Inr [OF routed(6) [unfolded Inr]] by blast
      have h: "h = Handler d" using ok d(3) by (simp add: server_ok_def table_ok_def)
      have brd: "brand ?p d = Some (pm_rtt_tag q)"
        using ok d by (simp add: brand_put_conn server_ok_def members_ok_def)
      have "carries decode msg (pm_rtt_tag q)"
        using routed(2) pl by (cases q) (simp add: carries_def)
      moreover have "brand (?p\<lparr>sv_state := st\<rparr>) = brand ?p" by (rule brand_cong) simp
      moreover have "cn_forwarded cn' < cn_incoming cn'"
        using cok l routed(5) by (simp add: conn_ok_def)
      moreover have "cn_listen cn' = Listening" using l routed(5) by simp
      ultimately have "server_ok decode cfg
          (put_conn c (cn'\<lparr>cn_listen := Sending h msg\<rparr>) (?p\<lparr>sv_state := st\<rparr>))"
        using server_ok_sending [OF sok, of c cn' d msg "pm_rtt_tag q"] d(1) h brc brd by simp
      then show ?thesis
        using p False routed(7,8) Inr by (simp add: receive_def put_conn_state)
    qed
  qed
qed

lemma forward_ok:
  assumes ok: "server_ok decode cfg s" and cn: "sv_conns s c = Some cn"
    and l: "cn_listen cn = Sending (Handler d) msg"
  shows "server_ok decode cfg (forward cfg c cn d msg s)"
proof -
  have cok: "conn_ok decode cfg cn" using ok cn by (rule server_ok_conn)
  have fail: "server_ok decode cfg (put_conn c (end_listening cn) s)"
    using server_ok_put [OF ok cn] end_listening_ok [OF cok] by blast
  obtain t where t: "d \<noteq> c" "carries decode msg t" "brand s c = Some t" "brand s d = Some t"
    using sending_okD [OF ok cn l] .
  then obtain dn where dn: "sv_conns s d = Some dn" by (auto simp: brand_def split: option.splits)
  show ?thesis
  proof (cases "cn_egress dn = EgressDone \<or> length (cn_queue dn) \<ge> send_buffer_limit cfg")
    case True
    then show ?thesis using fail dn by (simp add: forward_def)
  next
    case False
    let ?dn = "dn\<lparr>cn_queue := cn_queue dn @ [msg]\<rparr>"
    let ?cn = "cn\<lparr>cn_listen := Listening, cn_forwarded := cn_forwarded cn + 1\<rparr>"
    have "local_change dn ?dn \<and> conn_ok decode cfg ?dn"
      using server_ok_conn [OF ok dn] False t(2,4) dn
      by (auto simp: local_change_def conn_ok_def brand_def split: listen_state.splits)
    then have "server_ok decode cfg (put_conn d ?dn s)" using server_ok_put [OF ok dn] by blast
    moreover have "sv_conns (put_conn d ?dn s) c = Some cn" using cn t(1) by simp
    moreover have "local_change cn ?cn \<and> conn_ok decode cfg ?cn"
      using cok l by (auto simp: local_change_def conn_ok_def)
    ultimately have "server_ok decode cfg (put_conn c ?cn (put_conn d ?dn s))"
      using server_ok_put by blast
    then show ?thesis using False dn by (simp add: forward_def)
  qed
qed

section \<open>Clean-up, and every step\<close>

text \<open>The tables without a connection and the tag it is branded with.\<close>

definition forget :: "ConnectionId \<Rightarrow> server \<Rightarrow> server" where
  "forget c s = s\<lparr>sv_state := remove_records_for c (brand s c) (sv_state s)\<rparr>"

lemma forget_members:
  assumes "members_ok s"
  shows "members (sv_state (forget c s)) t = members (sv_state s) t - {c}"
proof (cases "c \<in> members (sv_state s) t")
  case True
  then have "brand s c = Some t" using assms by (simp add: members_ok_def)
  then show ?thesis by (simp add: forget_def remove_members)
next
  case False
  then show ?thesis by (auto simp: forget_def remove_members)
qed

lemma forget_brand [simp]: "brand (forget c s) = brand s"
  by (rule brand_cong) (simp add: forget_def)

lemma forget_ok:
  assumes ok: "server_ok decode cfg s"
  shows "server_ok decode cfg (forget c s)"
proof -
  have m: "members_ok s" using ok by (simp add: server_ok_def)
  have "members_ok (forget c s)"
    unfolding members_ok_def forget_members [OF m] forget_brand
    using m by (auto simp: members_ok_def forget_def)
  moreover have "table_ok (forget c s)"
    using ok by (simp add: server_ok_def table_ok_def forget_def)
  moreover have "rooms_ok (sv_state (forget c s))"
    using ok by (simp add: server_ok_def forget_def remove_rooms)
  moreover have "conns_ok decode cfg (forget c s)"
    using ok by (simp add: server_ok_def conns_ok_def forget_def)
  moreover have "sending_ok decode (forget c s)"
    using ok unfolding server_ok_def sending_ok_def forget_brand by (simp add: forget_def)
  ultimately show ?thesis by (simp add: server_ok_def)
qed

lemma cleanup_ok:
  assumes ok: "server_ok decode cfg s" and cn: "sv_conns s c = Some cn"
    and fin: "cn_recorded cn" "cn_listen cn = ListenDone"
  shows "server_ok decode cfg (cleanup c cn s)"
proof -
  let ?cn = "cn\<lparr>cn_cancelled := True, cn_gone := True\<rparr>"
  let ?f = "forget c s"
  have f: "server_ok decode cfg ?f" using ok by (rule forget_ok)
  have eq: "cleanup c cn s = put_conn c ?cn ?f"
    using cn by (simp add: cleanup_def forget_def brand_def put_conn_def)
  have cnf: "sv_conns ?f c = Some cn" using cn by (simp add: forget_def)
  have br: "brand (put_conn c ?cn ?f) = brand ?f"
    using cnf brand_def [of ?f] by (auto simp: brand_put_conn fun_eq_iff simp del: forget_brand)
  have no_c: "ct (sv_state ?f) c = None" by (simp add: forget_def)
  have "conn_ok decode cfg ?cn"
    using server_ok_conn [OF ok cn] fin by (simp add: conn_ok_def)
  then have "conns_ok decode cfg (put_conn c ?cn ?f)"
    using f cnf by (auto simp: server_ok_def conns_ok_def)
  moreover have "members_ok (put_conn c ?cn ?f)"
    using f br by (simp add: server_ok_def members_ok_def)
  moreover have "table_ok (put_conn c ?cn ?f)"
    using f no_c by (auto simp: server_ok_def table_ok_def)
  moreover have "sending_ok decode (put_conn c ?cn ?f)"
    unfolding sending_ok_def br
  proof (intro allI impI)
    fix k kn d m
    assume "sv_conns (put_conn c ?cn ?f) k = Some kn" "cn_listen kn = Sending (Handler d) m"
    then have kn: "sv_conns ?f k = Some kn" "cn_listen kn = Sending (Handler d) m"
      using fin by (auto split: if_splits)
    obtain t where "d \<noteq> k" "carries decode m t" "brand ?f k = Some t" "brand ?f d = Some t"
      using sending_okD [OF f kn] .
    then show "d \<noteq> k \<and> (\<exists>t. carries decode m t \<and> brand ?f k = Some t \<and> brand ?f d = Some t)"
      by blast
  qed
  ultimately show ?thesis using f unfolding eq by (simp add: server_ok_def)
qed

lemma server_step_ok:
  assumes ok: "server_ok decode cfg s"
  shows "server_ok decode cfg (server_step decode cfg s ev)"
proof (cases ev)
  case (Accepted now)
  then show ?thesis using accepted_ok [OF ok] by simp
next
  case HandshakeFailed
  have "brand (s\<lparr>sv_next := sv_next s + 1\<rparr>) = brand s" by (rule brand_cong) simp
  then show ?thesis using ok HandshakeFailed
    by (simp add: server_ok_defs less_SucI)
next
  case (Recorded c)
  show ?thesis unfolding Recorded server_step.simps
    by (rule with_conn_ok [OF ok]) (rule recorded_ok [OF ok])
next
  case (Incoming c now msg)
  show ?thesis unfolding Incoming server_step.simps
    by (rule with_conn_ok [OF ok]) (rule receive_ok [OF ok])
next
  case (ForwardStep c)
  show ?thesis unfolding ForwardStep server_step.simps
    by (rule with_conn_ok [OF ok])
       (auto simp: ok forward_ok [OF ok] split: listen_state.splits ConnectionHandler.splits)
next
  case (ReadEnd c)
  show ?thesis unfolding ReadEnd server_step.simps
    by (rule with_conn_put_ok [OF ok]) (rule end_listening_ok)
next
  case (ListenCancelled c)
  show ?thesis unfolding ListenCancelled server_step.simps
    by (rule with_conn_put_ok [OF ok]) (rule end_listening_ok)
next
  case (EgressSend c sent)
  show ?thesis unfolding EgressSend server_step.simps
    by (rule with_conn_put_ok [OF ok]) (rule egress_send_ok)
next
  case (EgressCancelled c)
  show ?thesis unfolding EgressCancelled server_step.simps
    by (rule with_conn_put_ok [OF ok]) (rule flag_change_ok)
next
  case (EgressClosed c)
  show ?thesis unfolding EgressClosed server_step.simps
    by (rule with_conn_put_ok [OF ok]) (rule flag_change_ok)
next
  case (IdleTimer c)
  show ?thesis unfolding IdleTimer server_step.simps
    by (rule with_conn_put_ok [OF ok]) (rule idle_timer_ok)
next
  case (IdleCancelled c)
  show ?thesis unfolding IdleCancelled server_step.simps
    by (rule with_conn_put_ok [OF ok]) (rule flag_change_ok)
next
  case (Cleanup c)
  show ?thesis unfolding Cleanup server_step.simps
    by (rule with_conn_ok [OF ok]) (rule cleanup_ok [OF ok]; simp)
qed

lemma empty_server_ok: "server_ok decode cfg empty_server"
  by (simp add: server_ok_defs empty_server_def empty_state_def rooms_ok_def members_def)

interpretation signalling: step_system "server_step decode cfg" "server_ok decode cfg"
  for decode cfg
  by unfold_locales (rule server_step_ok)

interpretation rooms: owned_registry
  "\<lambda>s. members (sv_state s)" "\<lambda>s c. set_option (brand s c)" "server_ok decode cfg" forget
  for decode cfg
proof unfold_locales
  fix s c n
  assume ok: "server_ok decode cfg s"
  show "c \<in> members (sv_state s) n \<Longrightarrow> n \<in> set_option (brand s c)"
    using ok by (simp add: server_ok_def members_ok_def)
  show "members (sv_state (forget c s)) n = members (sv_state s) n - {c}"
    using ok by (intro forget_members) (simp add: server_ok_def)
  show "server_ok decode cfg (forget c s)" using ok by (rule forget_ok)
qed

text \<open>Every state the server reaches.\<close>

definition server_run ::
  "(string \<Rightarrow> json WireMsg option) \<Rightarrow> ServerConfig \<Rightarrow> event list \<Rightarrow> server" where
  "server_run decode cfg evs = foldl (server_step decode cfg) empty_server evs"

lemma server_run_ok: "server_ok decode cfg (server_run decode cfg evs)"
  unfolding server_run_def by (rule signalling.run_inv) (rule empty_server_ok)

end
