(* ===== verification/Legacy_Server.thy ===== *)
theory Legacy_Server
  imports Schema Wire
begin

text \<open>
  The first signalling server, \<^verbatim>\<open>signalling-server/src/wsserver.rs\<close>: addresses a connection
  registers by sending from them, and frames forwarded by destination address. One step is one
  iteration of a receive loop (which holds the lock), an opening, the end of a send task, or
  the clean-up of a connection.
\<close>

named_theorems legacy_defs "definitions of the first signalling server"

section \<open>State\<close>

definition ROUTE_LIMIT :: nat where "ROUTE_LIMIT = 2"

record SSMsg =
  ss_src :: string
  ss_dst :: string

text \<open>
  \<open>ci_out\<close> is what has been put into the connection's unbounded channel; \<open>ci_sending\<close> says that
  the task that drains it still runs (the channel is closed once it does not).
\<close>

record ConnectionInfo =
  ci_out :: "Message list"
  ci_sending :: bool
  ci_local_addrs :: "string list"

record SharedState =
  sh_connections :: "ConnectionId \<Rightarrow> ConnectionInfo option"
  sh_r_table :: "string \<Rightarrow> ConnectionId option"
  sh_next :: ConnectionId

definition new_shared_state :: SharedState where
  "new_shared_state = \<lparr>sh_connections = (\<lambda>_. None), sh_r_table = (\<lambda>_. None), sh_next = 0\<rparr>"

section \<open>One frame\<close>

text \<open>\<open>render\<close> is \<^verbatim>\<open>serde_json::to_string\<close>.\<close>

definition error_msg :: "(json \<Rightarrow> string) \<Rightarrow> string \<Rightarrow> Message" where [legacy_defs]:
  "error_msg render m = Text (render (JObj [(''src'', JStr ''error''), (''msg'', JStr m)]))"

text \<open>\<^verbatim>\<open>tx.send\<close>: whether it succeeded, and the state after it.\<close>

definition tx_send :: "ConnectionId \<Rightarrow> Message \<Rightarrow> SharedState \<Rightarrow> bool \<times> SharedState" where [legacy_defs]:
  "tx_send c m s =
     (case sh_connections s c of
        None \<Rightarrow> (False, s)
      | Some ci \<Rightarrow>
          if ci_sending ci
          then (True, s\<lparr>sh_connections := (sh_connections s)(c := Some (ci\<lparr>ci_out := ci_out ci @ [m]\<rparr>))\<rparr>)
          else (False, s))"

definition reply_error ::
  "(json \<Rightarrow> string) \<Rightarrow> ConnectionId \<Rightarrow> string \<Rightarrow> SharedState \<Rightarrow> SharedState" where [legacy_defs]:
  "reply_error render c m s = snd (tx_send c (error_msg render m) s)"

definition frame_text :: "Message \<Rightarrow> string option" where
  "frame_text raw =
     (case raw of Text t \<Rightarrow> Some t | Binary b \<Rightarrow> from_utf8 b | _ \<Rightarrow> None)"

definition register_route :: "ConnectionId \<Rightarrow> string \<Rightarrow> SharedState \<Rightarrow> SharedState" where [legacy_defs]:
  "register_route c a s =
     (let s1 = s\<lparr>sh_r_table := (sh_r_table s)(a := Some c)\<rparr> in
      case sh_connections s1 c of
        None \<Rightarrow> s1
      | Some ci \<Rightarrow>
          s1\<lparr>sh_connections := (sh_connections s1)
                (c := Some (ci\<lparr>ci_local_addrs := ci_local_addrs ci @ [a]\<rparr>))\<rparr>)"

definition forward_frame ::
  "(json \<Rightarrow> string) \<Rightarrow> ConnectionId \<Rightarrow> string \<Rightarrow> Message \<Rightarrow> SharedState \<Rightarrow> SharedState"
  where [legacy_defs]:
  "forward_frame render c dst raw s =
     (case sh_r_table s dst of
        None \<Rightarrow> reply_error render c ''Failed to find connection for destination'' s
      | Some d \<Rightarrow>
          if sh_connections s d = None
          then reply_error render c ''Failed to find connection for destination'' s
          else
            (case tx_send d raw s of
               (True, s') \<Rightarrow> s'
             | (False, s') \<Rightarrow> reply_error render c ''Failed to forward message'' s'))"

text \<open>\<open>decode\<close> is \<^verbatim>\<open>serde_json::from_str\<close> at \<^verbatim>\<open>SSMsg\<close>.\<close>

definition handle_frame ::
  "(json \<Rightarrow> string) \<Rightarrow> (string \<Rightarrow> SSMsg option) \<Rightarrow> ConnectionId \<Rightarrow> Message \<Rightarrow> SharedState \<Rightarrow> SharedState"
  where [legacy_defs]:
  "handle_frame render decode c raw s =
     (case frame_text raw of
        None \<Rightarrow> s
      | Some text \<Rightarrow>
          (case decode text of
             None \<Rightarrow> s
           | Some data \<Rightarrow>
               if (case sh_r_table s (ss_src data) of Some e \<Rightarrow> e \<noteq> c | None \<Rightarrow> False)
               then reply_error render c ''Source already registered from a different connection'' s
               else if ss_dst data \<noteq> ss_src data \<and> sh_r_table s (ss_dst data) = None
               then reply_error render c ''Destination not found'' s
               else if (case sh_connections s c of
                          Some ci \<Rightarrow> length (ci_local_addrs ci) | None \<Rightarrow> 0) > ROUTE_LIMIT
               then reply_error render c ''too many refs, reset server registration'' s
               else
                 (let s1 = register_route c (ss_src data) s in
                  if ss_dst data = ss_src data then s1
                  else forward_frame render c (ss_dst data) raw s1)))"

section \<open>Steps\<close>

definition open_connection :: "SharedState \<Rightarrow> SharedState" where [legacy_defs]:
  "open_connection s =
     s\<lparr>sh_connections := (sh_connections s)
          (sh_next s := Some \<lparr>ci_out = [], ci_sending = True, ci_local_addrs = []\<rparr>),
       sh_next := sh_next s + 1\<rparr>"

definition close_connection :: "ConnectionId \<Rightarrow> SharedState \<Rightarrow> SharedState" where [legacy_defs]:
  "close_connection c s =
     (case sh_connections s c of
        None \<Rightarrow> s
      | Some ci \<Rightarrow>
          s\<lparr>sh_connections := (sh_connections s)(c := None),
            sh_r_table := fold (\<lambda>a t. t(a := None)) (ci_local_addrs ci) (sh_r_table s)\<rparr>)"

datatype legacy_event =
    Opened
  | Frame ConnectionId Message
  | SendTaskEnded ConnectionId
  | Closed ConnectionId

fun legacy_step ::
  "(json \<Rightarrow> string) \<Rightarrow> (string \<Rightarrow> SSMsg option) \<Rightarrow> SharedState \<Rightarrow> legacy_event \<Rightarrow> SharedState" where
  "legacy_step render decode s Opened = open_connection s"
| "legacy_step render decode s (Frame c raw) =
     (if sh_connections s c = None then s else handle_frame render decode c raw s)"
| "legacy_step render decode s (SendTaskEnded c) =
     (case sh_connections s c of
        None \<Rightarrow> s
      | Some ci \<Rightarrow> s\<lparr>sh_connections := (sh_connections s)(c := Some (ci\<lparr>ci_sending := False\<rparr>))\<rparr>)"
| "legacy_step render decode s (Closed c) = close_connection c s"

section \<open>The invariant\<close>

definition addrs_of :: "SharedState \<Rightarrow> ConnectionId \<Rightarrow> string list" where
  "addrs_of s c = (case sh_connections s c of Some ci \<Rightarrow> ci_local_addrs ci | None \<Rightarrow> [])"

text \<open>A route is one of the addresses of the live connection it leads to, and conversely.\<close>

definition legacy_ok :: "SharedState \<Rightarrow> bool" where
  "legacy_ok s \<longleftrightarrow>
     (\<forall>a c. sh_r_table s a = Some c \<longleftrightarrow> a \<in> set (addrs_of s c))
   \<and> (\<forall>c. length (addrs_of s c) \<le> ROUTE_LIMIT + 1)
   \<and> (\<forall>c. sh_connections s c \<noteq> None \<longrightarrow> c < sh_next s)"

lemma legacy_ok_new: "legacy_ok new_shared_state"
  by (simp add: legacy_ok_def new_shared_state_def addrs_of_def)

lemma tx_send_frame [simp]:
  "sh_r_table (snd (tx_send c m s)) = sh_r_table s"
  "addrs_of (snd (tx_send c m s)) = addrs_of s"
  "sh_next (snd (tx_send c m s)) = sh_next s"
  "sh_connections (snd (tx_send c m s)) k = None \<longleftrightarrow> sh_connections s k = None"
  by (auto simp: tx_send_def addrs_of_def fun_eq_iff split: option.splits)

lemma legacy_ok_cong:
  "sh_r_table s' = sh_r_table s \<Longrightarrow> addrs_of s' = addrs_of s \<Longrightarrow> sh_next s' = sh_next s \<Longrightarrow>
   (\<And>k. sh_connections s' k = None \<longleftrightarrow> sh_connections s k = None) \<Longrightarrow> legacy_ok s' = legacy_ok s"
  by (simp add: legacy_ok_def)

lemma tx_send_ok [simp]: "legacy_ok (snd (tx_send c m s)) = legacy_ok s"
  by (rule legacy_ok_cong) simp_all

lemma reply_error_ok [simp]: "legacy_ok (reply_error render c m s) = legacy_ok s"
  by (simp add: reply_error_def)

lemma reply_error_frame [simp]:
  "sh_r_table (reply_error render c m s) = sh_r_table s"
  "addrs_of (reply_error render c m s) = addrs_of s"
  by (simp_all add: reply_error_def)

lemma forward_frame_cases:
  obtains m where "forward_frame render c dst raw s = reply_error render c m s"
  | d where "forward_frame render c dst raw s = snd (tx_send d raw s)"
  | d m where "forward_frame render c dst raw s = reply_error render c m (snd (tx_send d raw s))"
proof (cases "sh_r_table s dst")
  case None
  then show thesis using that(1) by (simp add: forward_frame_def)
next
  case (Some d)
  obtain b s' where t: "tx_send d raw s = (b, s')" by fastforce
  show thesis
  proof (cases "sh_connections s d = None")
    case True
    then show thesis using that(1) Some by (simp add: forward_frame_def)
  next
    case False
    then show thesis using that(2) [of d] that(3) [of _ d] Some t
      by (cases b) (auto simp: forward_frame_def)
  qed
qed

lemma forward_frame_frame [simp]:
  "sh_r_table (forward_frame render c dst raw s) = sh_r_table s"
  "addrs_of (forward_frame render c dst raw s) = addrs_of s"
  "legacy_ok (forward_frame render c dst raw s) = legacy_ok s"
  by (rule forward_frame_cases [of render c dst raw s]; simp)+

lemma register_addrs:
  assumes "sh_connections s c \<noteq> None"
  shows "addrs_of (register_route c a s) k = addrs_of s k @ (if k = c then [a] else [])"
  using assms by (auto simp: register_route_def addrs_of_def Let_def)

lemma register_table [simp]: "sh_r_table (register_route c a s) = (sh_r_table s)(a := Some c)"
  by (auto simp: register_route_def Let_def split: option.splits)

lemma register_ok:
  assumes ok: "legacy_ok s" and c: "sh_connections s c \<noteq> None"
    and free: "\<And>e. sh_r_table s a = Some e \<Longrightarrow> e = c"
    and room: "length (addrs_of s c) \<le> ROUTE_LIMIT"
  shows "legacy_ok (register_route c a s)"
proof -
  have "sh_r_table (register_route c a s) b = Some k \<longleftrightarrow> b \<in> set (addrs_of (register_route c a s) k)"
    for b k
    using ok free by (auto simp: register_addrs [OF c] legacy_ok_def)
  moreover have "length (addrs_of (register_route c a s) k) \<le> ROUTE_LIMIT + 1" for k
    using ok room by (simp add: register_addrs [OF c] legacy_ok_def)
  moreover have "sh_next (register_route c a s) = sh_next s"
    and "sh_connections (register_route c a s) k \<noteq> None \<longleftrightarrow> sh_connections s k \<noteq> None" for k
    using c by (auto simp: register_route_def Let_def split: if_splits)
  ultimately show ?thesis using ok by (simp add: legacy_ok_def)
qed

lemma handle_frame_ok:
  assumes "legacy_ok s" and "sh_connections s c \<noteq> None"
  shows "legacy_ok (handle_frame render decode c raw s)"
proof -
  have "legacy_ok (register_route c a s)"
    if "\<not> (case sh_r_table s a of Some e \<Rightarrow> e \<noteq> c | None \<Rightarrow> False)"
      and "\<not> (case sh_connections s c of Some ci \<Rightarrow> length (ci_local_addrs ci) | None \<Rightarrow> 0) > ROUTE_LIMIT"
    for a
    using that assms by (intro register_ok) (auto simp: addrs_of_def split: option.splits)
  then show ?thesis
    using assms by (simp add: handle_frame_def Let_def split: option.splits)
qed

lemma fold_remove: "fold (\<lambda>a t. t(a := None)) as t b = (if b \<in> set as then None else t b)"
  by (induction as arbitrary: t) auto

lemma close_table:
  assumes "legacy_ok s"
  shows "sh_r_table (close_connection c s) a
    = (if sh_r_table s a = Some c then None else sh_r_table s a)"
  using assms
  by (auto simp: close_connection_def fold_remove legacy_ok_def addrs_of_def split: option.splits)

lemma close_addrs: "addrs_of (close_connection c s) k = (if k = c then [] else addrs_of s k)"
  by (auto simp: close_connection_def addrs_of_def split: option.splits)

lemma close_connection_ok:
  assumes "legacy_ok s"
  shows "legacy_ok (close_connection c s)"
proof -
  have "sh_next (close_connection c s) = sh_next s"
    and "sh_connections (close_connection c s) k \<noteq> None \<Longrightarrow> sh_connections s k \<noteq> None" for k
    by (auto simp: close_connection_def split: option.splits if_splits)
  moreover have "sh_r_table (close_connection c s) a = Some k
      \<longleftrightarrow> a \<in> set (addrs_of (close_connection c s) k)" for a k
  proof (cases "sh_r_table s a")
    case None
    then have "a \<notin> set (addrs_of s k)"
      using assms unfolding legacy_ok_def by (metis option.distinct(1))
    then show ?thesis using None by (simp add: close_table [OF assms] close_addrs)
  next
    case (Some e)
    then have "a \<in> set (addrs_of s k) \<longleftrightarrow> k = e"
      using assms unfolding legacy_ok_def by (metis option.inject)
    then show ?thesis using Some by (auto simp: close_table [OF assms] close_addrs)
  qed
  moreover have "length (addrs_of (close_connection c s) k) \<le> ROUTE_LIMIT + 1" for k
    using assms by (simp add: close_addrs legacy_ok_def)
  ultimately show ?thesis using assms by (simp add: legacy_ok_def)
qed

lemma legacy_step_ok: "legacy_ok s \<Longrightarrow> legacy_ok (legacy_step render decode s ev)"
proof (cases ev)
  case Opened
  assume ok: "legacy_ok s"
  have "sh_connections s (sh_next s) = None" using ok by (auto simp: legacy_ok_def)
  then have "addrs_of (open_connection s) = addrs_of s"
    by (auto simp: addrs_of_def open_connection_def fun_eq_iff)
  then show ?thesis using ok Opened by (auto simp: legacy_ok_def open_connection_def less_SucI)
next
  case (SendTaskEnded c)
  assume ok: "legacy_ok s"
  let ?s = "legacy_step render decode s ev"
  have "addrs_of ?s = addrs_of s" "sh_r_table ?s = sh_r_table s" "sh_next ?s = sh_next s"
    and "sh_connections ?s k = None \<longleftrightarrow> sh_connections s k = None" for k
    using SendTaskEnded by (auto simp: addrs_of_def fun_eq_iff split: option.splits)
  then show ?thesis using ok legacy_ok_cong by blast
qed (auto simp: handle_frame_ok close_connection_ok)

interpretation legacy: step_system "legacy_step render decode" legacy_ok for render decode
  by unfold_locales (rule legacy_step_ok)

interpretation routes: owned_registry
  "\<lambda>s a. set_option (sh_r_table s a)" "\<lambda>s c. set (addrs_of s c)" legacy_ok close_connection
proof unfold_locales
  fix s c a
  assume ok: "legacy_ok s"
  show "c \<in> set_option (sh_r_table s a) \<Longrightarrow> a \<in> set (addrs_of s c)"
    using ok by (simp add: legacy_ok_def elem_set)
  show "set_option (sh_r_table (close_connection c s) a) = set_option (sh_r_table s a) - {c}"
    by (auto simp: close_table [OF ok])
  show "legacy_ok (close_connection c s)" using ok by (rule close_connection_ok)
qed

text \<open>In a sound state a destination that passed the first check is found.\<close>

lemma route_live:
  "legacy_ok s \<Longrightarrow> sh_r_table s a = Some d \<Longrightarrow> sh_connections s d \<noteq> None"
  by (auto simp: legacy_ok_def addrs_of_def)
     (metis empty_iff list.set(1) option.case_eq_if)

definition legacy_run ::
  "(json \<Rightarrow> string) \<Rightarrow> (string \<Rightarrow> SSMsg option) \<Rightarrow> legacy_event list \<Rightarrow> SharedState" where
  "legacy_run render decode evs = foldl (legacy_step render decode) new_shared_state evs"

lemma legacy_run_ok: "legacy_ok (legacy_run render decode evs)"
  unfolding legacy_run_def by (rule legacy.run_inv) (rule legacy_ok_new)

end
