(* ===== verification/Transport.thy ===== *)
theory Transport
  imports Wire
begin

text \<open>
  The reliable transport of \<^verbatim>\<open>src-tauri/rtc/ws_node_handler.rs\<close>: sequence numbers of 32 bits, the
  filter of the receiver, acknowledgements, and the sender's retries. The two ends are then put
  on a channel that may lose, repeat and reorder frames.
\<close>

named_theorems transport_defs "definitions of the transport"

section \<open>The sequence filter\<close>

record SnFilter =
  sf_node_id :: "string option"
  sf_last_sn :: "32 word option"

definition new_filter :: SnFilter where
  "new_filter = \<lparr>sf_node_id = None, sf_last_sn = None\<rparr>"

definition sn_next :: "string \<Rightarrow> 32 word \<Rightarrow> SnFilter \<Rightarrow> bool \<times> SnFilter" where [transport_defs]:
  "sn_next node sn f =
     (case sf_last_sn f of
        None \<Rightarrow> (True, \<lparr>sf_node_id = Some node, sf_last_sn = Some sn\<rparr>)
      | Some prev \<Rightarrow>
          if sf_node_id f \<noteq> Some node then (False, f)
          else if sn \<le> prev then (False, f)
          else (True, f\<lparr>sf_last_sn := Some sn\<rparr>))"

fun sn_of :: "'t TransportMsg \<Rightarrow> 32 word" where
  "sn_of (Ack sn node) = sn"
| "sn_of (Normal sn node p) = sn"

section \<open>The receiving end\<close>

text \<open>
  \<open>rx_acks\<close> is the queue of acknowledgements to send (capacity 16), \<open>rx_incoming\<close> that of
  acknowledgements that arrived (capacity 16), \<open>rx_delivered\<close> what the message handler was
  called with. \<^verbatim>\<open>try_send\<close> on a full queue drops the message.
\<close>

definition ack_capacity :: nat where "ack_capacity = 16"

record 't receiver =
  rx_filter :: SnFilter
  rx_acks :: "'t TransportMsg list"
  rx_incoming :: "'t TransportMsg list"
  rx_delivered :: "'t list"

definition new_receiver :: "'t receiver" where
  "new_receiver = \<lparr>rx_filter = new_filter, rx_acks = [], rx_incoming = [], rx_delivered = []\<rparr>"

definition try_push :: "'a \<Rightarrow> 'a list \<Rightarrow> 'a list" where [transport_defs]:
  "try_push x q = (if length q < ack_capacity then q @ [x] else q)"

fun on_transport :: "'t TransportMsg \<Rightarrow> 't receiver \<Rightarrow> 't receiver" where
  "on_transport (Normal sn node p) r =
     (let r1 = r\<lparr>rx_acks := try_push (Ack sn node) (rx_acks r)\<rparr> in
      case sn_next node sn (rx_filter r1) of
        (True, f) \<Rightarrow> r1\<lparr>rx_filter := f, rx_delivered := rx_delivered r1 @ [p]\<rparr>
      | (False, f) \<Rightarrow> r1\<lparr>rx_filter := f\<rparr>)"
| "on_transport (Ack sn node) r = r\<lparr>rx_incoming := try_push (Ack sn node) (rx_incoming r)\<rparr>"

text \<open>The callback of the node: a frame that does not decode is dropped.\<close>

definition ws_node_handle :: "('c \<Rightarrow> string + 't TransportMsg) \<Rightarrow> 'c \<Rightarrow> 't receiver \<Rightarrow> 't receiver"
  where
  "ws_node_handle decoder msg r =
     (case decoder msg of Inl e \<Rightarrow> r | Inr m \<Rightarrow> on_transport m r)"

text \<open>One round of the task that sends the queued acknowledgements.\<close>

definition send_ack :: "('t TransportMsg \<Rightarrow> string + 'c) \<Rightarrow> 't receiver \<Rightarrow> 'c option \<times> 't receiver"
  where
  "send_ack encoder r =
     (case rx_acks r of
        [] \<Rightarrow> (None, r)
      | a # as \<Rightarrow>
          ((case encoder a of Inl e \<Rightarrow> None | Inr wire \<Rightarrow> Some wire), r\<lparr>rx_acks := as\<rparr>))"

section \<open>The sending end\<close>

text \<open>
  \<^verbatim>\<open>send_and_wait_ack\<close> on the acknowledgements that arrive before the timeout: it takes them one
  by one and returns at the first with the expected number; \<open>None\<close> is a timeout.
\<close>

fun wait_ack :: "32 word \<Rightarrow> 't TransportMsg list \<Rightarrow> 't TransportMsg list option" where
  "wait_ack expected [] = None"
| "wait_ack expected (Ack sn node # as) = (if sn = expected then Some as else wait_ack expected as)"
| "wait_ack expected (Normal sn node p # as) = wait_ack expected as"

text \<open>
  The attempts of \<^verbatim>\<open>send_and_wait_ack_repeated\<close>: the node refuses the frame (it is not connected,
  or its queue is closed), or the frame is queued and acknowledgements arrive until the timeout.
  The result is the number of times the frame was queued, and whether the call has returned.
\<close>

datatype 't attempt = Refused | Queued "'t TransportMsg list"

fun send_repeated :: "32 word \<Rightarrow> 't attempt list \<Rightarrow> nat \<times> bool" where
  "send_repeated sn [] = (0, False)"
| "send_repeated sn (Refused # as) = send_repeated sn as"
| "send_repeated sn (Queued acks # as) =
     (case wait_ack sn acks of
        Some rest \<Rightarrow> (1, True)
      | None \<Rightarrow> (case send_repeated sn as of (n, ok) \<Rightarrow> (n + 1, ok)))"

record sender =
  sd_seq_num_out :: "32 word"
  sd_node_id_out :: string

definition new_sender :: "string \<Rightarrow> sender" where
  "new_sender uuid = \<lparr>sd_seq_num_out = 0, sd_node_id_out = uuid\<rparr>"

text \<open>\<^verbatim>\<open>send\<close>: \<^verbatim>\<open>fetch_add\<close> takes the number and wraps.\<close>

definition begin_send :: "'t \<Rightarrow> sender \<Rightarrow> 't TransportMsg \<times> sender" where [transport_defs]:
  "begin_send p s =
     (Normal (sd_seq_num_out s) (sd_node_id_out s) p,
      s\<lparr>sd_seq_num_out := sd_seq_num_out s + 1\<rparr>)"

definition last_sent_sn :: "sender \<Rightarrow> 32 word" where
  "last_sent_sn s = sd_seq_num_out s"

section \<open>The two ends on a channel\<close>

text \<open>
  The sender has the payloads still to send; \<open>lk_current\<close> is the message it retries. Every frame
  ever sent stays in \<open>lk_frames\<close> and may arrive at any time and any number of times, or never; so
  for the acknowledgements in \<open>lk_acks\<close>.
\<close>

record 't link =
  lk_sender :: sender
  lk_current :: "'t TransportMsg option"
  lk_todo :: "'t list"
  lk_done :: "'t list"
  lk_frames :: "'t TransportMsg list"
  lk_acks :: "'t TransportMsg list"
  lk_receiver :: "'t receiver"

datatype link_event =
    BeginSend
  | Transmit
  | FrameArrives nat
  | SendAck
  | AckArrives nat

definition payload_of :: "'t TransportMsg \<Rightarrow> 't list" where
  "payload_of m = (case m of Normal sn node p \<Rightarrow> [p] | Ack sn node \<Rightarrow> [])"

fun link_step :: "'t link \<Rightarrow> link_event \<Rightarrow> 't link" where
  "link_step k BeginSend =
     (case (lk_current k, lk_todo k) of
        (None, p # ps) \<Rightarrow>
          (case begin_send p (lk_sender k) of
             (m, s) \<Rightarrow> k\<lparr>lk_sender := s, lk_current := Some m, lk_todo := ps\<rparr>)
      | _ \<Rightarrow> k)"
| "link_step k Transmit =
     (case lk_current k of Some m \<Rightarrow> k\<lparr>lk_frames := lk_frames k @ [m]\<rparr> | None \<Rightarrow> k)"
| "link_step k (FrameArrives i) =
     (if i < length (lk_frames k)
      then k\<lparr>lk_receiver := on_transport (lk_frames k ! i) (lk_receiver k)\<rparr> else k)"
| "link_step k SendAck =
     (case send_ack (\<lambda>a. (Inr a :: string + 't TransportMsg)) (lk_receiver k) of
        (w, r) \<Rightarrow>
          k\<lparr>lk_receiver := r, lk_acks := lk_acks k @ (case w of Some a \<Rightarrow> [a] | None \<Rightarrow> [])\<rparr>)"
| "link_step k (AckArrives i) =
     (if i < length (lk_acks k)
      then
        (case lk_current k of
           None \<Rightarrow> k
         | Some m \<Rightarrow>
             (case wait_ack (sn_of m) [lk_acks k ! i] of
                Some rest \<Rightarrow> k\<lparr>lk_current := None, lk_done := lk_done k @ payload_of m\<rparr>
              | None \<Rightarrow> k))
      else k)"

definition new_link :: "string \<Rightarrow> 't list \<Rightarrow> 't link" where
  "new_link uuid ps =
     \<lparr>lk_sender = new_sender uuid, lk_current = None, lk_todo = ps, lk_done = [], lk_frames = [],
      lk_acks = [], lk_receiver = new_receiver\<rparr>"

section \<open>The filter delivers each number at most once, in order\<close>

fun filter_run :: "(string \<times> 32 word) list \<Rightarrow> SnFilter \<Rightarrow> (string \<times> 32 word) list" where
  "filter_run [] f = []"
| "filter_run ((node, sn) # ms) f =
     (case sn_next node sn f of
        (b, f') \<Rightarrow> if b then (node, sn) # filter_run ms f' else filter_run ms f')"

lemma filter_run_from:
  assumes "sf_last_sn f = Some prev" and "sf_node_id f = Some node"
  shows "sorted_wrt (<) (prev # map snd (filter_run ms f))
     \<and> (\<forall>m \<in> set (filter_run ms f). fst m = node)"
  using assms
proof (induction ms f arbitrary: prev rule: filter_run.induct)
  case (1 f)
  then show ?case by simp
next
  case (2 n sn ms f)
  show ?case
  proof (cases "n = node \<and> prev < sn")
    case True
    then have nx: "sn_next n sn f = (True, f\<lparr>sf_last_sn := Some sn\<rparr>)"
      using 2(3,4) by (simp add: sn_next_def not_le)
    have "sorted_wrt (<) (sn # map snd (filter_run ms (f\<lparr>sf_last_sn := Some sn\<rparr>)))
        \<and> (\<forall>m \<in> set (filter_run ms (f\<lparr>sf_last_sn := Some sn\<rparr>)). fst m = node)"
      using 2(1) [OF nx [symmetric]] 2(4) by simp
    then show ?thesis using True nx by (auto intro: less_trans)
  next
    case False
    then have nx: "sn_next n sn f = (False, f)"
      using 2(3,4) by (auto simp: sn_next_def not_le)
    then show ?thesis using 2(2) [OF nx [symmetric]] 2(3,4) by simp
  qed
qed

lemma filter_run_all:
  assumes "sf_last_sn f = Some prev" and "sf_node_id f = Some node"
    and "sorted_wrt (<) (prev # sns)"
  shows "filter_run (map (Pair node) sns) f = map (Pair node) sns"
  using assms
proof (induction sns arbitrary: f prev)
  case (Cons sn sns)
  then have "sn_next node sn f = (True, f\<lparr>sf_last_sn := Some sn\<rparr>)"
    by (simp add: sn_next_def not_le)
  then show ?case using Cons.IH [of "f\<lparr>sf_last_sn := Some sn\<rparr>" sn] Cons.prems by simp
qed simp

lemma sn_next_other_node:
  "sf_last_sn f = Some prev \<Longrightarrow> sf_node_id f \<noteq> Some node \<Longrightarrow> sn_next node sn f = (False, f)"
  by (simp add: sn_next_def)

section \<open>Sending\<close>

lemma send_repeated_returns_iff:
  "snd (send_repeated sn as) \<longleftrightarrow> (\<exists>acks. Queued acks \<in> set as \<and> wait_ack sn acks \<noteq> None)"
proof (induction sn as rule: send_repeated.induct)
  case (3 sn acks as)
  then show ?case by (cases "wait_ack sn acks") (auto simp: case_prod_unfold)
qed auto

lemma wait_ack_iff: "wait_ack sn acks \<noteq> None \<longleftrightarrow> (\<exists>node. Ack sn node \<in> set acks)"
  by (induction sn acks rule: wait_ack.induct) auto

section \<open>The link refines a queue\<close>

text \<open>
  \<open>n\<close> payloads have been delivered. The number of the current message is that of the payloads
  acknowledged; it has been delivered already or is the next to be.
\<close>

definition sender_at :: "string \<Rightarrow> 't list \<Rightarrow> nat \<Rightarrow> nat \<Rightarrow> 't link \<Rightarrow> bool" where
  "sender_at uuid ps c n k \<longleftrightarrow>
     lk_done k = take c ps \<and> sd_node_id_out (lk_sender k) = uuid
   \<and> (case lk_current k of
        None \<Rightarrow> n = c \<and> lk_todo k = drop c ps \<and> sd_seq_num_out (lk_sender k) = of_nat c
      | Some m \<Rightarrow> c < length ps \<and> n \<le> c + 1 \<and> m = Normal (of_nat c) uuid (ps ! c)
          \<and> lk_todo k = drop (c + 1) ps \<and> sd_seq_num_out (lk_sender k) = of_nat (c + 1))"

definition acks_at :: "string \<Rightarrow> nat \<Rightarrow> 't TransportMsg list \<Rightarrow> bool" where
  "acks_at uuid n as \<longleftrightarrow> (\<forall>a \<in> set as. \<exists>i < n. a = Ack (of_nat i) uuid)"

definition receiver_at :: "string \<Rightarrow> 't list \<Rightarrow> nat \<Rightarrow> 't receiver \<Rightarrow> bool" where
  "receiver_at uuid ps n r \<longleftrightarrow>
     rx_delivered r = take n ps \<and> acks_at uuid n (rx_acks r)
   \<and> rx_filter r = (if n = 0 then new_filter
        else \<lparr>sf_node_id = Some uuid, sf_last_sn = Some (of_nat (n - 1))\<rparr>)"

text \<open>A frame in flight has been delivered, or is the current one and the next to be.\<close>

definition frames_at :: "string \<Rightarrow> 't list \<Rightarrow> nat \<Rightarrow> bool \<Rightarrow> 't TransportMsg list \<Rightarrow> bool" where
  "frames_at uuid ps n pending fs \<longleftrightarrow>
     (\<forall>m \<in> set fs. \<exists>i < length ps. m = Normal (of_nat i) uuid (ps ! i) \<and> (i < n \<or> (i = n \<and> pending)))"

definition link_at :: "string \<Rightarrow> 't list \<Rightarrow> nat \<Rightarrow> nat \<Rightarrow> 't link \<Rightarrow> bool" where
  "link_at uuid ps c n k \<longleftrightarrow>
     c \<le> n \<and> n \<le> length ps \<and> sender_at uuid ps c n k \<and> receiver_at uuid ps n (lk_receiver k)
   \<and> frames_at uuid ps n (lk_current k \<noteq> None \<and> n = c) (lk_frames k)
   \<and> acks_at uuid n (lk_acks k)"

definition link_inv :: "string \<Rightarrow> 't list \<Rightarrow> 't link \<Rightarrow> bool" where
  "link_inv uuid ps k \<longleftrightarrow> (\<exists>c n. link_at uuid ps c n k)"

lemma link_inv_new: "link_inv uuid ps (new_link uuid ps)"
  unfolding link_inv_def
  by (rule exI [of _ 0], rule exI [of _ 0])
     (simp add: link_at_def sender_at_def receiver_at_def frames_at_def acks_at_def new_link_def
        new_receiver_def new_sender_def)

lemma sn_of_nat_eq:
  "i < 2 ^ 32 \<Longrightarrow> j < 2 ^ 32 \<Longrightarrow> (of_nat i :: 32 word) = of_nat j \<longleftrightarrow> i = j"
  by (simp add: word_unat_eq_iff unat_of_nat take_bit_nat_eq_self)

lemma sn_of_nat_le:
  "i < 2 ^ 32 \<Longrightarrow> j < 2 ^ 32 \<Longrightarrow> (of_nat i :: 32 word) \<le> of_nat j \<longleftrightarrow> i \<le> j"
  by (simp add: word_le_nat_alt unat_of_nat take_bit_nat_eq_self)

lemma sender_at_frame [simp]:
  "sender_at uuid ps c n (k\<lparr>lk_frames := fs\<rparr>) = sender_at uuid ps c n k"
  "sender_at uuid ps c n (k\<lparr>lk_receiver := r\<rparr>) = sender_at uuid ps c n k"
  "sender_at uuid ps c n (k\<lparr>lk_receiver := r, lk_acks := as\<rparr>) = sender_at uuid ps c n k"
  by (cases "lk_current k"; simp add: sender_at_def)+

lemma acks_at_mono: "acks_at uuid n as \<Longrightarrow> n \<le> n' \<Longrightarrow> acks_at uuid n' as"
  unfolding acks_at_def by (meson less_le_trans)

lemma acks_at_push:
  "acks_at uuid n as \<Longrightarrow> i < n \<Longrightarrow> acks_at uuid n (try_push (Ack (of_nat i) uuid) as)"
  by (auto simp: acks_at_def try_push_def)

lemma frames_at_mono:
  "frames_at uuid ps n b fs \<Longrightarrow> (b \<Longrightarrow> b') \<Longrightarrow> frames_at uuid ps n b' fs"
  unfolding frames_at_def by blast

lemma frames_at_next: "frames_at uuid ps n b fs \<Longrightarrow> frames_at uuid ps (n + 1) False fs"
  unfolding frames_at_def by fastforce

lemma receiver_again:
  assumes "receiver_at uuid ps n r" and "i < n" and "n \<le> length ps" and "length ps < 2 ^ 32"
  shows "receiver_at uuid ps n (on_transport (Normal (of_nat i) uuid p) r)"
proof -
  have "(of_nat i :: 32 word) \<le> of_nat (n - 1)"
    using assms(2-4) by (subst sn_of_nat_le) auto
  then have "sn_next uuid (of_nat i) (rx_filter r) = (False, rx_filter r)"
    using assms(1,2) by (simp add: receiver_at_def sn_next_def)
  then show ?thesis using assms(1,2) by (simp add: receiver_at_def acks_at_push)
qed

lemma receiver_next:
  assumes "receiver_at uuid ps n r" and "n < length ps" and "length ps < 2 ^ 32"
  shows "receiver_at uuid ps (n + 1) (on_transport (Normal (of_nat n) uuid (ps ! n)) r)"
proof -
  have "sn_next uuid (of_nat n) (rx_filter r)
      = (True, \<lparr>sf_node_id = Some uuid, sf_last_sn = Some (of_nat n)\<rparr>)"
  proof (cases "n = 0")
    case True
    then show ?thesis using assms(1) by (simp add: receiver_at_def sn_next_def new_filter_def)
  next
    case False
    then have "\<not> (of_nat n :: 32 word) \<le> of_nat (n - 1)"
      using assms(2,3) by (subst sn_of_nat_le) auto
    then show ?thesis using assms(1) False by (simp add: receiver_at_def sn_next_def)
  qed
  moreover have "acks_at uuid (n + 1) (try_push (Ack (of_nat n) uuid) (rx_acks r))"
    by (rule acks_at_push, rule acks_at_mono [of _ n])
       (use assms(1) in \<open>auto simp: receiver_at_def\<close>)
  ultimately show ?thesis
    using assms(1,2) by (simp add: receiver_at_def take_Suc_conv_app_nth)
qed

lemma begin_send_at:
  assumes "link_at uuid ps c n k"
  shows "link_at uuid ps c n (link_step k BeginSend)"
proof (cases "lk_current k = None \<and> lk_todo k \<noteq> []")
  case False
  then have "link_step k BeginSend = k" by (auto split: option.splits list.splits)
  then show ?thesis using assms by simp
next
  case True
  then obtain q qs where todo: "lk_todo k = q # qs" by (cases "lk_todo k") auto
  have c: "n = c" "drop c ps = q # qs"
    using assms True todo by (auto simp: link_at_def sender_at_def)
  then have q: "c < length ps" "q = ps ! c" "qs = drop (c + 1) ps"
    by (metis drop_all leI list.distinct(1), metis nth_via_drop,
        metis drop_Suc tl_drop list.sel(3) Suc_eq_plus1)
  have sd: "sd_seq_num_out (lk_sender k) = of_nat c" "sd_node_id_out (lk_sender k) = uuid"
    "lk_done k = take c ps"
    using assms True by (auto simp: link_at_def sender_at_def)
  have step: "link_step k BeginSend = k\<lparr>lk_sender := lk_sender k\<lparr>sd_seq_num_out := of_nat c + 1\<rparr>,
      lk_current := Some (Normal (of_nat c) uuid q), lk_todo := qs\<rparr>"
    using True todo sd by (simp add: begin_send_def)
  have "sender_at uuid ps c n (link_step k BeginSend)"
    unfolding step using sd q c(1) by (simp add: sender_at_def add.commute)
  moreover have "frames_at uuid ps n True (lk_frames k)"
    using assms frames_at_mono unfolding link_at_def by blast
  ultimately show ?thesis
    using assms c(1) unfolding link_at_def step by simp
qed

lemma transmit_at:
  assumes "link_at uuid ps c n k"
  shows "link_at uuid ps c n (link_step k Transmit)"
proof (cases "lk_current k")
  case None
  then show ?thesis using assms by simp
next
  case (Some m)
  have m: "m = Normal (of_nat c) uuid (ps ! c)" "c < length ps"
    using assms Some by (auto simp: link_at_def sender_at_def)
  have "frames_at uuid ps n (n = c) (lk_frames k @ [m])"
    using assms Some m unfolding link_at_def frames_at_def by (auto simp: le_less)
  moreover have "sender_at uuid ps c n (k\<lparr>lk_frames := lk_frames k @ [m]\<rparr>)"
    using assms by (simp add: link_at_def)
  ultimately show ?thesis using assms Some by (simp add: link_at_def)
qed

lemma frame_arrives_at:
  assumes at: "link_at uuid ps c n k" and small: "length ps < 2 ^ 32"
    and m: "m \<in> set (lk_frames k)"
  shows "\<exists>n'. link_at uuid ps c n' (k\<lparr>lk_receiver := on_transport m (lk_receiver k)\<rparr>)"
proof -
  let ?k = "k\<lparr>lk_receiver := on_transport m (lk_receiver k)\<rparr>"
  obtain i where i: "i < length ps" "m = Normal (of_nat i) uuid (ps ! i)"
    "i < n \<or> (i = n \<and> n = c \<and> lk_current k \<noteq> None)"
    using at m unfolding link_at_def frames_at_def by metis
  have n: "n \<le> length ps" and r: "receiver_at uuid ps n (lk_receiver k)"
    using at by (simp_all add: link_at_def)
  show ?thesis
  proof (cases "i < n")
    case True
    have "link_at uuid ps c n ?k"
      using at receiver_again [OF r True n small] i(2)
      by (simp add: link_at_def del: on_transport.simps)
    then show ?thesis by blast
  next
    case False
    then have e: "i = n" "n = c" "lk_current k \<noteq> None" using i(3) by auto
    have "receiver_at uuid ps (n + 1) (lk_receiver ?k)"
      using receiver_next [OF r _ small] i(1,2) e(1) by simp
    moreover have "sender_at uuid ps c (n + 1) ?k"
      using at e by (auto simp: link_at_def sender_at_def)
    moreover have "frames_at uuid ps (n + 1) (lk_current k \<noteq> None \<and> n + 1 = c) (lk_frames k)"
      using at e(2) frames_at_next by (auto simp: link_at_def)
    moreover have "acks_at uuid (n + 1) (lk_acks k)"
      using at by (auto simp: link_at_def intro: acks_at_mono)
    ultimately have "link_at uuid ps c (n + 1) ?k"
      using e(2) i(1) e(1) by (simp add: link_at_def)
    then show ?thesis by blast
  qed
qed

lemma ack_arrives_at:
  assumes at: "link_at uuid ps c n k" and small: "length ps < 2 ^ 32"
    and a: "a \<in> set (lk_acks k)" and cur: "lk_current k = Some m" "wait_ack (sn_of m) [a] \<noteq> None"
  shows "link_at uuid ps (c + 1) n (k\<lparr>lk_current := None, lk_done := lk_done k @ payload_of m\<rparr>)"
proof -
  have m: "m = Normal (of_nat c) uuid (ps ! c)" "c < length ps" "n \<le> c + 1" "n \<le> length ps"
    using at cur by (auto simp: link_at_def sender_at_def)
  obtain i where i: "i < n" "a = Ack (of_nat i) uuid"
    using at a unfolding link_at_def acks_at_def by metis
  have "(of_nat i :: 32 word) = of_nat c" using cur(2) m(1) i(2) by (auto split: if_splits)
  then have "i = c" using m i(1) small by (subst (asm) sn_of_nat_eq) auto
  then have n: "n = c + 1" using m(3) i(1) by simp
  have f: "frames_at uuid ps n False (lk_frames k)"
    by (rule frames_at_mono [of _ _ _ "lk_current k \<noteq> None \<and> n = c"])
       (use at n in \<open>auto simp: link_at_def\<close>)
  have "sender_at uuid ps (c + 1) n (k\<lparr>lk_current := None, lk_done := lk_done k @ payload_of m\<rparr>)"
    using at cur(1) m n
    by (simp add: link_at_def sender_at_def payload_of_def take_Suc_conv_app_nth)
  then show ?thesis using at n f by (simp add: link_at_def)
qed

lemma send_ack_at:
  assumes "link_at uuid ps c n k"
  shows "link_at uuid ps c n (link_step k SendAck)"
proof (cases "rx_acks (lk_receiver k)")
  case Nil
  then show ?thesis using assms by (simp add: send_ack_def)
next
  case (Cons a as)
  have "acks_at uuid n (rx_acks (lk_receiver k))" "acks_at uuid n (lk_acks k)"
    using assms by (simp_all add: link_at_def receiver_at_def)
  then have "acks_at uuid n as" "acks_at uuid n (lk_acks k @ [a])"
    by (auto simp: acks_at_def Cons)
  then show ?thesis
    using assms Cons by (simp add: link_at_def receiver_at_def send_ack_def)
qed

lemma link_step_inv:
  assumes small: "length ps < 2 ^ 32" and inv: "link_inv uuid ps k"
  shows "link_inv uuid ps (link_step k ev)"
proof -
  obtain c n where at: "link_at uuid ps c n k" using inv by (auto simp: link_inv_def)
  show ?thesis
  proof (cases ev)
    case BeginSend
    then show ?thesis using begin_send_at [OF at] link_inv_def by blast
  next
    case Transmit
    then show ?thesis using transmit_at [OF at] link_inv_def by blast
  next
    case (FrameArrives i)
    show ?thesis
    proof (cases "i < length (lk_frames k)")
      case True
      then show ?thesis
        using frame_arrives_at [OF at small nth_mem] FrameArrives by (simp add: link_inv_def) blast
    next
      case False
      then show ?thesis using inv FrameArrives by simp
    qed
  next
    case SendAck
    then show ?thesis using send_ack_at [OF at] link_inv_def by blast
  next
    case (AckArrives i)
    show ?thesis
    proof (cases "i < length (lk_acks k) \<and> (\<exists>m. lk_current k = Some m
        \<and> wait_ack (sn_of m) [lk_acks k ! i] \<noteq> None)")
      case True
      then obtain m rest where m: "lk_current k = Some m" "i < length (lk_acks k)"
        "wait_ack (sn_of m) [lk_acks k ! i] = Some rest" by auto
      have "link_at uuid ps (c + 1) n (k\<lparr>lk_current := None, lk_done := lk_done k @ payload_of m\<rparr>)"
        using ack_arrives_at [OF at small nth_mem [OF m(2)] m(1)] m(3) by simp
      then show ?thesis using AckArrives m link_inv_def by (simp del: wait_ack.simps) blast
    next
      case False
      then have "link_step k ev = k"
        using AckArrives by (auto simp del: wait_ack.simps split: option.splits)
      then show ?thesis using inv by simp
    qed
  qed
qed

text \<open>The laws hold of every link of fewer than \<open>2 ^ 32\<close> payloads.\<close>

definition small_link :: "string \<Rightarrow> 't list \<Rightarrow> 't link \<Rightarrow> bool" where
  "small_link uuid ps k \<longleftrightarrow> length ps < 2 ^ 32 \<and> link_inv uuid ps k"

interpretation link: step_system link_step "small_link uuid ps" for uuid ps
  by unfold_locales (simp add: small_link_def link_step_inv)

definition link_run :: "string \<Rightarrow> 't list \<Rightarrow> link_event list \<Rightarrow> 't link" where
  "link_run uuid ps evs = foldl link_step (new_link uuid ps) evs"

lemma link_run_inv: "length ps < 2 ^ 32 \<Longrightarrow> link_inv uuid ps (link_run uuid ps evs)"
  using link.run_inv [of uuid ps "new_link uuid ps" evs]
  by (simp add: small_link_def link_run_def link_inv_new)

end
