(* ===== verification/Network_Properties.thy ===== *)
theory Network_Properties
  imports Signalling_Safety Legacy_Server Transport
begin

text \<open>
  The properties of the two signalling servers and of the transport, each with an instance at a
  concrete run. They are stated on every state a server or a link reaches from its start.
\<close>

section \<open>Concrete runs\<close>

text \<open>Every text decodes to a payload for the room \<^verbatim>\<open>r\<close>; two connections meet there.\<close>

definition demo_decode :: "string \<Rightarrow> json WireMsg option" where
  "demo_decode t = Some \<lparr>wm_tag = ''r'', wm_message = Some (Normal 0 ''n'' JNull)\<rparr>"

definition demo_events :: "event list" where
  "demo_events =
     [Accepted 0, Accepted 0, Recorded 0, Recorded 1, Incoming 0 1 (Text ''x''),
      Incoming 1 1 (Text ''y''), ForwardStep 1, EgressSend 0 True]"

definition demo_server :: server where
  "demo_server = server_run demo_decode default_config demo_events"

text \<open>Connection 0 of the run has ended all its tasks.\<close>

definition demo_ending :: "event list" where
  "demo_ending =
     demo_events @ [ReadEnd 0, EgressCancelled 0, EgressClosed 0, IdleCancelled 0]"

lemmas demo_simps = demo_server_def server_run_def demo_decode_def demo_events_def demo_ending_def
  empty_server_def empty_state_def zero_metrics_def new_connection_def new_limiter_def
  default_config_def with_conn_def put_conn_def on_metrics_def record_connection_def receive_def
  process_def is_close_def rate_limit_by_time_def limit_messages_def parse_incoming_def
  try_brand_rtt_tag_def record_rtr_and_get_forwarding_queue_def put_record_def empty_record_def
  is_full_def contains_def add_def other_connection_def forward_def egress_send_def
  record_forwarded_def record_incoming_msg_def end_listening_def Let_def

lemma demo_conns:
  "map_option cn_written (sv_conns demo_server 0) = Some [Text ''y'']"
  "map_option cn_queue (sv_conns demo_server 1) = Some []"
  "map_option (rl_tag \<circ> cn_limiter) (sv_conns demo_server 0) = Some (Some ''r'')"
  "map_option cn_forwarded (sv_conns demo_server 0) = Some 0"
  "map_option cn_incoming (sv_conns demo_server 0) = Some 1"
  "map_option cn_idle (sv_conns demo_server 0) = Some FirstWait"
  by (simp_all add: demo_simps)

lemma demo_members: "members (sv_state demo_server) ''r'' = {0, 1}"
  by (auto simp: demo_simps members_def)

section \<open>The signalling server\<close>

text \<open>C8: Room isolation. In every state the server reaches, whatever a connection has been sent or
  has waiting in its queue is a frame with a payload whose routing tag is the tag that connection
  itself is branded with: a frame never reaches a connection of another room.\<close>

theorem deliveries_carry_own_tag:
  assumes "sv_conns (server_run decode cfg evs) c = Some cn"
    and "m \<in> set (cn_queue cn) \<union> set (cn_written cn)"
  shows "\<exists>t. rl_tag (cn_limiter cn) = Some t
     \<and> parse_incoming decode m = Inr \<lparr>pm_rtt_tag = t, pm_has_payload = True\<rparr>"
  using server_ok_conn [OF server_run_ok assms(1)] assms(2) by (auto simp: conn_ok_def carries_def)

theorem deliveries_carry_own_tag_witness:
  "\<exists>cn t. sv_conns demo_server 0 = Some cn \<and> cn_written cn = [Text ''y'']
     \<and> rl_tag (cn_limiter cn) = Some t
     \<and> parse_incoming demo_decode (Text ''y'') = Inr \<lparr>pm_rtt_tag = t, pm_has_payload = True\<rparr>"
proof -
  obtain cn where cn: "sv_conns demo_server 0 = Some cn" "cn_written cn = [Text ''y'']"
    using demo_conns(1) by auto
  then have "Text ''y'' \<in> set (cn_queue cn) \<union> set (cn_written cn)" by simp
  from deliveries_carry_own_tag [OF cn(1) [unfolded demo_server_def] this] cn
  show ?thesis by auto
qed

text \<open>C13: Rooms are pairs of live connections. In every state the server reaches, a room has at
  most two connections, none twice, and each of them is in the connection table, has been
  branded with the tag of the room and has not been cleaned up.\<close>

theorem rooms_are_live_pairs:
  assumes "rtt (sv_state (server_run decode cfg evs)) tag = Some r"
  shows "distinct (pair r) \<and> length (pair r) \<le> 2
     \<and> set (pair r) \<subseteq> {c. ct (sv_state (server_run decode cfg evs)) c = Some (Handler c)
          \<and> (\<exists>cn. sv_conns (server_run decode cfg evs) c = Some cn \<and> \<not> cn_gone cn
               \<and> rl_tag (cn_limiter cn) = Some tag)}"
proof -
  let ?s = "server_run decode cfg evs"
  have ok: "server_ok decode cfg ?s" by (rule server_run_ok)
  have "record_ok r" using ok assms by (simp add: server_ok_def rooms_ok_def)
  moreover have "ct (sv_state ?s) c = Some (Handler c) \<and> (\<exists>cn. sv_conns ?s c = Some cn
      \<and> \<not> cn_gone cn \<and> rl_tag (cn_limiter cn) = Some tag)" if "c \<in> set (pair r)" for c
  proof -
    have "c \<in> members (sv_state ?s) tag" using that assms by (simp add: members_def)
    then obtain h where h: "ct (sv_state ?s) c = Some h" and b: "brand ?s c = Some tag"
      using ok by (auto simp: server_ok_def members_ok_def)
    then obtain cn where "h = Handler c" "sv_conns ?s c = Some cn" "\<not> cn_gone cn"
      using ok unfolding server_ok_def table_ok_def by metis
    then show ?thesis using h b by (simp add: brand_def)
  qed
  ultimately show ?thesis by (auto simp: record_ok_def)
qed

theorem rooms_are_live_pairs_witness:
  "\<exists>r. rtt (sv_state demo_server) ''r'' = Some r \<and> length (pair r) = 2 \<and> distinct (pair r)"
proof -
  have "map_option pair (rtt (sv_state demo_server) ''r'') = Some [0, 1]" by (simp add: demo_simps)
  then obtain r where r: "rtt (sv_state demo_server) ''r'' = Some r" "pair r = [0, 1]" by auto
  from rooms_are_live_pairs [OF r(1) [unfolded demo_server_def]] r show ?thesis by auto
qed

text \<open>A connection is in one room. In every state the server reaches, the rooms of two
  different tags have no connection in common.\<close>

theorem rooms_are_disjoint:
  assumes "tag \<noteq> tag'"
  shows "members (sv_state (server_run decode cfg evs)) tag
     \<inter> members (sv_state (server_run decode cfg evs)) tag' = {}"
proof -
  have "brand (server_run decode cfg evs) c = Some t"
    if "c \<in> members (sv_state (server_run decode cfg evs)) t" for c t
    using rooms.owned [OF server_run_ok that] by simp
  then show ?thesis using assms by (metis disjoint_iff option.inject)
qed

theorem rooms_are_disjoint_witness:
  "members (sv_state demo_server) ''r'' = {0, 1}
     \<and> members (sv_state demo_server) ''r'' \<inter> members (sv_state demo_server) ''s'' = {}"
  using rooms_are_disjoint [of "''r''" "''s''" demo_decode default_config demo_events] demo_members
  unfolding demo_server_def by simp

text \<open>C39: Bounds. In every state the server reaches, a connection has had at most
  \<^verbatim>\<open>messages_per_connection\<close> frames counted and no more of them forwarded than accepted, its
  window counter is at most the limit per second, and its queue is at most the configured size.\<close>

theorem connection_bounds:
  assumes "sv_conns (server_run decode cfg evs) c = Some cn"
  shows "cn_forwarded cn \<le> cn_incoming cn \<and> cn_incoming cn \<le> messages_per_connection cfg
     \<and> length (cn_queue cn) \<le> send_buffer_limit cfg
     \<and> window_message_count (cn_limiter cn) \<le> max_messages_per_second (cn_limiter cn)"
  using server_ok_conn [OF server_run_ok assms] by (auto simp: conn_ok_def limiter_ok_def)

theorem connection_bounds_witness:
  "\<exists>cn. sv_conns demo_server 0 = Some cn \<and> cn_incoming cn = 1 \<and> cn_incoming cn \<le> 128"
proof -
  obtain cn where cn: "sv_conns demo_server 0 = Some cn" "cn_incoming cn = 1"
    using demo_conns(5) by auto
  from connection_bounds [OF cn(1) [unfolded demo_server_def]] cn show ?thesis
    by (auto simp: default_config_def)
qed

text \<open>Clean-up leaves nothing and touches no one else. Once the three tasks of a registered
  connection are over, its clean-up step takes it out of the connection table and out of every
  room, and leaves every other connection where it was.\<close>

theorem cleanup_removes_exactly_one:
  assumes "sv_conns (server_run decode cfg evs) c = Some cn"
    and "cn_recorded cn" and "\<not> cn_gone cn" and "cn_listen cn = ListenDone"
    and "cn_egress cn = EgressDone" and "cn_idle cn = IdleDone"
  shows "ct (sv_state (server_run decode cfg (evs @ [Cleanup c])))
       = (ct (sv_state (server_run decode cfg evs)))(c := None)
     \<and> members (sv_state (server_run decode cfg (evs @ [Cleanup c]))) tag
       = members (sv_state (server_run decode cfg evs)) tag - {c}"
proof -
  let ?s = "server_run decode cfg evs"
  have "sv_state (server_run decode cfg (evs @ [Cleanup c])) = sv_state (forget c ?s)"
    using assms by (simp add: server_run_def with_conn_def cleanup_def forget_def brand_def)
  moreover have "members (sv_state (forget c ?s)) tag = members (sv_state ?s) tag - {c}"
    by (rule rooms.drop_owner) (rule server_run_ok)
  ultimately show ?thesis by (simp add: forget_def)
qed

theorem cleanup_removes_exactly_one_witness:
  "members (sv_state (server_run demo_decode default_config (demo_ending @ [Cleanup 0]))) ''r''
     = members (sv_state (server_run demo_decode default_config demo_ending)) ''r'' - {0}"
proof -
  have "map_option (\<lambda>cn. (cn_recorded cn, cn_gone cn, cn_listen cn, cn_egress cn, cn_idle cn))
      (sv_conns (server_run demo_decode default_config demo_ending) 0)
    = Some (True, False, ListenDone, EgressDone, IdleDone)"
    by (simp add: demo_simps)
  then obtain cn where "sv_conns (server_run demo_decode default_config demo_ending) 0 = Some cn"
    "cn_recorded cn" "\<not> cn_gone cn" "cn_listen cn = ListenDone" "cn_egress cn = EgressDone"
    "cn_idle cn = IdleDone" by auto
  from cleanup_removes_exactly_one [OF this] show ?thesis by blast
qed

text \<open>Idle connections are cut. A connection that has been sent no accepted frame when the
  first timer fires, or that has forwarded nothing between two firings of the second, is
  cancelled; one that has forwarded something since is watched on, and not cancelled.\<close>

theorem idle_connections_are_cut:
  assumes "sv_conns s c = Some cn"
  shows "\<exists>cn'. sv_conns (server_step decode cfg s (IdleTimer c)) c = Some cn'
     \<and> cn_cancelled cn' =
         (cn_cancelled cn
          \<or> cn_idle cn = FirstWait \<and> cn_incoming cn = 0
          \<or> cn_idle cn = Watching (cn_forwarded cn))
     \<and> (cn_idle cn' \<noteq> IdleDone \<longrightarrow> cn_idle cn' = Watching (cn_forwarded cn))"
  using assms by (auto simp: with_conn_def idle_timer_def split: idle_state.splits)

theorem idle_connections_are_cut_witness:
  "\<exists>cn. sv_conns (server_step demo_decode default_config demo_server (IdleTimer 0)) 0 = Some cn
     \<and> \<not> cn_cancelled cn"
proof -
  obtain cn where cn: "sv_conns demo_server 0 = Some cn" "cn_incoming cn = 1" "cn_idle cn = FirstWait"
    "\<not> cn_cancelled cn"
  proof -
    have "map_option cn_cancelled (sv_conns demo_server 0) = Some False" by (simp add: demo_simps)
    then show thesis using that demo_conns(5,6) by auto
  qed
  from idle_connections_are_cut [OF cn(1), of demo_decode default_config] cn show ?thesis by auto
qed

section \<open>The first signalling server\<close>

definition demo_legacy_decode :: "string \<Rightarrow> SSMsg option" where
  "demo_legacy_decode t = Some \<lparr>ss_src = t, ss_dst = t\<rparr>"

definition demo_render :: "json \<Rightarrow> string" where
  "demo_render j = ''error''"

text \<open>One address, announced three times by connection 0.\<close>

definition demo_announcements :: "legacy_event list" where
  "demo_announcements =
     [Opened, Opened, Frame 0 (Text ''a''), Frame 0 (Text ''a''), Frame 0 (Text ''a'')]"

lemmas demo_legacy_simps = legacy_run_def demo_announcements_def demo_legacy_decode_def
  demo_render_def new_shared_state_def open_connection_def handle_frame_def frame_text_def
  register_route_def reply_error_def tx_send_def error_msg_def ROUTE_LIMIT_def Let_def addrs_of_def



text \<open>Clean-up of routes. When a connection of the first server closes, every address it
  registered is forgotten, every address of another connection is kept, and before that it never
  had more than \<^verbatim>\<open>ROUTE_LIMIT + 1\<close> registrations.\<close>

theorem closing_forgets_own_routes:
  "sh_r_table (legacy_run render decode (evs @ [Closed c])) a
     = (if sh_r_table (legacy_run render decode evs) a = Some c then None
        else sh_r_table (legacy_run render decode evs) a)
   \<and> length (addrs_of (legacy_run render decode evs) c) \<le> ROUTE_LIMIT + 1"
proof -
  have ok: "legacy_ok (legacy_run render decode evs)" by (rule legacy_run_ok)
  have "sh_r_table (close_connection c (legacy_run render decode evs)) a
     = (if sh_r_table (legacy_run render decode evs) a = Some c then None
        else sh_r_table (legacy_run render decode evs) a)"
    using close_table [OF ok] .
  moreover have "length (addrs_of (legacy_run render decode evs) c) \<le> ROUTE_LIMIT + 1"
    using ok by (simp add: legacy_ok_def)
  ultimately show ?thesis by (simp add: legacy_run_def)
qed

text \<open>Heartbeats use up the limit. A connection that has announced one address three times
  has one route, and its fourth announcement of the same address is answered with the error
  \<^verbatim>\<open>too many refs\<close>: the limit counts accepted frames, not addresses.\<close>

theorem fourth_announcement_is_refused:
  "length (remdups (addrs_of (legacy_run demo_render demo_legacy_decode demo_announcements) 0)) = 1
   \<and> map_option ci_out (sh_connections (legacy_run demo_render demo_legacy_decode
        (demo_announcements @ [Frame 0 (Text ''a'')])) 0)
     = Some [error_msg demo_render ''too many refs, reset server registration'']"
  by (simp add: demo_legacy_simps)

section \<open>The transport\<close>

text \<open>C10: The transport refines a queue. Put on a channel that loses, repeats and reorders frames
  and acknowledgements, the receiver has at every moment delivered a prefix of the payloads, in
  order and each once; every payload whose send has returned has been delivered; and at most one
  delivered payload is still waiting for its acknowledgement.\<close>

theorem link_delivers_a_prefix:
  assumes "length ps < 2 ^ 32"
  shows "\<exists>c n. c \<le> n \<and> n \<le> c + 1 \<and> n \<le> length ps
     \<and> lk_done (link_run uuid ps evs) = take c ps
     \<and> rx_delivered (lk_receiver (link_run uuid ps evs)) = take n ps"
proof -
  obtain c n where "link_at uuid ps c n (link_run uuid ps evs)"
    using link_run_inv [OF assms, of uuid evs] by (auto simp: link_inv_def)
  then show ?thesis
    by (intro exI [of _ c] exI [of _ n])
       (auto simp: link_at_def sender_at_def receiver_at_def split: option.splits)
qed

text \<open>The first frame is sent twice, both copies arrive, and an acknowledgement comes back.\<close>

definition demo_link :: "bool link" where
  "demo_link = link_run ''u'' [True, False]
     [BeginSend, Transmit, Transmit, FrameArrives 0, FrameArrives 1, SendAck, AckArrives 0]"

lemma demo_link_simps: "rx_delivered (lk_receiver demo_link) = [True]" "lk_done demo_link = [True]"
  by (simp_all add: demo_link_def link_run_def new_link_def new_receiver_def new_sender_def
      new_filter_def begin_send_def sn_next_def send_ack_def try_push_def ack_capacity_def
      payload_of_def)

theorem link_delivers_a_prefix_witness:
  "rx_delivered (lk_receiver demo_link) = [True]
   \<and> (\<exists>c n. c \<le> n \<and> n \<le> c + 1 \<and> n \<le> length [True, False]
        \<and> lk_done demo_link = take c [True, False]
        \<and> rx_delivered (lk_receiver demo_link) = take n [True, False])"
proof (rule conjI)
  show "rx_delivered (lk_receiver demo_link) = [True]" by (rule demo_link_simps)
  show "\<exists>c n. c \<le> n \<and> n \<le> c + 1 \<and> n \<le> length [True, False]
        \<and> lk_done demo_link = take c [True, False]
        \<and> rx_delivered (lk_receiver demo_link) = take n [True, False]"
    unfolding demo_link_def by (rule link_delivers_a_prefix) simp
qed

text \<open>The filter delivers each number at most once. Of any sequence of messages, whatever its
  senders, the filter lets through messages of one sender only, with strictly increasing
  sequence numbers.\<close>

theorem filter_delivers_once_in_order:
  "sorted_wrt (<) (map snd (filter_run ms new_filter))
   \<and> (\<exists>node. set (map fst (filter_run ms new_filter)) \<subseteq> {node})"
proof (cases ms)
  case Nil
  then show ?thesis by simp
next
  case (Cons m ms')
  obtain node sn where m: "m = (node, sn)" by fastforce
  let ?f = "\<lparr>sf_node_id = Some node, sf_last_sn = Some sn\<rparr>"
  have "filter_run ms new_filter = (node, sn) # filter_run ms' ?f"
    using Cons m by (simp add: sn_next_def new_filter_def)
  then show ?thesis using filter_run_from [of ?f sn node ms'] by auto
qed

text \<open>A restarted peer is acknowledged but not heard. Once the receiver has heard one node, a
  message of a node with another id (the same peer after a restart) is queued for an
  acknowledgement, as long as there is room, and is not delivered, now or after any further
  messages of that node.\<close>

theorem restarted_peer_is_acked_but_dropped:
  assumes "sf_last_sn (rx_filter r) = Some sn0" and "sf_node_id (rx_filter r) = Some old"
    and "new \<noteq> old" and "length (rx_acks r) < ack_capacity"
  shows "rx_acks (on_transport (Normal sn new p) r) = rx_acks r @ [Ack sn new]
     \<and> rx_delivered (foldl (\<lambda>r (k, q). on_transport (Normal k new q) r) r ((sn, p) # ms))
       = rx_delivered r"
proof -
  have drop: "rx_filter (on_transport (Normal k new q) r') = rx_filter r'
      \<and> rx_delivered (on_transport (Normal k new q) r') = rx_delivered r'"
    if "rx_filter r' = rx_filter r" for k q r'
    using that assms(1-3) by (simp add: sn_next_def)
  have "rx_delivered (foldl (\<lambda>r (k, q). on_transport (Normal k new q) r) r' ms) = rx_delivered r'"
    if "rx_filter r' = rx_filter r" for r' and ms :: "(32 word \<times> 'a) list"
    using that
  proof (induction ms arbitrary: r')
    case (Cons m ms)
    obtain k q where m: "m = (k, q)" by fastforce
    show ?case
      using Cons.IH [of "on_transport (Normal k new q) r'"] drop [OF Cons.prems, of k q] Cons.prems m
      by (simp del: on_transport.simps)
  qed simp
  from this [of r "(sn, p) # ms"] show ?thesis
    using assms by (auto simp: sn_next_def try_push_def)
qed

definition heard_receiver :: "bool receiver" where
  "heard_receiver = on_transport (Normal 5 ''old'' True) new_receiver"

theorem restarted_peer_is_acked_but_dropped_witness:
  "rx_delivered heard_receiver = [True]
   \<and> rx_delivered (foldl (\<lambda>r (k, q). on_transport (Normal k ''new'' q) r) heard_receiver
        [(0, False), (1, True)]) = [True]"
proof -
  have h: "sf_last_sn (rx_filter heard_receiver) = Some 5"
    "sf_node_id (rx_filter heard_receiver) = Some ''old''"
    "length (rx_acks heard_receiver) < ack_capacity" "rx_delivered heard_receiver = [True]"
    by (simp_all add: heard_receiver_def new_receiver_def new_filter_def sn_next_def try_push_def
        ack_capacity_def)
  show ?thesis
    using restarted_peer_is_acked_but_dropped [OF h(1,2) _ h(3), of "''new''" 0 False "[(1, True)]"]
      h(4) by (simp del: on_transport.simps)
qed

text \<open>C40: A send returns exactly when its acknowledgement arrives. The retry loop returns if and
  only if in one of its attempts the frame was queued and an acknowledgement with its own number
  arrived before the timeout; attempts refused by the node send nothing.\<close>

theorem send_returns_iff_acked:
  "snd (send_repeated sn attempts)
     = (\<exists>acks node. Queued acks \<in> set attempts \<and> Ack sn node \<in> set acks)
   \<and> fst (send_repeated sn (replicate n Refused @ attempts)) = fst (send_repeated sn attempts)"
proof -
  have "fst (send_repeated sn (replicate n Refused @ attempts)) = fst (send_repeated sn attempts)"
    by (induction n) simp_all
  then show ?thesis by (simp only: send_repeated_returns_iff wait_ack_iff) blast
qed

end
