(* ===== verification/Database.thy ===== *)
theory Database
  imports Schema
begin

text \<open>
  The database of \<^verbatim>\<open>src-tauri/migrations/*.sql\<close> and the SQL statements that
  \<^verbatim>\<open>src-tauri/src/db/sqlite.rs\<close> sends to it. A table is the list of its rows in rowid order
  with the \<^verbatim>\<open>AUTOINCREMENT\<close> sequence; a statement is a function that returns the changed
  tables or the constraint it violates. What sqlx and the SQLite engine decide is a parameter,
  the record \<open>engine\<close>: which call fails for a reason outside the tables (I/O, a lock, a full
  disk), how many rowids the sequence skips, and the text of an error or of a JSON value.
\<close>

section \<open>Errors and the engine\<close>

datatype sqlx_error =
    Protocol string
  | RowNotFound
  | UniqueViolation
  | ForeignKeyViolation
  | NotNullViolation
  | DatabaseFull
  | EngineError string

text \<open>
  \<open>eng_fault E i\<close> is the failure of the \<open>i\<close>-th call an operation makes to the engine, counted
  from 0 (the opening of a transaction and its commit are calls); \<open>eng_log_fault\<close> that of the
  insert into \<^verbatim>\<open>errors\<close> which \<^verbatim>\<open>try_log\<close> makes on a connection of its own.
  \<^verbatim>\<open>AUTOINCREMENT\<close> promises a rowid larger than any used before, not the next one:
  \<open>eng_gap\<close> is what it skips.
\<close>

record engine =
  eng_fault :: "nat \<Rightarrow> sqlx_error option"
  eng_log_fault :: "sqlx_error option"
  eng_gap :: "int \<Rightarrow> nat"
  eng_like :: "string \<Rightarrow> string \<Rightarrow> bool"
  eng_show_err :: "sqlx_error \<Rightarrow> string"
  eng_show_json :: "json \<Rightarrow> string"

definition exec :: "engine \<Rightarrow> nat \<Rightarrow> sqlx_error + 'a \<Rightarrow> sqlx_error + 'a" where
  "exec E i m = (case eng_fault E i of Some e \<Rightarrow> Inl e | None \<Rightarrow> m)"

lemma exec_Inr_iff: "exec E i m = Inr x \<longleftrightarrow> eng_fault E i = None \<and> m = Inr x"
  by (auto simp: exec_def split: option.splits)

lemma exec_no_fault [simp]: "eng_fault E i = None \<Longrightarrow> exec E i m = m"
  by (simp add: exec_def)

section \<open>Tables\<close>

record 'r tbl =
  tbl_rows :: "(int \<times> 'r) list"
  tbl_seq :: int

definition tbl_empty :: "'r tbl" where
  "tbl_empty = \<lparr>tbl_rows = [], tbl_seq = 0\<rparr>"

definition tbl_ids :: "'r tbl \<Rightarrow> int list" where
  "tbl_ids t = map fst (tbl_rows t)"

definition tbl_cols :: "'r tbl \<Rightarrow> 'r list" where
  "tbl_cols t = map snd (tbl_rows t)"

text \<open>\<^verbatim>\<open>INSERT\<close>: the new row's id is larger than every id the table ever held.\<close>

definition tbl_insert :: "engine \<Rightarrow> 'r \<Rightarrow> 'r tbl \<Rightarrow> sqlx_error + (int \<times> 'r tbl)" where
  "tbl_insert E c t =
     (let k = tbl_seq t + 1 + int (eng_gap E (tbl_seq t)) in
      if k > i64_max then Inl DatabaseFull
      else Inr (k, \<lparr>tbl_rows = tbl_rows t @ [(k, c)], tbl_seq = k\<rparr>))"

definition tbl_update :: "(int \<Rightarrow> 'r \<Rightarrow> bool) \<Rightarrow> ('r \<Rightarrow> 'r) \<Rightarrow> 'r tbl \<Rightarrow> 'r tbl" where
  "tbl_update p f t =
     t\<lparr>tbl_rows := map (\<lambda>(k, c). if p k c then (k, f c) else (k, c)) (tbl_rows t)\<rparr>"

definition tbl_delete :: "(int \<Rightarrow> 'r \<Rightarrow> bool) \<Rightarrow> 'r tbl \<Rightarrow> 'r tbl" where
  "tbl_delete p t = t\<lparr>tbl_rows := filter (\<lambda>(k, c). \<not> p k c) (tbl_rows t)\<rparr>"

text \<open>\<^verbatim>\<open>SELECT .. WHERE .. ORDER BY id ASC\<close>.\<close>

definition tbl_select :: "(int \<Rightarrow> 'r \<Rightarrow> bool) \<Rightarrow> 'r tbl \<Rightarrow> (int \<times> 'r) list" where
  "tbl_select p t = filter (\<lambda>(k, c). p k c) (tbl_rows t)"

definition tbl_ok :: "'r tbl \<Rightarrow> bool" where
  "tbl_ok t \<longleftrightarrow> sorted_wrt (<) (tbl_ids t) \<and> 0 \<le> tbl_seq t \<and> tbl_seq t \<le> i64_max
     \<and> (\<forall>k \<in> set (tbl_ids t). 0 < k \<and> k \<le> tbl_seq t)"

lemma tbl_ok_empty [simp]: "tbl_ok tbl_empty"
  by (simp add: tbl_ok_def tbl_empty_def tbl_ids_def i64_max_def)

lemma tbl_empty_rows [simp]: "tbl_ids tbl_empty = []" "tbl_cols tbl_empty = []"
  "tbl_rows tbl_empty = []"
  by (simp_all add: tbl_empty_def tbl_ids_def tbl_cols_def)

lemma tbl_insert_Inr:
  assumes "tbl_insert E c t = Inr (k, t')"
  shows "tbl_rows t' = tbl_rows t @ [(k, c)]" and "tbl_seq t' = k"
    and "tbl_seq t < k" and "k \<le> i64_max"
    and "tbl_ids t' = tbl_ids t @ [k]" and "tbl_cols t' = tbl_cols t @ [c]"
  using assms by (auto simp: tbl_insert_def Let_def tbl_ids_def tbl_cols_def split: if_splits)

lemma tbl_insert_ok: "tbl_insert E c t = Inr (k, t') \<Longrightarrow> tbl_ok t \<Longrightarrow> tbl_ok t'"
  using tbl_insert_Inr [of E c t k t']
  by (auto simp: tbl_ok_def sorted_wrt_append)

lemma tbl_insert_fresh: "tbl_insert E c t = Inr (k, t') \<Longrightarrow> tbl_ok t \<Longrightarrow> k \<notin> set (tbl_ids t)"
  using tbl_insert_Inr(3) [of E c t k t'] by (auto simp: tbl_ok_def)

lemma tbl_update_ids [simp]: "tbl_ids (tbl_update p f t) = tbl_ids t"
  by (auto simp: tbl_ids_def tbl_update_def)

lemma tbl_update_seq [simp]: "tbl_seq (tbl_update p f t) = tbl_seq t"
  by (simp add: tbl_update_def)

lemma tbl_update_ok [simp]: "tbl_ok (tbl_update p f t) = tbl_ok t"
  by (simp add: tbl_ok_def)

lemma tbl_delete_ids:
  "set (tbl_ids (tbl_delete p t)) = {k. \<exists>c. (k, c) \<in> set (tbl_rows t) \<and> \<not> p k c}"
  by (force simp: tbl_ids_def tbl_delete_def)

lemma tbl_delete_seq [simp]: "tbl_seq (tbl_delete p t) = tbl_seq t"
  by (simp add: tbl_delete_def)

lemma tbl_delete_cols_subset: "set (tbl_cols (tbl_delete p t)) \<subseteq> set (tbl_cols t)"
  by (auto simp: tbl_cols_def tbl_delete_def)

lemma tbl_delete_ids_subset: "set (tbl_ids (tbl_delete p t)) \<subseteq> set (tbl_ids t)"
  by (auto simp: tbl_ids_def tbl_delete_def)

lemma sorted_wrt_map_filter: "sorted_wrt r (map f xs) \<Longrightarrow> sorted_wrt r (map f (filter p xs))"
  by (induction xs) auto

lemma tbl_delete_ok: "tbl_ok t \<Longrightarrow> tbl_ok (tbl_delete p t)"
  using tbl_delete_ids_subset [of p t]
  by (auto simp: tbl_ok_def tbl_ids_def tbl_delete_def intro: sorted_wrt_map_filter)

lemma tbl_delete_distinct:
  "distinct (map g (tbl_cols t)) \<Longrightarrow> distinct (map g (tbl_cols (tbl_delete p t)))"
  unfolding tbl_cols_def tbl_delete_def by (simp add: distinct_map_filter)

lemma tbl_ok_distinct: "tbl_ok t \<Longrightarrow> distinct (tbl_ids t)"
  by (simp add: tbl_ok_def strict_sorted_iff)

lemma tbl_row_unique:
  "tbl_ok t \<Longrightarrow> (k, c) \<in> set (tbl_rows t) \<Longrightarrow> (k, c') \<in> set (tbl_rows t) \<Longrightarrow> c = c'"
  using tbl_ok_distinct [of t] unfolding tbl_ids_def by (auto dest: eq_key_imp_eq_value)

lemma tbl_row_is_i64: "tbl_ok t \<Longrightarrow> (k, c) \<in> set (tbl_rows t) \<Longrightarrow> is_i64 k"
  by (force simp: tbl_ok_def is_i64_def i64_min_def tbl_ids_def)

lemma tbl_ids_is_i64: "tbl_ok t \<Longrightarrow> k \<in> set (tbl_ids t) \<Longrightarrow> is_i64 k"
  by (force simp: tbl_ok_def is_i64_def i64_min_def)

section \<open>The tables of the migrations\<close>

record track_info_cols =
  ti_artist :: string
  ti_track_name :: string
  ti_length_seconds :: int
  ti_bitrate_kbps :: "int option"
  ti_tempo_bpm :: "rat option"
  ti_addition_time :: string
  ti_listened_seconds :: int

record conflict_cols =
  cf_artist :: string
  cf_track_name :: string
  cf_length_seconds :: "int option"
  cf_bitrate_kbps :: "int option"
  cf_tempo_bpm :: "rat option"
  cf_addition_time :: string
  cf_conflict_reason :: string
  cf_same_track_id :: int

record source_cols =
  so_track_id :: int
  so_url :: string

record listen_cols =
  ls_track_id :: int
  ls_listened_from :: int
  ls_listened_to :: int

record assignment_cols =
  as_track_id :: int
  as_tag_id :: int

record meta_cols =
  me_track_id :: int
  me_key :: string
  me_value :: string

record daily_cols =
  da_date :: string
  da_track_id :: int
  da_listened :: int

record database =
  track_info :: "track_info_cols tbl"
  track_sources :: "source_cols tbl"
  listen_info :: "listen_cols tbl"
  tags :: "string tbl"
  tag_assignments :: "assignment_cols tbl"
  track_meta :: "meta_cols tbl"
  errors :: "string tbl"
  track_add_conflicts :: "conflict_cols tbl"
  listened_daily :: "daily_cols tbl"
  removed_tracks :: "string tbl"

definition empty_db :: database where
  "empty_db =
     \<lparr>track_info = tbl_empty, track_sources = tbl_empty, listen_info = tbl_empty,
      tags = tbl_empty, tag_assignments = tbl_empty, track_meta = tbl_empty,
      errors = tbl_empty, track_add_conflicts = tbl_empty, listened_daily = tbl_empty,
      removed_tracks = tbl_empty\<rparr>"

abbreviation has_track :: "database \<Rightarrow> int \<Rightarrow> bool" where
  "has_track d k \<equiv> k \<in> set (tbl_ids (track_info d))"

abbreviation has_tag :: "database \<Rightarrow> int \<Rightarrow> bool" where
  "has_tag d k \<equiv> k \<in> set (tbl_ids (tags d))"

abbreviation track_key :: "track_info_cols \<Rightarrow> string \<times> string" where
  "track_key c \<equiv> (ti_artist c, ti_track_name c)"

abbreviation source_key :: "source_cols \<Rightarrow> int \<times> string" where
  "source_key c \<equiv> (so_track_id c, so_url c)"

abbreviation assignment_key :: "assignment_cols \<Rightarrow> int \<times> int" where
  "assignment_key c \<equiv> (as_track_id c, as_tag_id c)"

abbreviation daily_key :: "daily_cols \<Rightarrow> string \<times> int" where
  "daily_key c \<equiv> (da_date c, da_track_id c)"

end
