(* ===== verification/Statements.thy ===== *)
theory Statements
  imports Database
begin

text \<open>
  The SQL statements of \<^verbatim>\<open>sqlite.rs\<close>, one function each, with the constraints the
  migrations declare (\<^verbatim>\<open>NOT NULL\<close>, \<^verbatim>\<open>UNIQUE\<close>, \<^verbatim>\<open>REFERENCES .. ON DELETE CASCADE\<close>, enforced
  because the connection sets the \<^verbatim>\<open>foreign_keys\<close> pragma), and the integrity invariant
  \<open>db_ok\<close> that every one of them keeps.
\<close>

named_theorems stmt_defs "definitions of the statements"

section \<open>Statements\<close>

subsection \<open>track\_info\<close>

definition new_track_cols :: "NewTrack \<Rightarrow> int \<Rightarrow> track_info_cols" where
  "new_track_cols t len =
     \<lparr>ti_artist = nt_artist t, ti_track_name = nt_track_name t, ti_length_seconds = len,
      ti_bitrate_kbps = nt_bitrate_kbps t, ti_tempo_bpm = nt_tempo_bpm t,
      ti_addition_time = nt_addition_time t, ti_listened_seconds = 0\<rparr>"

definition insert_track_row :: "engine \<Rightarrow> NewTrack \<Rightarrow> database \<Rightarrow> sqlx_error + (int \<times> database)"
  where [stmt_defs]:
  "insert_track_row E t d =
     (case nt_length_seconds t of
        None \<Rightarrow> Inl NotNullViolation
      | Some len \<Rightarrow>
          if (nt_artist t, nt_track_name t) \<in> set (map track_key (tbl_cols (track_info d)))
          then Inl UniqueViolation
          else and_then (tbl_insert E (new_track_cols t len) (track_info d))
                 (\<lambda>(k, tb). Inr (k, d\<lparr>track_info := tb\<rparr>)))"

text \<open>The \<^verbatim>\<open>SET\<close> clause: only the fields that are \<^verbatim>\<open>Some\<close>.\<close>

definition apply_update :: "TrackUpdate \<Rightarrow> track_info_cols \<Rightarrow> track_info_cols" where
  "apply_update u c =
     c\<lparr>ti_artist := (case tu_artist u of Some v \<Rightarrow> v | None \<Rightarrow> ti_artist c),
       ti_track_name := (case tu_track_name u of Some v \<Rightarrow> v | None \<Rightarrow> ti_track_name c),
       ti_length_seconds := (case tu_length_seconds u of Some v \<Rightarrow> v | None \<Rightarrow> ti_length_seconds c),
       ti_bitrate_kbps := (case tu_bitrate_kbps u of Some v \<Rightarrow> Some v | None \<Rightarrow> ti_bitrate_kbps c),
       ti_tempo_bpm := (case tu_tempo_bpm u of Some v \<Rightarrow> Some v | None \<Rightarrow> ti_tempo_bpm c),
       ti_addition_time := (case tu_addition_time u of Some v \<Rightarrow> v | None \<Rightarrow> ti_addition_time c)\<rparr>"

definition update_track_row :: "TrackUpdate \<Rightarrow> int \<Rightarrow> database \<Rightarrow> sqlx_error + database"
  where [stmt_defs]:
  "update_track_row u rid d =
     (let tb = tbl_update (\<lambda>k c. k = rid) (apply_update u) (track_info d) in
      if distinct (map track_key (tbl_cols tb)) then Inr (d\<lparr>track_info := tb\<rparr>)
      else Inl UniqueViolation)"

definition bump_listened :: "int \<Rightarrow> int \<Rightarrow> database \<Rightarrow> database" where [stmt_defs]:
  "bump_listened rid seconds d =
     d\<lparr>track_info := tbl_update (\<lambda>k c. k = rid)
          (\<lambda>c. c\<lparr>ti_listened_seconds := ti_listened_seconds c + seconds\<rparr>) (track_info d)\<rparr>"

text \<open>\<^verbatim>\<open>DELETE FROM track_info\<close>; \<^verbatim>\<open>ON DELETE CASCADE\<close> removes every row that refers to it.\<close>

definition delete_track_row :: "int \<Rightarrow> database \<Rightarrow> database" where [stmt_defs]:
  "delete_track_row rid d =
     d\<lparr>track_info := tbl_delete (\<lambda>k c. k = rid) (track_info d),
       track_sources := tbl_delete (\<lambda>k c. so_track_id c = rid) (track_sources d),
       listen_info := tbl_delete (\<lambda>k c. ls_track_id c = rid) (listen_info d),
       tag_assignments := tbl_delete (\<lambda>k c. as_track_id c = rid) (tag_assignments d),
       track_meta := tbl_delete (\<lambda>k c. me_track_id c = rid) (track_meta d),
       track_add_conflicts := tbl_delete (\<lambda>k c. cf_same_track_id c = rid) (track_add_conflicts d),
       listened_daily := tbl_delete (\<lambda>k c. da_track_id c = rid) (listened_daily d)\<rparr>"

subsection \<open>track\_sources\<close>

definition insert_source_row ::
  "engine \<Rightarrow> int \<Rightarrow> string \<Rightarrow> database \<Rightarrow> sqlx_error + (int \<times> database)" where [stmt_defs]:
  "insert_source_row E tid url d =
     (if (tid, url) \<in> set (map source_key (tbl_cols (track_sources d))) then Inl UniqueViolation
      else if \<not> has_track d tid then Inl ForeignKeyViolation
      else and_then (tbl_insert E \<lparr>so_track_id = tid, so_url = url\<rparr> (track_sources d))
             (\<lambda>(k, tb). Inr (k, d\<lparr>track_sources := tb\<rparr>)))"

definition delete_source_row :: "int \<Rightarrow> string \<Rightarrow> database \<Rightarrow> database" where [stmt_defs]:
  "delete_source_row tid url d =
     d\<lparr>track_sources := tbl_delete (\<lambda>k c. so_track_id c = tid \<and> so_url c = url) (track_sources d)\<rparr>"

subsection \<open>tags and tag\_assignments\<close>

definition insert_tag_row :: "engine \<Rightarrow> string \<Rightarrow> database \<Rightarrow> sqlx_error + (int \<times> database)"
  where [stmt_defs]:
  "insert_tag_row E name d =
     (if name \<in> set (tbl_cols (tags d)) then Inl UniqueViolation
      else and_then (tbl_insert E name (tags d)) (\<lambda>(k, tb). Inr (k, d\<lparr>tags := tb\<rparr>)))"

definition update_tag_row :: "int \<Rightarrow> string \<Rightarrow> database \<Rightarrow> sqlx_error + database" where [stmt_defs]:
  "update_tag_row rid name d =
     (let tb = tbl_update (\<lambda>k c. k = rid) (\<lambda>c. name) (tags d) in
      if distinct (tbl_cols tb) then Inr (d\<lparr>tags := tb\<rparr>) else Inl UniqueViolation)"

definition delete_tag_row :: "int \<Rightarrow> database \<Rightarrow> database" where [stmt_defs]:
  "delete_tag_row rid d =
     d\<lparr>tags := tbl_delete (\<lambda>k c. k = rid) (tags d),
       tag_assignments := tbl_delete (\<lambda>k c. as_tag_id c = rid) (tag_assignments d)\<rparr>"

text \<open>
  \<^verbatim>\<open>INSERT OR IGNORE\<close>: a row that is there already is skipped; \<^verbatim>\<open>OR IGNORE\<close> does not cover
  foreign keys.
\<close>

definition insert_assignment_row ::
  "engine \<Rightarrow> int \<times> int \<Rightarrow> database \<Rightarrow> sqlx_error + database" where [stmt_defs]:
  "insert_assignment_row E p d =
     (if p \<in> set (map assignment_key (tbl_cols (tag_assignments d))) then Inr d
      else if \<not> has_track d (fst p) \<or> \<not> has_tag d (snd p) then Inl ForeignKeyViolation
      else and_then (tbl_insert E \<lparr>as_track_id = fst p, as_tag_id = snd p\<rparr> (tag_assignments d))
             (\<lambda>(k, tb). Inr (d\<lparr>tag_assignments := tb\<rparr>)))"

definition delete_assignment_row :: "int \<Rightarrow> int \<Rightarrow> database \<Rightarrow> database" where [stmt_defs]:
  "delete_assignment_row tid gid d =
     d\<lparr>tag_assignments :=
         tbl_delete (\<lambda>k c. as_track_id c = tid \<and> as_tag_id c = gid) (tag_assignments d)\<rparr>"

subsection \<open>listen\_info, track\_meta, errors, track\_add\_conflicts, removed\_tracks\<close>

definition insert_listen_row ::
  "engine \<Rightarrow> int \<Rightarrow> int \<Rightarrow> int \<Rightarrow> database \<Rightarrow> sqlx_error + (int \<times> database)" where [stmt_defs]:
  "insert_listen_row E tid from to d =
     (if \<not> has_track d tid then Inl ForeignKeyViolation
      else and_then
             (tbl_insert E \<lparr>ls_track_id = tid, ls_listened_from = from, ls_listened_to = to\<rparr>
                (listen_info d))
             (\<lambda>(k, tb). Inr (k, d\<lparr>listen_info := tb\<rparr>)))"

definition insert_meta_row ::
  "engine \<Rightarrow> int \<Rightarrow> string \<Rightarrow> string \<Rightarrow> database \<Rightarrow> sqlx_error + (int \<times> database)" where [stmt_defs]:
  "insert_meta_row E tid key val d =
     (if \<not> has_track d tid then Inl ForeignKeyViolation
      else and_then
             (tbl_insert E \<lparr>me_track_id = tid, me_key = key, me_value = val\<rparr> (track_meta d))
             (\<lambda>(k, tb). Inr (k, d\<lparr>track_meta := tb\<rparr>)))"

definition update_meta_row :: "int \<Rightarrow> string \<Rightarrow> database \<Rightarrow> database" where [stmt_defs]:
  "update_meta_row rid val d =
     d\<lparr>track_meta := tbl_update (\<lambda>k c. k = rid) (\<lambda>c. c\<lparr>me_value := val\<rparr>) (track_meta d)\<rparr>"

definition delete_meta_row :: "int \<Rightarrow> database \<Rightarrow> database" where [stmt_defs]:
  "delete_meta_row rid d = d\<lparr>track_meta := tbl_delete (\<lambda>k c. k = rid) (track_meta d)\<rparr>"

definition insert_error_row :: "engine \<Rightarrow> string \<Rightarrow> database \<Rightarrow> sqlx_error + (int \<times> database)"
  where [stmt_defs]:
  "insert_error_row E txt d =
     and_then (tbl_insert E txt (errors d)) (\<lambda>(k, tb). Inr (k, d\<lparr>errors := tb\<rparr>))"

definition insert_conflict_row ::
  "engine \<Rightarrow> conflict_cols \<Rightarrow> database \<Rightarrow> sqlx_error + (int \<times> database)" where [stmt_defs]:
  "insert_conflict_row E c d =
     (if \<not> has_track d (cf_same_track_id c) then Inl ForeignKeyViolation
      else and_then (tbl_insert E c (track_add_conflicts d))
             (\<lambda>(k, tb). Inr (k, d\<lparr>track_add_conflicts := tb\<rparr>)))"

definition insert_removed_row :: "engine \<Rightarrow> string \<Rightarrow> database \<Rightarrow> sqlx_error + (int \<times> database)"
  where [stmt_defs]:
  "insert_removed_row E txt d =
     and_then (tbl_insert E txt (removed_tracks d)) (\<lambda>(k, tb). Inr (k, d\<lparr>removed_tracks := tb\<rparr>))"

subsection \<open>listened\_daily\<close>

text \<open>\<^verbatim>\<open>INSERT .. ON CONFLICT(date, track_id) DO UPDATE SET listened = listened + excluded.listened\<close>.\<close>

definition upsert_daily_row ::
  "engine \<Rightarrow> string \<Rightarrow> int \<Rightarrow> int \<Rightarrow> database \<Rightarrow> sqlx_error + database" where [stmt_defs]:
  "upsert_daily_row E date tid seconds d =
     (if (date, tid) \<in> set (map daily_key (tbl_cols (listened_daily d)))
      then Inr (d\<lparr>listened_daily :=
                   tbl_update (\<lambda>k c. daily_key c = (date, tid))
                     (\<lambda>c. c\<lparr>da_listened := da_listened c + seconds\<rparr>) (listened_daily d)\<rparr>)
      else if \<not> has_track d tid then Inl ForeignKeyViolation
      else and_then
             (tbl_insert E \<lparr>da_date = date, da_track_id = tid, da_listened = seconds\<rparr>
                (listened_daily d))
             (\<lambda>(k, tb). Inr (d\<lparr>listened_daily := tb\<rparr>)))"

section \<open>Integrity\<close>

text \<open>The seconds \<^verbatim>\<open>listened_daily\<close> holds for a track, over all days.\<close>

definition daily_total :: "database \<Rightarrow> int \<Rightarrow> int" where
  "daily_total d rid =
     sum_list (map da_listened (filter (\<lambda>c. da_track_id c = rid) (tbl_cols (listened_daily d))))"

definition tables_ok :: "database \<Rightarrow> bool" where
  "tables_ok d \<longleftrightarrow> tbl_ok (track_info d) \<and> tbl_ok (track_sources d) \<and> tbl_ok (listen_info d)
     \<and> tbl_ok (tags d) \<and> tbl_ok (tag_assignments d) \<and> tbl_ok (track_meta d) \<and> tbl_ok (errors d)
     \<and> tbl_ok (track_add_conflicts d) \<and> tbl_ok (listened_daily d) \<and> tbl_ok (removed_tracks d)"

text \<open>Every \<^verbatim>\<open>REFERENCES\<close> column names a row that exists.\<close>

definition refs_ok :: "database \<Rightarrow> bool" where
  "refs_ok d \<longleftrightarrow>
     so_track_id ` set (tbl_cols (track_sources d)) \<subseteq> set (tbl_ids (track_info d))
   \<and> ls_track_id ` set (tbl_cols (listen_info d)) \<subseteq> set (tbl_ids (track_info d))
   \<and> as_track_id ` set (tbl_cols (tag_assignments d)) \<subseteq> set (tbl_ids (track_info d))
   \<and> as_tag_id ` set (tbl_cols (tag_assignments d)) \<subseteq> set (tbl_ids (tags d))
   \<and> me_track_id ` set (tbl_cols (track_meta d)) \<subseteq> set (tbl_ids (track_info d))
   \<and> cf_same_track_id ` set (tbl_cols (track_add_conflicts d)) \<subseteq> set (tbl_ids (track_info d))
   \<and> da_track_id ` set (tbl_cols (listened_daily d)) \<subseteq> set (tbl_ids (track_info d))"

definition uniq_ok :: "database \<Rightarrow> bool" where
  "uniq_ok d \<longleftrightarrow> distinct (map track_key (tbl_cols (track_info d)))
     \<and> distinct (map source_key (tbl_cols (track_sources d)))
     \<and> distinct (tbl_cols (tags d))
     \<and> distinct (map assignment_key (tbl_cols (tag_assignments d)))
     \<and> distinct (map daily_key (tbl_cols (listened_daily d)))"

text \<open>The counter of a track is the sum of its daily records.\<close>

definition ledger_ok :: "database \<Rightarrow> bool" where
  "ledger_ok d \<longleftrightarrow>
     (\<forall>(k, c) \<in> set (tbl_rows (track_info d)). ti_listened_seconds c = daily_total d k)"

definition db_ok :: "database \<Rightarrow> bool" where
  "db_ok d \<longleftrightarrow> tables_ok d \<and> refs_ok d \<and> uniq_ok d \<and> ledger_ok d"

lemma db_okI: "tables_ok d \<Longrightarrow> refs_ok d \<Longrightarrow> uniq_ok d \<Longrightarrow> ledger_ok d \<Longrightarrow> db_ok d"
  by (simp add: db_ok_def)

lemma db_ok_empty: "db_ok empty_db"
  by (simp add: db_ok_def tables_ok_def refs_ok_def uniq_ok_def ledger_ok_def empty_db_def)

lemmas integrity_defs = db_ok_def tables_ok_def refs_ok_def uniq_ok_def

lemma daily_total_cong:
  "listened_daily d' = listened_daily d \<Longrightarrow> daily_total d' rid = daily_total d rid"
  by (simp add: daily_total_def)

lemma ledger_ok_frame:
  "listened_daily d' = listened_daily d \<Longrightarrow> track_info d' = track_info d
    \<Longrightarrow> ledger_ok d' = ledger_ok d"
  by (auto simp: ledger_ok_def daily_total_def)

end
