(* ===== verification/Integrity.thy ===== *)
theory Integrity
  imports Statements
begin

text \<open>
  Every statement keeps \<open>db_ok\<close>: rowids stay increasing and within the sequence, foreign keys
  resolve, \<^verbatim>\<open>UNIQUE\<close> columns stay distinct, and the listening counter of a track stays the sum
  of its daily records.
\<close>

named_theorems stmt_ok "every statement keeps db_ok"

section \<open>Sums over updated tables\<close>

lemma tbl_update_cols:
  "tbl_cols (tbl_update (\<lambda>k c. p c) f t) = map (\<lambda>c. if p c then f c else c) (tbl_cols t)"
  by (auto simp: tbl_cols_def tbl_update_def)

lemma tbl_update_rows:
  "set (tbl_rows (tbl_update p f t)) =
     (\<lambda>(k, c). if p k c then (k, f c) else (k, c)) ` set (tbl_rows t)"
  by (simp add: tbl_update_def)

lemma daily_total_new: "refs_ok d \<Longrightarrow> \<not> has_track d k \<Longrightarrow> daily_total d k = 0"
proof -
  assume "refs_ok d" "\<not> has_track d k"
  then have "filter (\<lambda>c. da_track_id c = k) (tbl_cols (listened_daily d)) = []"
    by (auto simp: refs_ok_def filter_empty_conv)
  then show ?thesis by (simp add: daily_total_def)
qed

text \<open>Adding to the one row a key selects adds to the sum of every group that row is in.\<close>

lemma sum_list_add_key:
  assumes "distinct (map g xs)" and "y \<in> g ` set xs"
    and "\<And>c. g c = y \<Longrightarrow> p c" and "\<And>c. g (f c) = g c" and "\<And>c. p (f c) = p c"
    and "\<And>c. v (f c) = v c + (n :: int)"
  shows "sum_list (map v (filter p (map (\<lambda>c. if g c = y then f c else c) xs))) =
         sum_list (map v (filter p xs)) + n"
  using assms(1,2)
proof (induction xs)
  case Nil
  then show ?case by simp
next
  case (Cons x xs)
  show ?case
  proof (cases "g x = y")
    case True
    then have "y \<notin> g ` set xs" using Cons.prems(1) by auto
    then have "map (\<lambda>c. if g c = y then f c else c) xs = xs" by (intro map_idI) auto
    with True assms(3,5,6) show ?thesis by simp
  next
    case False
    then have "y \<in> g ` set xs" using Cons.prems(2) by auto
    with False Cons show ?thesis by simp
  qed
qed

lemma sum_list_add_other:
  assumes "\<And>c. g c = y \<Longrightarrow> \<not> p c" and "\<And>c. p (f c) = p c"
  shows "filter p (map (\<lambda>c. if g c = y then f c else c) xs) = filter p xs"
  by (induction xs) (auto simp: assms)

section \<open>Statements that only add or remove rows\<close>

lemma insert_track_row_ok [stmt_ok]:
  assumes "db_ok d" and "insert_track_row E t d = Inr (k, d')"
  shows "db_ok d'"
proof -
  obtain len tb where len: "nt_length_seconds t = Some len"
    and new: "(nt_artist t, nt_track_name t) \<notin> set (map track_key (tbl_cols (track_info d)))"
    and ins: "tbl_insert E (new_track_cols t len) (track_info d) = Inr (k, tb)"
    and d': "d' = d\<lparr>track_info := tb\<rparr>"
    using assms(2)
    by (auto simp: insert_track_row_def and_then_Inr_iff split: option.splits if_splits)
  note ok = assms(1) [unfolded db_ok_def]
  have fresh: "\<not> has_track d k"
    using tbl_insert_fresh [OF ins] ok by (simp add: tables_ok_def)
  have "ledger_ok d'"
    using ok daily_total_new [OF _ fresh] tbl_insert_Inr(1) [OF ins]
    by (auto simp: ledger_ok_def d' daily_total_def new_track_cols_def)
  then show ?thesis
    using ok new tbl_insert_Inr(5,6) [OF ins] tbl_insert_ok [OF ins]
    by (auto simp: integrity_defs d' new_track_cols_def)
qed

lemma insert_source_row_ok [stmt_ok]:
  assumes "db_ok d" and "insert_source_row E tid url d = Inr (k, d')"
  shows "db_ok d'"
proof -
  obtain tb where ins: "tbl_insert E \<lparr>so_track_id = tid, so_url = url\<rparr> (track_sources d) = Inr (k, tb)"
    and d': "d' = d\<lparr>track_sources := tb\<rparr>" and tid: "has_track d tid"
    and new: "(tid, url) \<notin> set (map source_key (tbl_cols (track_sources d)))"
    using assms(2) by (auto simp: insert_source_row_def and_then_Inr_iff split: if_splits)
  show ?thesis
    using assms(1) tid new tbl_insert_Inr(6) [OF ins] tbl_insert_ok [OF ins]
      ledger_ok_frame [of d' d]
    by (auto simp: integrity_defs d')
qed

lemma insert_tag_row_ok [stmt_ok]:
  assumes "db_ok d" and "insert_tag_row E name d = Inr (k, d')"
  shows "db_ok d'"
proof -
  obtain tb where ins: "tbl_insert E name (tags d) = Inr (k, tb)"
    and d': "d' = d\<lparr>tags := tb\<rparr>" and new: "name \<notin> set (tbl_cols (tags d))"
    using assms(2) by (auto simp: insert_tag_row_def and_then_Inr_iff split: if_splits)
  show ?thesis
    using assms(1) new tbl_insert_Inr(5,6) [OF ins] tbl_insert_ok [OF ins] ledger_ok_frame [of d' d]
    by (auto simp: integrity_defs d')
qed

lemma insert_assignment_row_ok [stmt_ok]:
  assumes "db_ok d" and "insert_assignment_row E p d = Inr d'"
  shows "db_ok d'"
proof (cases "p \<in> set (map assignment_key (tbl_cols (tag_assignments d)))")
  case True
  with assms show ?thesis by (auto simp: insert_assignment_row_def)
next
  case False
  then obtain k tb where
    ins: "tbl_insert E \<lparr>as_track_id = fst p, as_tag_id = snd p\<rparr> (tag_assignments d) = Inr (k, tb)"
    and d': "d' = d\<lparr>tag_assignments := tb\<rparr>" and "has_track d (fst p)" and "has_tag d (snd p)"
    using assms(2) by (auto simp: insert_assignment_row_def and_then_Inr_iff split: if_splits)
  with False show ?thesis
    using assms(1) tbl_insert_Inr(6) [OF ins] tbl_insert_ok [OF ins] ledger_ok_frame [of d' d]
    by (auto simp: integrity_defs d')
qed

lemma insert_listen_row_ok [stmt_ok]:
  assumes "db_ok d" and "insert_listen_row E tid a b d = Inr (k, d')"
  shows "db_ok d'"
proof -
  obtain c tb where ins: "tbl_insert E c (listen_info d) = Inr (k, tb)" and "ls_track_id c = tid"
    and d': "d' = d\<lparr>listen_info := tb\<rparr>" and "has_track d tid"
    using assms(2)
    by (auto simp: insert_listen_row_def and_then_Inr_iff split: if_splits)
  then show ?thesis
    using assms(1) tbl_insert_Inr(6) [OF ins] tbl_insert_ok [OF ins] ledger_ok_frame [of d' d]
    by (auto simp: integrity_defs d')
qed

lemma insert_meta_row_ok [stmt_ok]:
  assumes "db_ok d" and "insert_meta_row E tid key v d = Inr (k, d')"
  shows "db_ok d'"
proof -
  obtain c tb where ins: "tbl_insert E c (track_meta d) = Inr (k, tb)" and "me_track_id c = tid"
    and d': "d' = d\<lparr>track_meta := tb\<rparr>" and "has_track d tid"
    using assms(2)
    by (auto simp: insert_meta_row_def and_then_Inr_iff split: if_splits)
  then show ?thesis
    using assms(1) tbl_insert_Inr(6) [OF ins] tbl_insert_ok [OF ins] ledger_ok_frame [of d' d]
    by (auto simp: integrity_defs d')
qed

lemma insert_error_row_ok [stmt_ok]:
  assumes "db_ok d" and "insert_error_row E txt d = Inr (k, d')"
  shows "db_ok d'"
proof -
  obtain tb where ins: "tbl_insert E txt (errors d) = Inr (k, tb)" and d': "d' = d\<lparr>errors := tb\<rparr>"
    using assms(2) by (auto simp: insert_error_row_def and_then_Inr_iff)
  then show ?thesis
    using assms(1) tbl_insert_ok [OF ins] ledger_ok_frame [of d' d] by (auto simp: integrity_defs)
qed

lemma insert_removed_row_ok [stmt_ok]:
  assumes "db_ok d" and "insert_removed_row E txt d = Inr (k, d')"
  shows "db_ok d'"
proof -
  obtain tb where ins: "tbl_insert E txt (removed_tracks d) = Inr (k, tb)"
    and d': "d' = d\<lparr>removed_tracks := tb\<rparr>"
    using assms(2) by (auto simp: insert_removed_row_def and_then_Inr_iff)
  then show ?thesis
    using assms(1) tbl_insert_ok [OF ins] ledger_ok_frame [of d' d] by (auto simp: integrity_defs)
qed

lemma insert_conflict_row_ok [stmt_ok]:
  assumes "db_ok d" and "insert_conflict_row E c d = Inr (k, d')"
  shows "db_ok d'"
proof -
  obtain tb where ins: "tbl_insert E c (track_add_conflicts d) = Inr (k, tb)"
    and d': "d' = d\<lparr>track_add_conflicts := tb\<rparr>" and "has_track d (cf_same_track_id c)"
    using assms(2) by (auto simp: insert_conflict_row_def and_then_Inr_iff split: if_splits)
  then show ?thesis
    using assms(1) tbl_insert_Inr(6) [OF ins] tbl_insert_ok [OF ins] ledger_ok_frame [of d' d]
    by (auto simp: integrity_defs d')
qed

section \<open>Cascading deletes\<close>

lemma tbl_delete_cols_iff:
  "c \<in> set (tbl_cols (tbl_delete (\<lambda>k c. p c) t)) \<longleftrightarrow> c \<in> set (tbl_cols t) \<and> \<not> p c"
  by (force simp: tbl_cols_def tbl_delete_def)

lemma tbl_delete_id_ids: "set (tbl_ids (tbl_delete (\<lambda>k c. k = rid) t)) = set (tbl_ids t) - {rid}"
  by (force simp: tbl_ids_def tbl_delete_def)

lemma filter_filter_other:
  "k \<noteq> rid \<Longrightarrow> filter (\<lambda>c. f c \<noteq> rid \<and> f c = k) xs = filter (\<lambda>c. f c = k) xs"
  by (rule filter_cong) auto

lemma tbl_delete_cols: "tbl_cols (tbl_delete (\<lambda>k c. p c) t) = filter (\<lambda>c. \<not> p c) (tbl_cols t)"
  by (auto simp: tbl_cols_def tbl_delete_def filter_map o_def split_def)

lemma delete_track_row_total: "k \<noteq> rid \<Longrightarrow> daily_total (delete_track_row rid d) k = daily_total d k"
  by (simp add: delete_track_row_def daily_total_def tbl_delete_cols filter_filter_other)

lemma delete_track_row_rows:
  "set (tbl_rows (track_info (delete_track_row rid d))) =
     {(k, c) \<in> set (tbl_rows (track_info d)). k \<noteq> rid}"
  by (auto simp: delete_track_row_def tbl_delete_def)

lemma delete_track_row_ledger: "ledger_ok d \<Longrightarrow> ledger_ok (delete_track_row rid d)"
  by (auto simp: ledger_ok_def delete_track_row_rows delete_track_row_total)

lemma delete_track_row_refs: "refs_ok d \<Longrightarrow> refs_ok (delete_track_row rid d)"
  by (auto simp: refs_ok_def delete_track_row_def tbl_delete_cols_iff tbl_delete_id_ids)

lemma delete_track_row_ok [stmt_ok]: "db_ok d \<Longrightarrow> db_ok (delete_track_row rid d)"
  by (intro db_okI delete_track_row_ledger delete_track_row_refs)
     (auto simp: db_ok_def tables_ok_def uniq_ok_def delete_track_row_def tbl_delete_ok
        tbl_delete_distinct)

lemma delete_tag_row_ok [stmt_ok]:
  assumes "db_ok d"
  shows "db_ok (delete_tag_row rid d)"
proof (rule db_okI)
  show "refs_ok (delete_tag_row rid d)"
    using assms
    by (auto simp: db_ok_def refs_ok_def delete_tag_row_def tbl_delete_cols_iff tbl_delete_id_ids)
  show "uniq_ok (delete_tag_row rid d)"
    using assms tbl_delete_distinct [of "\<lambda>x. x" "tags d"]
    by (auto simp: db_ok_def uniq_ok_def delete_tag_row_def tbl_delete_distinct)
qed (use assms ledger_ok_frame [of "delete_tag_row rid d" d]
      in \<open>auto simp: db_ok_def tables_ok_def delete_tag_row_def tbl_delete_ok\<close>)

lemma delete_source_row_ok [stmt_ok]:
  assumes "db_ok d"
  shows "db_ok (delete_source_row tid url d)"
proof (rule db_okI)
  show "refs_ok (delete_source_row tid url d)"
    using assms by (auto simp: db_ok_def refs_ok_def delete_source_row_def tbl_delete_cols_iff)
  show "uniq_ok (delete_source_row tid url d)"
    using assms by (simp add: db_ok_def uniq_ok_def delete_source_row_def tbl_delete_distinct)
qed (use assms ledger_ok_frame [of "delete_source_row tid url d" d]
      in \<open>auto simp: db_ok_def tables_ok_def delete_source_row_def tbl_delete_ok\<close>)

lemma delete_assignment_row_ok [stmt_ok]:
  assumes "db_ok d"
  shows "db_ok (delete_assignment_row tid gid d)"
proof (rule db_okI)
  show "refs_ok (delete_assignment_row tid gid d)"
    using assms by (auto simp: db_ok_def refs_ok_def delete_assignment_row_def tbl_delete_cols_iff)
  show "uniq_ok (delete_assignment_row tid gid d)"
    using assms by (simp add: db_ok_def uniq_ok_def delete_assignment_row_def tbl_delete_distinct)
qed (use assms ledger_ok_frame [of "delete_assignment_row tid gid d" d]
      in \<open>auto simp: db_ok_def tables_ok_def delete_assignment_row_def tbl_delete_ok\<close>)

lemma delete_meta_row_ok [stmt_ok]:
  assumes "db_ok d"
  shows "db_ok (delete_meta_row rid d)"
proof (rule db_okI)
  have "me_track_id ` set (tbl_cols (tbl_delete (\<lambda>k c. k = rid) (track_meta d)))
        \<subseteq> me_track_id ` set (tbl_cols (track_meta d))"
    by (intro image_mono tbl_delete_cols_subset)
  then show "refs_ok (delete_meta_row rid d)"
    using assms by (simp add: db_ok_def refs_ok_def delete_meta_row_def subset_trans)
qed (use assms ledger_ok_frame [of "delete_meta_row rid d" d]
      in \<open>auto simp: db_ok_def tables_ok_def uniq_ok_def delete_meta_row_def tbl_delete_ok\<close>)

section \<open>Updates\<close>

lemma update_meta_row_ok [stmt_ok]: "db_ok d \<Longrightarrow> db_ok (update_meta_row rid v d)"
proof -
  assume ok: "db_ok d"
  have "me_track_id ` set (tbl_cols (track_meta (update_meta_row rid v d)))
        = me_track_id ` set (tbl_cols (track_meta d))"
    by (force simp: update_meta_row_def tbl_update_def tbl_cols_def image_image)
  then show ?thesis
    using ok ledger_ok_frame [of "update_meta_row rid v d" d]
    by (simp add: integrity_defs) (simp add: update_meta_row_def)
qed

lemma update_tag_row_ok [stmt_ok]:
  assumes "db_ok d" and "update_tag_row rid name d = Inr d'"
  shows "db_ok d'"
proof -
  have d': "d' = d\<lparr>tags := tbl_update (\<lambda>k c. k = rid) (\<lambda>c. name) (tags d)\<rparr>"
    and "distinct (tbl_cols (tbl_update (\<lambda>k c. k = rid) (\<lambda>c. name) (tags d)))"
    using assms(2) by (auto simp: update_tag_row_def Let_def split: if_splits)
  then show ?thesis
    using assms(1) ledger_ok_frame [of d' d] by (simp add: integrity_defs)
qed

lemma update_track_row_ok [stmt_ok]:
  assumes "db_ok d" and "update_track_row u rid d = Inr d'"
  shows "db_ok d'"
proof -
  let ?tb = "tbl_update (\<lambda>k c. k = rid) (apply_update u) (track_info d)"
  have d': "d' = d\<lparr>track_info := ?tb\<rparr>" and u: "distinct (map track_key (tbl_cols ?tb))"
    using assms(2) by (auto simp: update_track_row_def Let_def split: if_splits)
  have "ledger_ok d'"
    using assms(1)
    by (auto simp: db_ok_def ledger_ok_def d' tbl_update_rows daily_total_def apply_update_def
        split: if_splits)
  with assms(1) u show ?thesis by (simp add: integrity_defs d')
qed

section \<open>Listening time\<close>

definition daily_add :: "string \<Rightarrow> int \<Rightarrow> int \<Rightarrow> database \<Rightarrow> database \<Rightarrow> bool" where
  "daily_add date tid n d d' \<longleftrightarrow>
     (\<forall>k. daily_total d' k = daily_total d k + (if k = tid then n else 0))"

lemma upsert_daily_total:
  assumes "uniq_ok d" and "upsert_daily_row E date tid n d = Inr d'"
  shows "daily_add date tid n d d'"
proof (cases "(date, tid) \<in> set (map daily_key (tbl_cols (listened_daily d)))")
  case True
  let ?f = "\<lambda>c. c\<lparr>da_listened := da_listened c + n\<rparr>"
  have d': "tbl_cols (listened_daily d') =
      map (\<lambda>c. if daily_key c = (date, tid) then ?f c else c) (tbl_cols (listened_daily d))"
    using assms(2) True by (auto simp: upsert_daily_row_def tbl_update_cols)
  have "daily_total d' k = daily_total d k + (if k = tid then n else 0)" for k
  proof (cases "k = tid")
    case True': True
    show ?thesis
      unfolding daily_total_def d'
      using sum_list_add_key [of daily_key "tbl_cols (listened_daily d)" "(date, tid)"
          "\<lambda>c. da_track_id c = k" ?f da_listened n] assms(1) True True'
      by (auto simp: uniq_ok_def)
  next
    case False
    have "filter (\<lambda>c. da_track_id c = k)
        (map (\<lambda>c. if daily_key c = (date, tid) then ?f c else c) (tbl_cols (listened_daily d)))
      = filter (\<lambda>c. da_track_id c = k) (tbl_cols (listened_daily d))"
      using False by (intro sum_list_add_other) auto
    with False show ?thesis unfolding daily_total_def d' by simp
  qed
  then show ?thesis by (simp add: daily_add_def)
next
  case False
  then obtain k c tb where ins: "tbl_insert E c (listened_daily d) = Inr (k, tb)"
    and "da_track_id c = tid" and "da_listened c = n" and "d' = d\<lparr>listened_daily := tb\<rparr>"
    using assms(2) by (auto simp: upsert_daily_row_def and_then_Inr_iff split: if_splits)
  then show ?thesis
    using tbl_insert_Inr(6) [OF ins] by (simp add: daily_add_def daily_total_def)
qed

lemma upsert_daily_frame:
  assumes "upsert_daily_row E date tid n d = Inr d'"
  shows "\<exists>tb. d' = d\<lparr>listened_daily := tb\<rparr>"
  using assms by (auto simp: upsert_daily_row_def and_then_Inr_iff split: if_splits)

lemma upsert_daily_other_ok:
  assumes "tables_ok d" "refs_ok d" "uniq_ok d" and "upsert_daily_row E date tid n d = Inr d'"
  shows "tables_ok d' \<and> refs_ok d' \<and> uniq_ok d'"
proof (cases "(date, tid) \<in> set (map daily_key (tbl_cols (listened_daily d)))")
  case True
  let ?f = "\<lambda>c. c\<lparr>da_listened := da_listened c + n\<rparr>"
  let ?tb = "tbl_update (\<lambda>k c. daily_key c = (date, tid)) ?f (listened_daily d)"
  have d': "d' = d\<lparr>listened_daily := ?tb\<rparr>" using assms(4) True by (simp add: upsert_daily_row_def)
  have "map daily_key (tbl_cols ?tb) = map daily_key (tbl_cols (listened_daily d))"
    by (simp add: tbl_update_cols)
  moreover have "map da_track_id (tbl_cols ?tb) = map da_track_id (tbl_cols (listened_daily d))"
    by (simp add: tbl_update_cols)
  then have "da_track_id ` set (tbl_cols ?tb) = da_track_id ` set (tbl_cols (listened_daily d))"
    by (metis set_map)
  ultimately show ?thesis
    using assms(1-3) by (simp add: tables_ok_def refs_ok_def uniq_ok_def d')
next
  case False
  then obtain k tb where ins: "tbl_insert E \<lparr>da_date = date, da_track_id = tid, da_listened = n\<rparr>
      (listened_daily d) = Inr (k, tb)" and "d' = d\<lparr>listened_daily := tb\<rparr>" and "has_track d tid"
    using assms(4) by (auto simp: upsert_daily_row_def and_then_Inr_iff split: if_splits)
  with False show ?thesis
    using assms(1-3) tbl_insert_Inr(6) [OF ins] tbl_insert_ok [OF ins]
    by (auto simp: tables_ok_def refs_ok_def uniq_ok_def)
qed

lemma bump_listened_ok:
  "tables_ok d \<and> refs_ok d \<and> uniq_ok d \<Longrightarrow>
   tables_ok (bump_listened tid n d) \<and> refs_ok (bump_listened tid n d) \<and> uniq_ok (bump_listened tid n d)"
proof -
  assume "tables_ok d \<and> refs_ok d \<and> uniq_ok d"
  moreover have "map track_key (tbl_cols (track_info (bump_listened tid n d)))
      = map track_key (tbl_cols (track_info d))"
    by (auto simp: bump_listened_def tbl_update_def tbl_cols_def)
  ultimately show ?thesis
    by (simp add: tables_ok_def refs_ok_def uniq_ok_def) (simp add: bump_listened_def)
qed

text \<open>The two statements of a listening record, together, keep the ledger.\<close>

lemma record_listen_ok [stmt_ok]:
  assumes "db_ok d" and "upsert_daily_row E date tid n (bump_listened tid n d) = Inr d'"
  shows "db_ok d'"
proof -
  let ?b = "bump_listened tid n d"
  have b: "tables_ok ?b" "refs_ok ?b" "uniq_ok ?b"
    using bump_listened_ok assms(1) by (auto simp: db_ok_def)
  have tot: "daily_total d' k = daily_total d k + (if k = tid then n else 0)" for k
    using upsert_daily_total [OF b(3) assms(2)] daily_total_cong [of ?b d k]
    by (simp add: daily_add_def bump_listened_def)
  have "track_info d' = track_info ?b" using upsert_daily_frame [OF assms(2)] by auto
  then have "ledger_ok d'"
    using assms(1)
    by (auto simp: db_ok_def ledger_ok_def tot bump_listened_def tbl_update_rows split: if_splits)
  with upsert_daily_other_ok [OF b assms(2)] show ?thesis by (simp add: db_ok_def)
qed

end
