(* ===== verification/Repository.thy ===== *)
theory Repository
  imports Integrity "HOL-Library.Char_ord" "HOL-Library.List_Lexorder"
begin

text \<open>
  \<^verbatim>\<open>SqliteRepository\<close> (\<^verbatim>\<open>src-tauri/src/db/sqlite.rs\<close>): every operation of \<^verbatim>\<open>AppRepository\<close>
  but the paged searches, which are in \<open>Track_Query\<close>. An operation takes the engine, its
  arguments and the committed database, and returns its result with the database it leaves. A
  transaction works on a copy: an error or a panic before the commit drops it.
\<close>

named_theorems repo_defs "definitions of the repository operations"

section \<open>Logging and transactions\<close>

definition log_error :: "engine \<Rightarrow> string \<Rightarrow> sqlx_error \<Rightarrow> database \<Rightarrow> database" where
  "log_error E ctx e d =
     (case eng_log_fault E of
        Some f \<Rightarrow> d
      | None \<Rightarrow>
          (case insert_error_row E (''['' @ ctx @ ''] '' @ eng_show_err E e) d of
             Inl f \<Rightarrow> d
           | Inr (k, d') \<Rightarrow> d'))"

definition try_log ::
  "engine \<Rightarrow> string \<Rightarrow> sqlx_error + 'a \<Rightarrow> database \<Rightarrow> (sqlx_error, 'a) rust \<times> database" where
  "try_log E ctx m d =
     (case m of Inr v \<Rightarrow> (Ok v, d) | Inl e \<Rightarrow> (Err e, log_error E ctx e d))"

text \<open>An operation whose only \<^verbatim>\<open>try_log\<close> is around its whole work.\<close>

definition logged ::
  "engine \<Rightarrow> string \<Rightarrow> sqlx_error + ('a \<times> database) \<Rightarrow> database
     \<Rightarrow> (sqlx_error, 'a) rust \<times> database" where
  "logged E ctx m d =
     (case m of Inr (v, d') \<Rightarrow> try_log E ctx (Inr v) d' | Inl e \<Rightarrow> try_log E ctx (Inl e) d)"

text \<open>A transaction with a \<^verbatim>\<open>try_log\<close> around each of its steps: the error knows its context.\<close>

definition in_ctx :: "string \<Rightarrow> sqlx_error + 'a \<Rightarrow> (string \<times> sqlx_error) + 'a" where
  "in_ctx ctx m = (case m of Inl e \<Rightarrow> Inl (ctx, e) | Inr v \<Rightarrow> Inr v)"

definition logged_steps ::
  "engine \<Rightarrow> (string \<times> sqlx_error) + ('a \<times> database) \<Rightarrow> database
     \<Rightarrow> (sqlx_error, 'a) rust \<times> database" where
  "logged_steps E m d =
     (case m of
        Inr (v, d') \<Rightarrow> (Ok v, d')
      | Inl (ctx, e) \<Rightarrow> (Err e, log_error E ctx e d))"

lemma in_ctx_Inr_iff [simp]: "in_ctx ctx m = Inr v \<longleftrightarrow> m = Inr v"
  by (auto simp: in_ctx_def split: sum.splits)

text \<open>\<open>m\<close> drops the rowid a statement returns; \<open>unit_result\<close> is a final \<^verbatim>\<open>.map(|_| ())\<close>.\<close>

definition no_rowid :: "sqlx_error + (int \<times> database) \<Rightarrow> sqlx_error + database" where
  "no_rowid m = and_then m (\<lambda>(k, d). Inr d)"

definition unit_result :: "sqlx_error + database \<Rightarrow> sqlx_error + (unit \<times> database)" where
  "unit_result m = and_then m (\<lambda>d. Inr ((), d))"

lemma no_rowid_Inr_iff: "no_rowid m = Inr d \<longleftrightarrow> (\<exists>k. m = Inr (k, d))"
  by (auto simp: no_rowid_def and_then_Inr_iff)

lemma unit_result_Inr_iff: "unit_result m = Inr (u, d) \<longleftrightarrow> m = Inr d"
  by (auto simp: unit_result_def and_then_Inr_iff)

section \<open>Tracks\<close>

definition add_track_unlogged ::
  "engine \<Rightarrow> NewTrack \<Rightarrow> database \<Rightarrow> sqlx_error + (int \<times> database)" where
  "add_track_unlogged E t d =
     and_then (exec E 0 (Inr ())) (\<lambda>_.
     and_then (exec E 1 (insert_track_row E t d)) (\<lambda>(track_id, d1).
     and_then
       (for_each (\<lambda>i url s. exec E i (no_rowid (insert_source_row E track_id url s))) 2
          (nt_sources t) d1) (\<lambda>d2.
     and_then (exec E (2 + length (nt_sources t)) (Inr ())) (\<lambda>_. Inr (track_id, d2)))))"

text \<open>The log context is formatted first, and \<^verbatim>\<open>t.sources[0]\<close> unwinds on an empty list.\<close>

definition add_track ::
  "engine \<Rightarrow> NewTrack \<Rightarrow> database \<Rightarrow> (sqlx_error, int) rust \<times> database" where [repo_defs]:
  "add_track E t d =
     (case nt_sources t of
        [] \<Rightarrow> (Panic, d)
      | url # urls \<Rightarrow>
          logged E (''add_track: '' @ nt_track_name t @ '', '' @ nt_artist t @ '', '' @ url)
            (add_track_unlogged E t d) d)"

definition sqlite_limit_variable_number :: nat where "sqlite_limit_variable_number = 1000"

definition tracks_batch_size :: nat where
  "tracks_batch_size = sqlite_limit_variable_number div 6"

definition pairs_batch_size :: nat where
  "pairs_batch_size = sqlite_limit_variable_number div 2"

text \<open>A multi-row \<^verbatim>\<open>INSERT\<close>: all rows or none; \<^verbatim>\<open>last_insert_rowid\<close> is that of the last row.\<close>

definition insert_track_rows ::
  "engine \<Rightarrow> NewTrack list \<Rightarrow> database \<Rightarrow> sqlx_error + (int \<times> database)" where
  "insert_track_rows E ts d =
     for_each (\<lambda>i t (last, s). insert_track_row E t s) 0 ts (0, d)"

definition insert_source_rows ::
  "engine \<Rightarrow> (int \<times> string) list \<Rightarrow> database \<Rightarrow> sqlx_error + database" where
  "insert_source_rows E ps d =
     for_each (\<lambda>i (tid, url) s. no_rowid (insert_source_row E tid url s)) 0 ps d"

text \<open>\<^verbatim>\<open>for i in (0..n).rev() { ids.push(last_id - i) }\<close>.\<close>

definition batch_ids :: "int \<Rightarrow> nat \<Rightarrow> int list" where
  "batch_ids last_id n = map (\<lambda>i. last_id - int i) (rev [0..<n])"

definition add_tracks_batch ::
  "engine \<Rightarrow> nat \<Rightarrow> NewTrack list \<Rightarrow> int list \<times> database
     \<Rightarrow> (string \<times> sqlx_error) + (int list \<times> database)" where
  "add_tracks_batch E i chunk s =
     and_then (in_ctx ''add_tracks: insert batch'' (exec E i (insert_track_rows E chunk (snd s))))
       (\<lambda>(last_id, d). Inr (fst s @ batch_ids last_id (length chunk), d))"

definition all_sources :: "NewTrack list \<Rightarrow> int list \<Rightarrow> (int \<times> string) list" where
  "all_sources ts ids =
     concat (map (\<lambda>(t, track_id). map (\<lambda>url. (track_id, url)) (nt_sources t)) (zip ts ids))"

definition add_tracks_steps ::
  "engine \<Rightarrow> NewTrack list \<Rightarrow> database \<Rightarrow> (string \<times> sqlx_error) + (int list \<times> database)" where
  "add_tracks_steps E ts d =
     (let tcs = chunks tracks_batch_size ts in
      and_then (in_ctx ''add_tracks: begin transaction'' (exec E 0 (Inr ()))) (\<lambda>_.
      and_then (for_each (add_tracks_batch E) 1 tcs ([], d)) (\<lambda>(ids, d1).
      let scs = chunks pairs_batch_size (all_sources ts ids) in
      and_then
        (for_each (\<lambda>i chunk s. in_ctx ''add_tracks: insert track_sources batch''
                                  (exec E i (insert_source_rows E chunk s)))
           (1 + length tcs) scs d1) (\<lambda>d2.
      and_then (in_ctx ''add_tracks: commit'' (exec E (1 + length tcs + length scs) (Inr ())))
        (\<lambda>_. Inr (ids, d2))))))"

definition add_tracks ::
  "engine \<Rightarrow> NewTrack list \<Rightarrow> database \<Rightarrow> (sqlx_error, int list) rust \<times> database" where [repo_defs]:
  "add_tracks E ts d = logged_steps E (add_tracks_steps E ts d) d"

text \<open>No column to set: no query is built.\<close>

definition update_track ::
  "engine \<Rightarrow> int \<Rightarrow> TrackUpdate \<Rightarrow> database \<Rightarrow> (sqlx_error, unit) rust \<times> database" where [repo_defs]:
  "update_track E rid u d =
     (if tu_artist u = None \<and> tu_track_name u = None \<and> tu_length_seconds u = None
         \<and> tu_bitrate_kbps u = None \<and> tu_tempo_bpm u = None \<and> tu_addition_time u = None
      then (Ok (), d)
      else logged E ''update_track'' (unit_result (exec E 0 (update_track_row u rid d))) d)"

text \<open>\<^verbatim>\<open>FromRow\<close>: ids become decimal strings.\<close>

definition track_of_row :: "int \<times> track_info_cols \<Rightarrow> TrackRow" where
  "track_of_row r =
     \<lparr>tr_id = bigint_try_from (fst r), tr_artist = ti_artist (snd r),
      tr_track_name = ti_track_name (snd r), tr_length_seconds = Some (ti_length_seconds (snd r)),
      tr_bitrate_kbps = ti_bitrate_kbps (snd r), tr_tempo_bpm = ti_tempo_bpm (snd r),
      tr_addition_time = ti_addition_time (snd r),
      tr_listened_seconds = ti_listened_seconds (snd r)\<rparr>"

text \<open>\<^verbatim>\<open>fetch_one\<close>: the first row, or \<^verbatim>\<open>RowNotFound\<close>.\<close>

definition fetch_track :: "int \<Rightarrow> database \<Rightarrow> sqlx_error + TrackRow" where
  "fetch_track rid d =
     (case tbl_select (\<lambda>k c. k = rid) (track_info d) of
        [] \<Rightarrow> Inl RowNotFound
      | r # rs \<Rightarrow> Inr (track_of_row r))"

definition get_track ::
  "engine \<Rightarrow> int \<Rightarrow> database \<Rightarrow> (sqlx_error, TrackRow) rust \<times> database" where [repo_defs]:
  "get_track E rid d = try_log E ''get_track'' (exec E 0 (fetch_track rid d)) d"

section \<open>Deleting a track\<close>

definition schema_version :: int where "schema_version = 5"

definition tags_of_track :: "int \<Rightarrow> database \<Rightarrow> (int \<times> string) list" where
  "tags_of_track tid d =
     tbl_select (\<lambda>k name. (tid, k) \<in> set (map assignment_key (tbl_cols (tag_assignments d)))) (tags d)"

definition archive_json :: "int \<Rightarrow> TrackRow \<Rightarrow> database \<Rightarrow> json" where
  "archive_json tid t d =
     JArr
       [JInt schema_version, JInt tid, JStr (tr_artist t), JStr (tr_track_name t),
        opt_json JInt (tr_length_seconds t), opt_json JInt (tr_bitrate_kbps t),
        opt_json JReal (tr_tempo_bpm t), JStr (tr_addition_time t), JInt (tr_listened_seconds t),
        JArr (map (\<lambda>(k, c). JStr (so_url c))
          (tbl_select (\<lambda>k c. so_track_id c = tid) (track_sources d))),
        JArr (map (\<lambda>(k, name). JArr [JInt k, JStr name]) (tags_of_track tid d)),
        JArr (map (\<lambda>(k, c). JArr [JStr (me_key c), JStr (me_value c)])
          (tbl_select (\<lambda>k c. me_track_id c = tid) (track_meta d))),
        JArr (map (\<lambda>c. JArr [JStr (da_date c), JInt (da_listened c)])
          (sort_key da_date
            (map snd (tbl_select (\<lambda>k c. da_track_id c = tid) (listened_daily d)))))]"

text \<open>
  Five reads, the archive row, the delete. \<^verbatim>\<open>track.id.to_i64()\<close> reads back the id the row was
  fetched by.
\<close>

definition delete_track_unlogged :: "engine \<Rightarrow> int \<Rightarrow> database \<Rightarrow> sqlx_error + database" where
  "delete_track_unlogged E tid d =
     and_then (exec E 0 (Inr ())) (\<lambda>_.
     and_then (exec E 1 (fetch_track tid d)) (\<lambda>track.
     and_then (exec E 2 (Inr ())) (\<lambda>_.
     and_then (exec E 3 (Inr ())) (\<lambda>_.
     and_then (exec E 4 (Inr ())) (\<lambda>_.
     and_then (exec E 5 (Inr ())) (\<lambda>_.
     and_then (exec E 6 (no_rowid
         (insert_removed_row E (eng_show_json E (archive_json tid track d)) d))) (\<lambda>d1.
     and_then (exec E 7 (Inr (delete_track_row tid d1))) (\<lambda>d2.
     and_then (exec E 8 (Inr ())) (\<lambda>_. Inr d2)))))))))"

definition delete_track ::
  "engine \<Rightarrow> int \<Rightarrow> database \<Rightarrow> (sqlx_error, unit) rust \<times> database" where [repo_defs]:
  "delete_track E tid d = logged E ''delete_track'' (unit_result (delete_track_unlogged E tid d)) d"

section \<open>Listen history\<close>

definition add_listen ::
  "engine \<Rightarrow> int \<Rightarrow> string \<Rightarrow> string \<Rightarrow> database \<Rightarrow> (sqlx_error, int) rust \<times> database"
  where [repo_defs]:
  "add_listen E tid from to d =
     (case parse_i64 from of
        Inl e \<Rightarrow> (Err (Protocol (''invalid listened_from: '' @ int_error_text e)), d)
      | Inr f \<Rightarrow>
          (case parse_i64 to of
             Inl e \<Rightarrow> (Err (Protocol (''invalid listened_to: '' @ int_error_text e)), d)
           | Inr t \<Rightarrow> logged E ''add_listen'' (exec E 0 (insert_listen_row E tid f t d)) d))"

definition listen_of_row :: "int \<times> listen_cols \<Rightarrow> ListenInfo" where
  "listen_of_row r =
     \<lparr>li_id = bigint_try_from (fst r), li_track_id = bigint_try_from (ls_track_id (snd r)),
      li_listened_from = ls_listened_from (snd r), li_listened_to = ls_listened_to (snd r)\<rparr>"

definition get_listens_for_track ::
  "engine \<Rightarrow> int \<Rightarrow> database \<Rightarrow> (sqlx_error, ListenInfo list) rust \<times> database" where [repo_defs]:
  "get_listens_for_track E tid d =
     try_log E ''get_listens_for_track''
       (exec E 0 (Inr (map listen_of_row (tbl_select (\<lambda>k c. ls_track_id c = tid) (listen_info d))))) d"

text \<open>\<open>today\<close> is the local date of the call, in the \<^verbatim>\<open>%d-%m-%Y\<close> format.\<close>

definition add_listened_seconds_steps ::
  "engine \<Rightarrow> string \<Rightarrow> int \<Rightarrow> int \<Rightarrow> database \<Rightarrow> (string \<times> sqlx_error) + (unit \<times> database)" where
  "add_listened_seconds_steps E today tid seconds d =
     and_then (in_ctx ''add_listened_seconds: begin transaction'' (exec E 0 (Inr ()))) (\<lambda>_.
     and_then (in_ctx ''add_listened_seconds: update track_info''
                 (exec E 1 (Inr (bump_listened tid seconds d)))) (\<lambda>d1.
     and_then (in_ctx ''add_listened_seconds: upsert listened_daily''
                 (exec E 2 (upsert_daily_row E today tid seconds d1))) (\<lambda>d2.
     and_then (in_ctx ''add_listened_seconds: commit'' (exec E 3 (Inr ()))) (\<lambda>_.
     Inr ((), d2)))))"

definition add_listened_seconds ::
  "engine \<Rightarrow> string \<Rightarrow> int \<Rightarrow> int \<Rightarrow> database \<Rightarrow> (sqlx_error, unit) rust \<times> database"
  where [repo_defs]:
  "add_listened_seconds E today tid seconds d =
     logged_steps E (add_listened_seconds_steps E today tid seconds d) d"

section \<open>Tags\<close>

definition add_tag ::
  "engine \<Rightarrow> string \<Rightarrow> database \<Rightarrow> (sqlx_error, int) rust \<times> database" where [repo_defs]:
  "add_tag E name d = logged E (''add_tag had name '' @ name) (exec E 0 (insert_tag_row E name d)) d"

definition edit_tag ::
  "engine \<Rightarrow> int \<Rightarrow> string \<Rightarrow> database \<Rightarrow> (sqlx_error, unit) rust \<times> database" where [repo_defs]:
  "edit_tag E rid name d =
     logged E ''edit_tag'' (unit_result (exec E 0 (update_tag_row rid name d))) d"

definition delete_tag ::
  "engine \<Rightarrow> int \<Rightarrow> database \<Rightarrow> (sqlx_error, unit) rust \<times> database" where [repo_defs]:
  "delete_tag E rid d =
     logged E ''delete_tag'' (unit_result (exec E 0 (Inr (delete_tag_row rid d)))) d"

definition tag_of_row :: "int \<times> string \<Rightarrow> Tag" where
  "tag_of_row r = \<lparr>tg_id = bigint_try_from (fst r), tg_tag_name = snd r\<rparr>"

definition get_all_tags ::
  "engine \<Rightarrow> database \<Rightarrow> (sqlx_error, Tag list) rust \<times> database" where [repo_defs]:
  "get_all_tags E d =
     try_log E ''get_all_tags'' (exec E 0 (Inr (map tag_of_row (tbl_rows (tags d))))) d"

definition get_tags ::
  "engine \<Rightarrow> string \<Rightarrow> database \<Rightarrow> (sqlx_error, Tag list) rust \<times> database" where [repo_defs]:
  "get_tags E pattern d =
     try_log E ''get_tags''
       (exec E 0 (Inr (map tag_of_row
          (tbl_select (\<lambda>k name. eng_like E (''%'' @ pattern @ ''%'') name) (tags d))))) d"

definition assign_tag ::
  "engine \<Rightarrow> int \<Rightarrow> int \<Rightarrow> database \<Rightarrow> (sqlx_error, unit) rust \<times> database" where [repo_defs]:
  "assign_tag E tid gid d =
     logged E ''assign_tag'' (unit_result (exec E 0 (insert_assignment_row E (tid, gid) d))) d"

definition remove_tag ::
  "engine \<Rightarrow> int \<Rightarrow> int \<Rightarrow> database \<Rightarrow> (sqlx_error, unit) rust \<times> database" where [repo_defs]:
  "remove_tag E tid gid d =
     logged E ''remove_tag'' (unit_result (exec E 0 (Inr (delete_assignment_row tid gid d)))) d"

definition get_tags_for_track ::
  "engine \<Rightarrow> int \<Rightarrow> database \<Rightarrow> (sqlx_error, Tag list) rust \<times> database" where [repo_defs]:
  "get_tags_for_track E tid d =
     try_log E ''get_tags_for_track'' (exec E 0 (Inr (map tag_of_row (tags_of_track tid d)))) d"

text \<open>All \<^verbatim>\<open>(track, tag)\<close> pairs in order; a track id is read even when it has no tags.\<close>

fun all_pairs :: "TagAssignment list \<Rightarrow> (sqlx_error, (int \<times> int) list) rust" where
  "all_pairs [] = Ok []"
| "all_pairs (a # as) =
     (case to_i64 (ta_track_id a) of
        Ok tid \<Rightarrow>
          (case to_i64_all (ta_tag_ids a) of
             Ok gids \<Rightarrow> map_ok (\<lambda>ps. map (\<lambda>g. (tid, g)) gids @ ps) (all_pairs as)
           | Err e \<Rightarrow> Err e
           | Panic \<Rightarrow> Panic)
      | Err e \<Rightarrow> Err e
      | Panic \<Rightarrow> Panic)"

definition insert_assignment_rows ::
  "engine \<Rightarrow> (int \<times> int) list \<Rightarrow> database \<Rightarrow> sqlx_error + database" where
  "insert_assignment_rows E ps d = for_each (\<lambda>i. insert_assignment_row E) 0 ps d"

definition assign_pairs ::
  "engine \<Rightarrow> (int \<times> int) list \<Rightarrow> database \<Rightarrow> sqlx_error + database" where
  "assign_pairs E ps d =
     (let cs = chunks pairs_batch_size ps in
      and_then (for_each (\<lambda>i chunk s. exec E i (insert_assignment_rows E chunk s)) 1 cs d) (\<lambda>d1.
      and_then (exec E (1 + length cs) (Inr ())) (\<lambda>_. Inr d1)))"

definition assign_tags ::
  "engine \<Rightarrow> TagAssignment list \<Rightarrow> database \<Rightarrow> (sqlx_error, unit) rust \<times> database"
  where [repo_defs]:
  "assign_tags E as d =
     (case exec E 0 (Inr ()) of
        Inl e \<Rightarrow> try_log E ''assign_tags'' (Inl e) d
      | Inr _ \<Rightarrow>
          (case all_pairs as of
             Ok ps \<Rightarrow> logged E ''assign_tags'' (unit_result (assign_pairs E ps d)) d
           | Err e \<Rightarrow> try_log E ''assign_tags'' (Inl e) d
           | Panic \<Rightarrow> (Panic, d)))"

section \<open>Track metadata\<close>

definition add_meta ::
  "engine \<Rightarrow> int \<Rightarrow> string \<Rightarrow> string \<Rightarrow> database \<Rightarrow> (sqlx_error, int) rust \<times> database"
  where [repo_defs]:
  "add_meta E tid key v d = logged E ''add_meta'' (exec E 0 (insert_meta_row E tid key v d)) d"

definition update_meta ::
  "engine \<Rightarrow> int \<Rightarrow> string \<Rightarrow> database \<Rightarrow> (sqlx_error, unit) rust \<times> database" where [repo_defs]:
  "update_meta E rid v d =
     logged E ''update_meta'' (unit_result (exec E 0 (Inr (update_meta_row rid v d)))) d"

definition delete_meta ::
  "engine \<Rightarrow> int \<Rightarrow> database \<Rightarrow> (sqlx_error, unit) rust \<times> database" where [repo_defs]:
  "delete_meta E rid d =
     logged E ''delete_meta'' (unit_result (exec E 0 (Inr (delete_meta_row rid d)))) d"

definition meta_of_row :: "int \<times> meta_cols \<Rightarrow> TrackMeta" where
  "meta_of_row r =
     \<lparr>tm_id = bigint_try_from (fst r), tm_track_id = bigint_try_from (me_track_id (snd r)),
      tm_key = me_key (snd r), tm_value = me_value (snd r)\<rparr>"

definition get_meta_for_track ::
  "engine \<Rightarrow> int \<Rightarrow> database \<Rightarrow> (sqlx_error, TrackMeta list) rust \<times> database" where [repo_defs]:
  "get_meta_for_track E tid d =
     try_log E ''get_meta_for_track''
       (exec E 0 (Inr (map meta_of_row (tbl_select (\<lambda>k c. me_track_id c = tid) (track_meta d))))) d"

section \<open>Track sources\<close>

definition add_track_source ::
  "engine \<Rightarrow> int \<Rightarrow> string \<Rightarrow> database \<Rightarrow> (sqlx_error, int) rust \<times> database" where [repo_defs]:
  "add_track_source E tid url d =
     logged E ''add_track_source'' (exec E 0 (insert_source_row E tid url d)) d"

definition remove_track_source ::
  "engine \<Rightarrow> int \<Rightarrow> string \<Rightarrow> database \<Rightarrow> (sqlx_error, unit) rust \<times> database" where [repo_defs]:
  "remove_track_source E tid url d =
     logged E ''remove_track_source'' (unit_result (exec E 0 (Inr (delete_source_row tid url d)))) d"

definition edit_track_source_steps ::
  "engine \<Rightarrow> int \<Rightarrow> string \<Rightarrow> string \<Rightarrow> database \<Rightarrow> (string \<times> sqlx_error) + (unit \<times> database)" where
  "edit_track_source_steps E tid old_url new_url d =
     and_then (in_ctx ''edit_track_source: begin transaction'' (exec E 0 (Inr ()))) (\<lambda>_.
     and_then (in_ctx ''edit_track_source: delete old url''
                 (exec E 1 (Inr (delete_source_row tid old_url d)))) (\<lambda>d1.
     and_then (in_ctx ''edit_track_source: insert new url''
                 (exec E 2 (no_rowid (insert_source_row E tid new_url d1)))) (\<lambda>d2.
     and_then (in_ctx ''edit_track_source: commit'' (exec E 3 (Inr ()))) (\<lambda>_. Inr ((), d2)))))"

definition edit_track_source ::
  "engine \<Rightarrow> int \<Rightarrow> string \<Rightarrow> string \<Rightarrow> database \<Rightarrow> (sqlx_error, unit) rust \<times> database"
  where [repo_defs]:
  "edit_track_source E tid old_url new_url d =
     logged_steps E (edit_track_source_steps E tid old_url new_url d) d"

definition source_of_row :: "int \<times> source_cols \<Rightarrow> TrackSource" where
  "source_of_row r =
     \<lparr>ts_id = bigint_try_from (fst r), ts_track_id = bigint_try_from (so_track_id (snd r)),
      ts_url = so_url (snd r)\<rparr>"

definition get_sources_for_track ::
  "engine \<Rightarrow> int \<Rightarrow> database \<Rightarrow> (sqlx_error, TrackSource list) rust \<times> database" where [repo_defs]:
  "get_sources_for_track E tid d =
     try_log E ''get_sources_for_track''
       (exec E 0 (Inr (map source_of_row (tbl_select (\<lambda>k c. so_track_id c = tid) (track_sources d))))) d"

section \<open>Errors and conflicts\<close>

text \<open>Not wrapped by \<^verbatim>\<open>try_log\<close>, so that a failing log write is not logged.\<close>

definition add_error ::
  "engine \<Rightarrow> NewError \<Rightarrow> database \<Rightarrow> (sqlx_error, string) rust \<times> database" where [repo_defs]:
  "add_error E e d =
     (case exec E 0 (insert_error_row E (ne_error_text e) d) of
        Inr (k, d') \<Rightarrow> (Ok (show_int k), d')
      | Inl err \<Rightarrow> (Err err, d))"

definition add_track_conflict ::
  "engine \<Rightarrow> NewTrackConflict \<Rightarrow> database \<Rightarrow> (sqlx_error, int) rust \<times> database" where [repo_defs]:
  "add_track_conflict E c d =
     (case to_i64 (nc_same_track_id c) of
        Ok same \<Rightarrow>
          logged E ''add_track_conflict''
            (exec E 0 (insert_conflict_row E
               \<lparr>cf_artist = nc_artist c, cf_track_name = nc_track_name c,
                cf_length_seconds = nc_length_seconds c, cf_bitrate_kbps = nc_bitrate_kbps c,
                cf_tempo_bpm = nc_tempo_bpm c, cf_addition_time = nc_addition_time c,
                cf_conflict_reason = nc_conflict_reason c, cf_same_track_id = same\<rparr> d)) d
      | Err e \<Rightarrow> (Err e, d)
      | Panic \<Rightarrow> (Panic, d))"

end
