(* ===== verification/Repository_Safety.thy ===== *)
theory Repository_Safety
  imports Repository
begin

text \<open>
  Every repository operation keeps \<open>db_ok\<close>, and one that does not return \<open>Ok\<close> leaves every
  table but \<^verbatim>\<open>errors\<close> as it was, whatever the engine does. One lemma per operation, from two
  lemmas about \<open>try_log\<close> and the statement lemmas of \<open>Integrity\<close>.
\<close>

named_theorems repo_safe "operations that keep the database sound and are atomic"

section \<open>Safe operations\<close>

definition same_data :: "database \<Rightarrow> database \<Rightarrow> bool" where
  "same_data d d' \<longleftrightarrow> d'\<lparr>errors := errors d\<rparr> = d"

lemma same_data_refl [simp]: "same_data d d"
  by (simp add: same_data_def)

lemma same_data_iff: "same_data d d' \<longleftrightarrow> (\<exists>tb. d' = d\<lparr>errors := tb\<rparr>)"
  by (cases d; cases d') (auto simp: same_data_def)

lemma same_data_trans: "same_data a b \<Longrightarrow> same_data b c \<Longrightarrow> same_data a c"
  by (auto simp: same_data_iff)

definition safe_op :: "(database \<Rightarrow> (sqlx_error, 'a) rust \<times> database) \<Rightarrow> bool" where
  "safe_op f \<longleftrightarrow>
     (\<forall>d r d'. db_ok d \<longrightarrow> f d = (r, d') \<longrightarrow>
        db_ok d' \<and> ((\<forall>v. r \<noteq> Ok v) \<longrightarrow> same_data d d'))"

lemma safe_opI:
  assumes "\<And>d v d'. db_ok d \<Longrightarrow> f d = (Ok v, d') \<Longrightarrow> db_ok d'"
    and "\<And>d e d'. db_ok d \<Longrightarrow> f d = (Err e, d') \<Longrightarrow> db_ok d' \<and> same_data d d'"
    and "\<And>d d'. db_ok d \<Longrightarrow> f d = (Panic, d') \<Longrightarrow> d' = d"
  shows "safe_op f"
  unfolding safe_op_def
proof (intro allI impI)
  fix d r d'
  assume ok: "db_ok d" and f: "f d = (r, d')"
  show "db_ok d' \<and> ((\<forall>v. r \<noteq> Ok v) \<longrightarrow> same_data d d')"
    using assms(1) [OF ok] assms(2) [OF ok] assms(3) [OF ok] f ok by (cases r) auto
qed

lemma safe_opD: "safe_op f \<Longrightarrow> db_ok d \<Longrightarrow> db_ok (snd (f d))"
  unfolding safe_op_def by (metis prod.collapse)

lemma safe_op_same: "safe_op f \<Longrightarrow> db_ok d \<Longrightarrow> \<forall>v. fst (f d) \<noteq> Ok v \<Longrightarrow> same_data d (snd (f d))"
  unfolding safe_op_def by (metis prod.collapse)

section \<open>Logging is safe\<close>

lemma log_error_cases:
  "log_error E ctx e d = d \<or>
   (\<exists>k. insert_error_row E (''['' @ ctx @ ''] '' @ eng_show_err E e) d = Inr (k, log_error E ctx e d))"
  by (auto simp: log_error_def split: option.splits sum.splits prod.splits)

lemma log_error_ok: "db_ok d \<Longrightarrow> db_ok (log_error E ctx e d)"
  using log_error_cases [of E ctx e d] insert_error_row_ok by metis

lemma log_error_same: "same_data d (log_error E ctx e d)"
proof -
  have "insert_error_row E t d = Inr (k, d') \<Longrightarrow> same_data d d'" for t k d'
    by (auto simp: insert_error_row_def and_then_Inr_iff same_data_iff)
  then show ?thesis using log_error_cases [of E ctx e d] same_data_refl by metis
qed

lemma try_log_safe: "safe_op (\<lambda>d. try_log E ctx (m d) d)"
  by (rule safe_opI)
     (auto simp: try_log_def log_error_ok log_error_same split: sum.splits)

lemma logged_safe:
  assumes "\<And>d v d'. db_ok d \<Longrightarrow> m d = Inr (v, d') \<Longrightarrow> db_ok d'"
  shows "safe_op (\<lambda>d. logged E ctx (m d) d)"
  by (rule safe_opI)
     (auto simp: logged_def try_log_def log_error_ok log_error_same dest: assms
       split: sum.splits prod.splits)

lemma logged_unit_safe:
  assumes "\<And>d d'. db_ok d \<Longrightarrow> m d = Inr d' \<Longrightarrow> db_ok d'"
  shows "safe_op (\<lambda>d. logged E ctx (unit_result (m d)) d)"
  by (rule logged_safe) (auto simp: unit_result_Inr_iff dest: assms)

lemma logged_steps_safe:
  assumes "\<And>d v d'. db_ok d \<Longrightarrow> m d = Inr (v, d') \<Longrightarrow> db_ok d'"
  shows "safe_op (\<lambda>d. logged_steps E (m d) d)"
  by (rule safe_opI)
     (auto simp: logged_steps_def log_error_ok log_error_same dest: assms
       split: sum.splits prod.splits)

lemma safe_op_const: "(\<And>v. r \<noteq> Ok v) \<Longrightarrow> safe_op (\<lambda>d. (r, d))"
  by (auto simp: safe_op_def)

lemma safe_op_pure: "safe_op (\<lambda>d. (r, d))"
  by (auto simp: safe_op_def)

lemma safe_op_if: "safe_op f \<Longrightarrow> safe_op g \<Longrightarrow> safe_op (\<lambda>d. if b then f d else g d)"
  by (cases b) simp_all

lemmas inr_simps = and_then_Inr_iff exec_Inr_iff no_rowid_Inr_iff unit_result_Inr_iff

section \<open>Loops of inserts\<close>

lemma insert_sources_ok:
  assumes "db_ok d"
    and "for_each (\<lambda>i url s. exec E i (no_rowid (insert_source_row E tid url s))) j urls d = Inr d'"
  shows "db_ok d'"
  using for_each_invariant [of urls db_ok, OF _ assms]
  by (auto simp: inr_simps dest: insert_source_row_ok)

lemma insert_source_rows_ok: "db_ok d \<Longrightarrow> insert_source_rows E ps d = Inr d' \<Longrightarrow> db_ok d'"
  unfolding insert_source_rows_def
  by (rule for_each_invariant [of ps db_ok])
     (auto simp: inr_simps split: prod.splits dest: insert_source_row_ok)

lemma insert_assignment_rows_ok: "db_ok d \<Longrightarrow> insert_assignment_rows E ps d = Inr d' \<Longrightarrow> db_ok d'"
  unfolding insert_assignment_rows_def
  by (rule for_each_invariant [of ps db_ok]) (auto dest: insert_assignment_row_ok)

lemma insert_track_rows_ok:
  assumes "db_ok d" and "insert_track_rows E ts d = Inr (k, d')"
  shows "db_ok d'"
proof -
  have "db_ok (snd (k, d'))"
    by (rule for_each_invariant [OF _ _ assms(2) [unfolded insert_track_rows_def],
          of "\<lambda>s. db_ok (snd s)"])
       (use assms(1) in \<open>auto dest: insert_track_row_ok\<close>)
  then show ?thesis by simp
qed

lemma add_track_unlogged_ok:
  assumes "db_ok d" and "add_track_unlogged E t d = Inr (k, d')"
  shows "db_ok d'"
proof -
  obtain d1 where "insert_track_row E t d = Inr (k, d1)"
    and "for_each (\<lambda>i url s. exec E i (no_rowid (insert_source_row E k url s))) 2
          (nt_sources t) d1 = Inr d'"
    using assms(2) by (auto simp: add_track_unlogged_def inr_simps)
  then show ?thesis using assms(1) insert_track_row_ok insert_sources_ok by blast
qed

lemma add_tracks_batch_ok:
  "db_ok (snd s) \<Longrightarrow> add_tracks_batch E i chunk s = Inr s' \<Longrightarrow> db_ok (snd s')"
  by (auto simp: add_tracks_batch_def inr_simps split: prod.splits dest: insert_track_rows_ok)

lemma add_tracks_steps_ok: 
  assumes "db_ok d" and "add_tracks_steps E ts d = Inr (ids, d')"
  shows "db_ok d'"
proof -
  obtain d1 where 1: "for_each (add_tracks_batch E) 1 (chunks tracks_batch_size ts) ([], d) = Inr (ids, d1)"
    and 2: "for_each (\<lambda>i chunk s. in_ctx ''add_tracks: insert track_sources batch''
                                  (exec E i (insert_source_rows E chunk s)))
           (1 + length (chunks tracks_batch_size ts))
           (chunks pairs_batch_size (all_sources ts ids)) d1 = Inr d'"
    using assms(2) by (auto simp: add_tracks_steps_def Let_def inr_simps)
  have "db_ok (snd (ids, d1))"
    by (rule for_each_invariant [OF _ _ 1, of "\<lambda>s. db_ok (snd s)"])
       (use assms(1) in \<open>auto dest: add_tracks_batch_ok\<close>)
  then show ?thesis
    by (intro for_each_invariant [OF _ _ 2, of db_ok])
       (auto simp: inr_simps dest: insert_source_rows_ok)
qed

lemma delete_track_unlogged_ok: "db_ok d \<Longrightarrow> delete_track_unlogged E tid d = Inr d' \<Longrightarrow> db_ok d'"
  by (auto simp: delete_track_unlogged_def inr_simps intro: delete_track_row_ok
      dest: insert_removed_row_ok)

lemma assign_pairs_ok:
  assumes "db_ok d" and "assign_pairs E ps d = Inr d'"
  shows "db_ok d'"
proof -
  have "for_each (\<lambda>i chunk s. exec E i (insert_assignment_rows E chunk s)) 1
      (chunks pairs_batch_size ps) d = Inr d'"
    using assms(2) by (auto simp: assign_pairs_def Let_def inr_simps)
  then show ?thesis
    by (rule for_each_invariant [of _ db_ok, rotated 2])
       (use assms(1) in \<open>auto simp: inr_simps dest: insert_assignment_rows_ok\<close>)
qed

section \<open>Every operation is safe\<close>

lemma add_track_safe [repo_safe]: "safe_op (add_track E t)"
  unfolding add_track_def
  by (cases "nt_sources t") (auto intro!: safe_op_pure logged_safe dest: add_track_unlogged_ok)

lemma add_tracks_safe [repo_safe]: "safe_op (add_tracks E ts)"
  unfolding add_tracks_def by (rule logged_steps_safe) (rule add_tracks_steps_ok)

lemma update_track_safe [repo_safe]: "safe_op (update_track E rid u)"
  unfolding update_track_def
  by (intro safe_op_if safe_op_pure logged_unit_safe) (auto simp: inr_simps dest: update_track_row_ok)

lemma delete_track_safe [repo_safe]: "safe_op (delete_track E tid)"
  unfolding delete_track_def by (rule logged_unit_safe) (rule delete_track_unlogged_ok)

lemma add_listen_safe [repo_safe]: "safe_op (add_listen E tid from to)"
  unfolding add_listen_def
  by (cases "parse_i64 from"; cases "parse_i64 to")
     (auto intro!: safe_op_pure logged_safe simp: inr_simps dest: insert_listen_row_ok)

lemma add_listened_seconds_safe [repo_safe]: "safe_op (add_listened_seconds E today tid n)"
  unfolding add_listened_seconds_def
  by (rule logged_steps_safe)
     (auto simp: add_listened_seconds_steps_def inr_simps dest: record_listen_ok)

lemma add_tag_safe [repo_safe]: "safe_op (add_tag E name)"
  unfolding add_tag_def by (rule logged_safe) (auto simp: inr_simps dest: insert_tag_row_ok)

lemma edit_tag_safe [repo_safe]: "safe_op (edit_tag E rid name)"
  unfolding edit_tag_def by (rule logged_unit_safe) (auto simp: inr_simps dest: update_tag_row_ok)

lemma delete_tag_safe [repo_safe]: "safe_op (delete_tag E rid)"
  unfolding delete_tag_def by (rule logged_unit_safe) (auto simp: inr_simps delete_tag_row_ok)

lemma assign_tag_safe [repo_safe]: "safe_op (assign_tag E tid gid)"
  unfolding assign_tag_def
  by (rule logged_unit_safe) (auto simp: inr_simps dest: insert_assignment_row_ok)

lemma remove_tag_safe [repo_safe]: "safe_op (remove_tag E tid gid)"
  unfolding remove_tag_def
  by (rule logged_unit_safe) (auto simp: inr_simps delete_assignment_row_ok)

lemma all_pairs_not_Err [simp]: "all_pairs as \<noteq> Err e"
  by (induction as) (auto simp: map_ok_iff split: rust.splits)

lemma assign_tags_safe [repo_safe]: "safe_op (assign_tags E as)"
proof (cases "exec E 0 (Inr ()) :: sqlx_error + unit")
  case (Inl e)
  then show ?thesis by (simp add: assign_tags_def [abs_def] try_log_safe)
next
  case (Inr u)
  have "safe_op (\<lambda>d. logged E ''assign_tags'' (unit_result (assign_pairs E ps d)) d)" for ps
    by (rule logged_unit_safe) (rule assign_pairs_ok)
  with Inr show ?thesis
    by (cases "all_pairs as") (simp_all add: assign_tags_def [abs_def] safe_op_pure)
qed

lemma add_meta_safe [repo_safe]: "safe_op (add_meta E tid key v)"
  unfolding add_meta_def by (rule logged_safe) (auto simp: inr_simps dest: insert_meta_row_ok)

lemma update_meta_safe [repo_safe]: "safe_op (update_meta E rid v)"
  unfolding update_meta_def by (rule logged_unit_safe) (auto simp: inr_simps update_meta_row_ok)

lemma delete_meta_safe [repo_safe]: "safe_op (delete_meta E rid)"
  unfolding delete_meta_def by (rule logged_unit_safe) (auto simp: inr_simps delete_meta_row_ok)

lemma add_track_source_safe [repo_safe]: "safe_op (add_track_source E tid url)"
  unfolding add_track_source_def
  by (rule logged_safe) (auto simp: inr_simps dest: insert_source_row_ok)

lemma remove_track_source_safe [repo_safe]: "safe_op (remove_track_source E tid url)"
  unfolding remove_track_source_def
  by (rule logged_unit_safe) (auto simp: inr_simps delete_source_row_ok)

lemma edit_track_source_safe [repo_safe]: "safe_op (edit_track_source E tid old new)"
  unfolding edit_track_source_def
  by (rule logged_steps_safe)
     (auto simp: edit_track_source_steps_def inr_simps dest!: insert_source_row_ok [rotated]
       intro: delete_source_row_ok)

lemma add_error_safe [repo_safe]: "safe_op (add_error E e)"
  unfolding add_error_def
  by (rule safe_opI)
     (auto simp: inr_simps dest: insert_error_row_ok split: sum.splits prod.splits)

lemma add_track_conflict_safe [repo_safe]: "safe_op (add_track_conflict E c)"
  unfolding add_track_conflict_def
  by (cases "to_i64 (nc_same_track_id c) :: (sqlx_error, int) rust")
     (auto intro!: safe_op_pure logged_safe simp: inr_simps dest: insert_conflict_row_ok)

lemma reads_safe [repo_safe]:
  "safe_op (get_track E rid)" "safe_op (get_listens_for_track E tid)" "safe_op (get_all_tags E)"
  "safe_op (get_tags E pat)" "safe_op (get_tags_for_track E tid)" "safe_op (get_meta_for_track E tid)"
  "safe_op (get_sources_for_track E tid)"
  unfolding get_track_def get_listens_for_track_def get_all_tags_def get_tags_def
    get_tags_for_track_def get_meta_for_track_def get_sources_for_track_def
  by (rule try_log_safe)+

end
