(* ===== verification/Track_Query.thy ===== *)
theory Track_Query
  imports Repository_Safety
begin

text \<open>
  The paged searches of \<^verbatim>\<open>sqlite.rs\<close>. \<^verbatim>\<open>get_tracks\<close> assembles the text of a query and the list
  of its bind values; the model builds the same text and the same list, and what the engine
  answers is a parameter. \<^verbatim>\<open>get_tracks_filtered\<close> assembles a sea-query statement; the model
  builds its conditions and evaluates them on the tables. \<^verbatim>\<open>get_tracks_with_sources\<close> joins the
  sources to a page through a hash map.
\<close>

section \<open>The query text of get\_tracks\<close>

datatype BindVal = BInt int | BFloat rat | BText string

datatype TagFilter = Any "int list" | All "int list"

record scan =
  sn_conditions :: "string list"
  sn_binds :: "BindVal list"
  sn_tags :: "TagFilter option"

definition allowed_columns :: "string list" where
  "allowed_columns =
     [''id'', ''artist'', ''track_name'', ''length_seconds'', ''bitrate_kbps'', ''tempo_bpm'',
      ''addition_time'']"

fun join :: "string \<Rightarrow> string list \<Rightarrow> string" where
  "join sep [] = []"
| "join sep [x] = x"
| "join sep (x # y # xs) = x @ sep @ join sep (y # xs)"

definition question_marks :: "nat \<Rightarrow> string" where
  "question_marks n = join '', '' (replicate n ''?'')"

definition add_condition :: "string \<Rightarrow> BindVal list \<Rightarrow> scan \<Rightarrow> scan" where
  "add_condition c bs s =
     s\<lparr>sn_conditions := sn_conditions s @ [c], sn_binds := sn_binds s @ bs\<rparr>"

definition quoted :: "string \<Rightarrow> string" where
  "quoted s = CHR 0x27 # s @ [CHR 0x27]"

fun scan_tag_param :: "scan \<Rightarrow> SearchParam \<Rightarrow> (sqlx_error, scan) rust" where
  "scan_tag_param s (TagsIn ids) =
     (if ids = [] then Ok (add_condition ''1 = 0'' [] s)
      else map_ok (\<lambda>ns. s\<lparr>sn_tags := Some (Any ns)\<rparr>) (to_i64_all ids))"
| "scan_tag_param s (TagsAll ids) =
     (if ids = [] then Ok (add_condition ''1 = 0'' [] s)
      else map_ok (\<lambda>ns. s\<lparr>sn_tags := Some (All ns)\<rparr>) (to_i64_all ids))"
| "scan_tag_param s p =
     Err (Protocol (''get_tracks: '' @ quoted ''tags'' @ '' column only supports TagsIn/TagsAll criteria''))"

fun scan_column_param :: "string \<Rightarrow> scan \<Rightarrow> SearchParam \<Rightarrow> (sqlx_error, scan) rust" where
  "scan_column_param col s (NumericComparison opr v) =
     Ok (add_condition (''ti.'' @ col @ '' '' @ as_sql opr @ '' ?'') [BFloat v] s)"
| "scan_column_param col s (NumericBetween mn mx) =
     Ok (add_condition (''ti.'' @ col @ '' BETWEEN ? AND ?'') [BFloat mn, BFloat mx] s)"
| "scan_column_param col s (TextLike pattern cs) =
     Ok (add_condition (''ti.'' @ col @ '' LIKE ?'') [BText pattern] s)"
| "scan_column_param col s (TextIn vs) =
     (if vs = [] then Ok (add_condition ''1 = 0'' [] s)
      else Ok (add_condition (''ti.'' @ col @ '' IN ('' @ question_marks (length vs) @ '')'')
                 (map BText vs) s))"
| "scan_column_param col s (NullCheck is_null) =
     Ok (add_condition (''ti.'' @ col @ (if is_null then '' IS NULL'' else '' IS NOT NULL'')) [] s)"
| "scan_column_param col s p =
     Err (Protocol (''get_tracks: TagsIn/TagsAll are only valid for column '' @ quoted ''tags''))"

fun fold_rust :: "('s \<Rightarrow> 'x \<Rightarrow> ('e, 's) rust) \<Rightarrow> 's \<Rightarrow> 'x list \<Rightarrow> ('e, 's) rust" where
  "fold_rust f s [] = Ok s"
| "fold_rust f s (x # xs) =
     (case f s x of Ok s' \<Rightarrow> fold_rust f s' xs | Err e \<Rightarrow> Err e | Panic \<Rightarrow> Panic)"

definition scan_criterion :: "scan \<Rightarrow> SearchCriteria \<Rightarrow> (sqlx_error, scan) rust" where
  "scan_criterion s sc =
     (let col = sc_column_name sc in
      if col = ''tags'' then fold_rust scan_tag_param s (sc_criteria sc)
      else if col \<notin> set allowed_columns
      then Err (Protocol (''get_tracks: unknown column '' @ quoted col))
      else fold_rust (scan_column_param col) s (sc_criteria sc))"

definition empty_scan :: scan where
  "empty_scan = \<lparr>sn_conditions = [], sn_binds = [], sn_tags = None\<rparr>"

definition scan_criteria :: "SearchCriteria list option \<Rightarrow> (sqlx_error, scan) rust" where
  "scan_criteria criteria =
     (case criteria of None \<Rightarrow> Ok empty_scan | Some cs \<Rightarrow> fold_rust scan_criterion empty_scan cs)"


text \<open>The three shapes of the base query, then the two pages around the cursor.\<close>

definition base_sql :: "scan \<Rightarrow> string" where
  "base_sql s =
     (case sn_tags s of
        None \<Rightarrow>
          if sn_conditions s = [] then ''SELECT * FROM track_info''
          else ''SELECT ti.* FROM track_info ti WHERE '' @ join '' AND '' (sn_conditions s)
      | Some (Any ids) \<Rightarrow>
          ''SELECT ti.* FROM (SELECT DISTINCT track_id FROM tag_assignments WHERE tag_id IN (''
          @ question_marks (length ids)
          @ '') AND track_id >= ?) ta INNER JOIN track_info ti ON ti.id = ta.track_id WHERE ''
          @ join '' AND '' (sn_conditions s) @ '' ORDER BY ti.id ASC LIMIT ?''
      | Some (All ids) \<Rightarrow>
          ''SELECT ti.* FROM (SELECT track_id FROM tag_assignments WHERE tag_id IN (''
          @ question_marks (length ids)
          @ '') AND track_id >= ? GROUP BY track_id HAVING COUNT(DISTINCT tag_id) = ?) ta ''
          @ ''INNER JOIN track_info ti ON ti.id = ta.track_id WHERE ''
          @ join '' AND '' (sn_conditions s) @ '' ORDER BY ti.id ASC LIMIT ?'')"

definition tracks_sql :: "scan \<Rightarrow> string" where
  "tracks_sql s =
     ''with s1 as ('' @ base_sql s
     @ ''),  oPrior as (select * from s1 where id < ? order by id desc limit ?), ''
     @ ''oAfter as (select * from s1 where id >= ? order by id asc limit ?) ''
     @ ''select * from oPrior union all  select * from oAfter order by id asc''"

definition tracks_binds :: "scan \<Rightarrow> int \<Rightarrow> int \<Rightarrow> BindVal list" where
  "tracks_binds s after limit =
     (case sn_tags s of
        None \<Rightarrow> []
      | Some (Any ids) \<Rightarrow> map BInt ids @ [BInt after]
      | Some (All ids) \<Rightarrow> map BInt ids @ [BInt after, BInt (int (length ids))])
     @ sn_binds s @ [BInt after, BInt limit, BInt after, BInt limit]"

definition cursor_start :: "int option \<Rightarrow> int" where
  "cursor_start cursor = (case cursor of Some c \<Rightarrow> c | None \<Rightarrow> 0)"

text \<open>\<open>q\<close> is the engine's answer to a query text with its bind values.\<close>

definition get_tracks ::
  "engine \<Rightarrow> (string \<Rightarrow> BindVal list \<Rightarrow> database \<Rightarrow> sqlx_error + TrackRow list) \<Rightarrow> int option
     \<Rightarrow> SearchCriteria list option \<Rightarrow> int \<Rightarrow> database
     \<Rightarrow> (sqlx_error, TrackRow list) rust \<times> database" where
  "get_tracks E q cursor criteria limit d =
     (case scan_criteria criteria of
        Err e \<Rightarrow> (Err e, d)
      | Panic \<Rightarrow> (Panic, d)
      | Ok s \<Rightarrow>
          try_log E ''get_tracks''
            (exec E 0 (q (tracks_sql s) (tracks_binds s (cursor_start cursor) limit) d)) d)"

section \<open>Joining the sources to a page\<close>

text \<open>\<^verbatim>\<open>sources_map.entry(src.track_id.to_i64()).or_default().push(src)\<close>, for each source.\<close>

definition push_source ::
  "(int \<Rightarrow> TrackSource list option) \<Rightarrow> int \<times> source_cols \<Rightarrow> (int \<Rightarrow> TrackSource list option)" where
  "push_source m r =
     (let k = so_track_id (snd r) in
      m(k := Some ((case m k of Some ss \<Rightarrow> ss | None \<Rightarrow> []) @ [source_of_row r])))"

text \<open>\<^verbatim>\<open>sources_map.remove(..).unwrap_or_default()\<close>, for each track of the page.\<close>

fun attach_sources ::
  "(int \<Rightarrow> TrackSource list option) \<Rightarrow> (int \<times> TrackRow) list \<Rightarrow> TrackWithSources list" where
  "attach_sources m [] = []"
| "attach_sources m ((k, t) # ts) =
     \<lparr>tw_track = t, tw_sources = (case m k of Some ss \<Rightarrow> ss | None \<Rightarrow> [])\<rparr>
     # attach_sources (m(k := None)) ts"

definition get_tracks_with_sources ::
  "engine \<Rightarrow> (string \<Rightarrow> BindVal list \<Rightarrow> database \<Rightarrow> sqlx_error + TrackRow list) \<Rightarrow> int option
     \<Rightarrow> SearchCriteria list option \<Rightarrow> int \<Rightarrow> database
     \<Rightarrow> (sqlx_error, TrackWithSources list) rust \<times> database" where
  "get_tracks_with_sources E q cursor criteria limit d =
     (case get_tracks E q cursor criteria limit d of
        (Err e, d1) \<Rightarrow> (Err e, d1)
      | (Panic, d1) \<Rightarrow> (Panic, d1)
      | (Ok tracks, d1) \<Rightarrow>
          if tracks = [] then (Ok [], d1)
          else
            (case to_i64_all (map tr_id tracks) of
               Err e \<Rightarrow> (Err e, d1)
             | Panic \<Rightarrow> (Panic, d1)
             | Ok ids \<Rightarrow>
                 (case try_log E ''get_tracks_with_sources: fetch sources''
                         (exec E 1 (Inr (tbl_select (\<lambda>k c. so_track_id c \<in> set ids)
                                          (track_sources d1)))) d1 of
                    (Err e, d2) \<Rightarrow> (Err e, d2)
                  | (Panic, d2) \<Rightarrow> (Panic, d2)
                  | (Ok rows, d2) \<Rightarrow>
                      (Ok (attach_sources (foldl push_source (\<lambda>k. None) rows) (zip ids tracks)),
                       d2))))"

section \<open>get\_tracks\_filtered\<close>

text \<open>
  \<open>criteria_map\<close> holds, for each name that occurs, the parameters of all its criteria in
  order.
\<close>

definition criteria_map ::
  "SearchCriteriaFiltered list \<Rightarrow> CriteriaName \<Rightarrow> FilterSearchParam list option" where
  "criteria_map cs =
     foldl (\<lambda>m c. m(sf_filter_name c :=
                       Some ((case m (sf_filter_name c) of Some ps \<Rightarrow> ps | None \<Rightarrow> [])
                             @ sf_criteria c)))
       (\<lambda>k. None) cs"

datatype text_pred = IsIn "string list" | LikePattern string

fun text_group :: "FilterSearchParam list \<Rightarrow> text_pred list" where
  "text_group [] = []"
| "text_group (FTextIn vs # ps) = (if vs = [] then text_group ps else IsIn vs # text_group ps)"
| "text_group (FTextLike pat cs # ps) = LikePattern (''%'' @ pat @ ''%'') # text_group ps"
| "text_group (p # ps) = text_group ps"

datatype where_clause =
    NameGroup "text_pred list"
  | ArtistGroup "text_pred list"
  | HasAnyTag "int list"
  | HasAllTags "int list" nat

fun tag_clauses :: "FilterSearchParam list \<Rightarrow> (sqlx_error, where_clause list) rust" where
  "tag_clauses [] = Ok []"
| "tag_clauses (FTagsAny ids # ps) =
     (if ids = [] then tag_clauses ps
      else case to_i64_all ids of
             Ok ns \<Rightarrow> map_ok (Cons (HasAnyTag ns)) (tag_clauses ps)
           | Err e \<Rightarrow> Err e
           | Panic \<Rightarrow> Panic)"
| "tag_clauses (FTagsAll ids # ps) =
     (if ids = [] then tag_clauses ps
      else case to_i64_all ids of
             Ok ns \<Rightarrow> map_ok (Cons (HasAllTags ns (length ns))) (tag_clauses ps)
           | Err e \<Rightarrow> Err e
           | Panic \<Rightarrow> Panic)"
| "tag_clauses (p # ps) = tag_clauses ps"

definition where_clauses :: "SearchCriteriaFiltered list \<Rightarrow> (sqlx_error, where_clause list) rust" where
  "where_clauses cs =
     (let m = criteria_map cs in
      map_ok
        (\<lambda>ts. (case m TrackName of Some ps \<Rightarrow> [NameGroup (text_group ps)] | None \<Rightarrow> [])
              @ (case m Artist of Some ps \<Rightarrow> [ArtistGroup (text_group ps)] | None \<Rightarrow> [])
              @ ts)
        (case m Tags of Some ps \<Rightarrow> tag_clauses ps | None \<Rightarrow> Ok []))"

text \<open>
  What the conditions mean on a row. \<open>empty_any\<close> is what sea-query makes of a
  \<^verbatim>\<open>Condition::any()\<close> with nothing in it.
\<close>

fun text_holds :: "engine \<Rightarrow> string \<Rightarrow> text_pred \<Rightarrow> bool" where
  "text_holds E s (IsIn vs) \<longleftrightarrow> s \<in> set vs"
| "text_holds E s (LikePattern p) \<longleftrightarrow> eng_like E p s"

definition group_holds :: "engine \<Rightarrow> bool \<Rightarrow> string \<Rightarrow> text_pred list \<Rightarrow> bool" where
  "group_holds E empty_any s ps \<longleftrightarrow> (if ps = [] then empty_any else list_ex (text_holds E s) ps)"

definition tag_ids_of :: "database \<Rightarrow> int \<Rightarrow> int list" where
  "tag_ids_of d tid =
     map as_tag_id (filter (\<lambda>c. as_track_id c = tid) (tbl_cols (tag_assignments d)))"

fun clause_holds ::
  "engine \<Rightarrow> bool \<Rightarrow> database \<Rightarrow> int \<Rightarrow> track_info_cols \<Rightarrow> where_clause \<Rightarrow> bool" where
  "clause_holds E empty_any d k c (NameGroup ps) \<longleftrightarrow> group_holds E empty_any (ti_track_name c) ps"
| "clause_holds E empty_any d k c (ArtistGroup ps) \<longleftrightarrow> group_holds E empty_any (ti_artist c) ps"
| "clause_holds E empty_any d k c (HasAnyTag ids) \<longleftrightarrow>
     list_ex (\<lambda>g. g \<in> set ids) (tag_ids_of d k)"
| "clause_holds E empty_any d k c (HasAllTags ids n) \<longleftrightarrow>
     filter (\<lambda>g. g \<in> set ids) (tag_ids_of d k) \<noteq> []
     \<and> length (remdups (filter (\<lambda>g. g \<in> set ids) (tag_ids_of d k))) = n"

text \<open>\<^verbatim>\<open>LIMIT n\<close>: a negative limit is no limit.\<close>

definition sql_limit :: "int \<Rightarrow> 'a list \<Rightarrow> 'a list" where
  "sql_limit n xs = (if n < 0 then xs else take (nat n) xs)"

definition page :: "int \<Rightarrow> int \<Rightarrow> (int \<times> 'c) list \<Rightarrow> (int \<times> 'c) list" where
  "page after limit s1 =
     (let oPrior = sql_limit limit (rev (sort_key fst (filter (\<lambda>r. fst r < after) s1)));
          oAfter = sql_limit limit (sort_key fst (filter (\<lambda>r. fst r \<ge> after) s1))
      in sort_key fst (oPrior @ oAfter))"

definition get_tracks_filtered ::
  "engine \<Rightarrow> bool \<Rightarrow> int option \<Rightarrow> SearchCriteriaFiltered list option \<Rightarrow> int \<Rightarrow> database
     \<Rightarrow> (sqlx_error, TrackRow list) rust \<times> database" where
  "get_tracks_filtered E empty_any cursor criteria limit d =
     (case where_clauses (case criteria of Some cs \<Rightarrow> cs | None \<Rightarrow> []) of
        Err e \<Rightarrow> (Err e, d)
      | Panic \<Rightarrow> (Panic, d)
      | Ok ws \<Rightarrow>
          try_log E ''get_tracks_filtered''
            (exec E 0 (Inr (map track_of_row
               (page (cursor_start cursor) limit
                  (tbl_select (\<lambda>k c. list_all (clause_holds E empty_any d k c) ws)
                     (track_info d)))))) d)"

end
