(* ===== verification/Query_Lemmas.thy ===== *)
theory Query_Lemmas
  imports Track_Query "HOL-Library.Multiset"
begin

text \<open>
  The library for the searches: counting the \<^verbatim>\<open>?\<close> of a query text against its bind values,
  the independence of the text from the values, paging over sorted rows, and the hash-map join.
\<close>

section \<open>Placeholders\<close>

definition placeholders :: "string \<Rightarrow> nat" where
  "placeholders s = length (filter (\<lambda>c. c = CHR ''?'') s)"

lemma placeholders_append [simp]: "placeholders (a @ b) = placeholders a + placeholders b"
  by (simp add: placeholders_def)

lemma placeholders_Nil [simp]: "placeholders [] = 0"
  by (simp add: placeholders_def)

lemma placeholders_Cons [simp]:
  "placeholders (c # s) = (if c = CHR ''?'' then Suc (placeholders s) else placeholders s)"
  by (simp add: placeholders_def)

lemma placeholders_join:
  "placeholders sep = 0 \<Longrightarrow> placeholders (join sep xs) = sum_list (map placeholders xs)"
  by (induction sep xs rule: join.induct) simp_all

lemma placeholders_question_marks [simp]: "placeholders (question_marks n) = n"
  by (simp add: question_marks_def placeholders_join sum_list_replicate)

lemma allowed_columns_placeholders: "col \<in> set allowed_columns \<Longrightarrow> placeholders col = 0"
  by (auto simp: allowed_columns_def)

lemma as_sql_placeholders [simp]: "placeholders (as_sql opr) = 0"
  by (cases opr) simp_all

definition bound :: "scan \<Rightarrow> bool" where
  "bound s \<longleftrightarrow> sum_list (map placeholders (sn_conditions s)) = length (sn_binds s)"

lemma bound_add: "bound s \<Longrightarrow> placeholders c = length bs \<Longrightarrow> bound (add_condition c bs s)"
  by (simp add: bound_def add_condition_def)

lemma bound_tags [simp]: "bound (s\<lparr>sn_tags := t\<rparr>) = bound s"
  by (simp add: bound_def)

lemma bound_empty [simp]: "bound empty_scan"
  by (simp add: bound_def empty_scan_def)

lemma scan_tag_param_bound: "scan_tag_param s p = Ok s' \<Longrightarrow> bound s \<Longrightarrow> bound s'"
  by (cases p) (auto simp: map_ok_iff bound_add split: if_splits)

lemma scan_column_param_bound:
  "col \<in> set allowed_columns \<Longrightarrow> scan_column_param col s p = Ok s' \<Longrightarrow> bound s \<Longrightarrow> bound s'"
  by (cases p) (auto simp: allowed_columns_placeholders intro!: bound_add split: if_splits)

lemma fold_rust_invariant:
  assumes "\<And>s x s'. x \<in> set xs \<Longrightarrow> P s \<Longrightarrow> f s x = Ok s' \<Longrightarrow> P s'"
    and "P s" and "fold_rust f s xs = Ok s'"
  shows "P s'"
  using assms
proof (induction xs arbitrary: s)
  case Nil
  then show ?case by simp
next
  case (Cons x xs)
  then obtain u where u: "f s x = Ok u" and r: "fold_rust f u xs = Ok s'"
    by (auto split: rust.splits)
  have "P u" using Cons.prems(1) [of x s u] Cons.prems(2) u by simp
  then show ?case using Cons.IH [of u] Cons.prems(1) r by (meson list.set_intros(2))
qed

lemma scan_criterion_bound: "scan_criterion s sc = Ok s' \<Longrightarrow> bound s \<Longrightarrow> bound s'"
  unfolding scan_criterion_def Let_def
  by (auto split: if_splits
      intro: fold_rust_invariant [of "sc_criteria sc" bound] scan_tag_param_bound
        scan_column_param_bound)

lemma scan_criteria_bound:
  assumes "scan_criteria criteria = Ok s"
  shows "bound s"
proof (cases criteria)
  case None
  with assms show ?thesis by (auto simp: scan_criteria_def)
next
  case (Some cs)
  then have "fold_rust scan_criterion empty_scan cs = Ok s"
    using assms by (simp add: scan_criteria_def)
  then show ?thesis
    by (rule fold_rust_invariant [of cs bound, rotated 2]) (auto dest: scan_criterion_bound)
qed

lemma base_sql_placeholders:
  "bound s \<Longrightarrow> placeholders (base_sql s) =
     length (sn_binds s)
     + (case sn_tags s of None \<Rightarrow> 0 | Some (Any ids) \<Rightarrow> length ids + 2 | Some (All ids) \<Rightarrow> length ids + 3)"
  by (auto simp: base_sql_def bound_def placeholders_join split: option.splits TagFilter.splits)

lemma tracks_sql_placeholders:
  "placeholders (tracks_sql s) = placeholders (base_sql s) + 4"
  by (simp add: tracks_sql_def)

lemma tracks_binds_length:
  "length (tracks_binds s after limit) =
     length (sn_binds s) + 4
     + (case sn_tags s of None \<Rightarrow> 0 | Some (Any ids) \<Rightarrow> length ids + 1 | Some (All ids) \<Rightarrow> length ids + 2)"
  by (simp add: tracks_binds_def split: option.splits TagFilter.splits)

section \<open>Which criteria reach the engine\<close>

lemma fold_rust_Ok_all:
  "fold_rust f s xs = Ok s' \<Longrightarrow> x \<in> set xs \<Longrightarrow> \<exists>u u'. f u x = Ok u'"
  by (induction xs arbitrary: s) (auto split: rust.splits)

definition wf_param :: "string \<Rightarrow> SearchParam \<Rightarrow> bool" where
  "wf_param col p \<longleftrightarrow>
     (case p of TagsIn ids \<Rightarrow> col = ''tags'' | TagsAll ids \<Rightarrow> col = ''tags'' | _ \<Rightarrow> col \<noteq> ''tags'')"

lemma scan_tag_param_wf: "scan_tag_param s p = Ok s' \<Longrightarrow> wf_param ''tags'' p"
  by (cases p) (auto simp: wf_param_def)

lemma scan_column_param_wf: "col \<noteq> ''tags'' \<Longrightarrow> scan_column_param col s p = Ok s' \<Longrightarrow> wf_param col p"
  by (cases p) (auto simp: wf_param_def)

lemma scan_criterion_wf:
  assumes "scan_criterion s sc = Ok s'"
  shows "sc_column_name sc \<in> set (''tags'' # allowed_columns)
    \<and> (\<forall>p \<in> set (sc_criteria sc). wf_param (sc_column_name sc) p)"
proof (cases "sc_column_name sc = ''tags''")
  case True
  then have "fold_rust scan_tag_param s (sc_criteria sc) = Ok s'"
    using assms by (simp add: scan_criterion_def)
  then have "\<forall>p \<in> set (sc_criteria sc). wf_param ''tags'' p"
    by (metis fold_rust_Ok_all scan_tag_param_wf)
  then show ?thesis using True by simp
next
  case False
  then have col: "sc_column_name sc \<in> set allowed_columns"
    and "fold_rust (scan_column_param (sc_column_name sc)) s (sc_criteria sc) = Ok s'"
    using assms by (auto simp: scan_criterion_def Let_def split: if_splits)
  then have "\<forall>p \<in> set (sc_criteria sc). wf_param (sc_column_name sc) p"
    by (metis fold_rust_Ok_all scan_column_param_wf [OF False])
  then show ?thesis using col by simp
qed

lemma scan_criteria_wf:
  assumes "scan_criteria (Some cs) = Ok s" and "sc \<in> set cs"
  shows "sc_column_name sc \<in> set (''tags'' # allowed_columns)
    \<and> (\<forall>p \<in> set (sc_criteria sc). wf_param (sc_column_name sc) p)"
proof -
  have "fold_rust scan_criterion empty_scan cs = Ok s" using assms(1) by (simp add: scan_criteria_def)
  from fold_rust_Ok_all [OF this assms(2)] obtain u u' where "scan_criterion u sc = Ok u'" by auto
  then show ?thesis by (rule scan_criterion_wf)
qed

section \<open>The text does not depend on the values\<close>

text \<open>A parameter without its values: what is left is its constructor and its list lengths.\<close>

fun blank_param :: "SearchParam \<Rightarrow> SearchParam" where
  "blank_param (NumericComparison opr v) = NumericComparison opr 0"
| "blank_param (NumericBetween mn mx) = NumericBetween 0 0"
| "blank_param (TextLike pat cs) = TextLike [] False"
| "blank_param (TextIn vs) = TextIn (replicate (length vs) [])"
| "blank_param (NullCheck b) = NullCheck b"
| "blank_param (TagsIn ids) = TagsIn (replicate (length ids) (BigintId ''0''))"
| "blank_param (TagsAll ids) = TagsAll (replicate (length ids) (BigintId ''0''))"

definition blank_criterion :: "SearchCriteria \<Rightarrow> SearchCriteria" where
  "blank_criterion sc = sc\<lparr>sc_criteria := map blank_param (sc_criteria sc)\<rparr>"

fun same_tags :: "TagFilter option \<Rightarrow> TagFilter option \<Rightarrow> bool" where
  "same_tags None None = True"
| "same_tags (Some (Any a)) (Some (Any b)) = (length a = length b)"
| "same_tags (Some (All a)) (Some (All b)) = (length a = length b)"
| "same_tags a b = False"

definition same_text :: "scan \<Rightarrow> scan \<Rightarrow> bool" where
  "same_text s s' \<longleftrightarrow> sn_conditions s = sn_conditions s' \<and> same_tags (sn_tags s) (sn_tags s')"

lemma same_text_sql: "same_text s s' \<Longrightarrow> tracks_sql s = tracks_sql s'"
proof -
  assume same: "same_text s s'"
  then have conditions: "sn_conditions s' = sn_conditions s" by (simp only: same_text_def)
  have "same_tags (sn_tags s) (sn_tags s')" using same by (simp only: same_text_def)
  then have "base_sql s = base_sql s'"
    unfolding base_sql_def conditions
    by (cases "(sn_tags s, sn_tags s')" rule: same_tags.cases)
       (simp_all only: prod.inject same_tags.simps option.case TagFilter.case)
  then show ?thesis unfolding tracks_sql_def by (simp only:)
qed

lemma same_text_add: "same_text s s' \<Longrightarrow> same_text (add_condition c bs s) (add_condition c bs' s')"
  by (simp add: same_text_def add_condition_def)

lemma to_i64_all_zeros:
  "\<exists>ns. (to_i64_all (replicate n (BigintId ''0'')) :: ('e, int list) rust) = Ok ns \<and> length ns = n"
proof (induction n)
  case 0
  then show ?case by simp
next
  case (Suc n)
  have "parse_i64 ''0'' = Inr 0"
    by (simp add: parse_i64_def digit_val_def is_i64_def i64_min_def i64_max_def)
  then have "(to_i64 (BigintId ''0'') :: ('e, int) rust) = Ok 0" by (simp add: to_i64_def)
  with Suc show ?case by auto
qed

lemma same_tags_zeros:
  assumes "same_text s s'" and "F = Any \<or> F = All"
    and "map_ok (\<lambda>ns. s\<lparr>sn_tags := Some (F ns)\<rparr>) (to_i64_all ids) = (Ok t :: (sqlx_error, scan) rust)"
  shows "\<exists>t'. map_ok (\<lambda>ns. s'\<lparr>sn_tags := Some (F ns)\<rparr>)
      (to_i64_all (replicate (length ids) (BigintId ''0''))) = (Ok t' :: (sqlx_error, scan) rust)
      \<and> same_text t t'"
proof -
  obtain ms where ms: "(to_i64_all ids :: (sqlx_error, int list) rust) = Ok ms"
    and t: "t = s\<lparr>sn_tags := Some (F ms)\<rparr>"
    using assms(3) by (auto simp: map_ok_iff)
  obtain ns where "(to_i64_all (replicate (length ids) (BigintId ''0'')) :: (sqlx_error, int list) rust) = Ok ns"
    and "length ns = length ids"
    using to_i64_all_zeros by metis
  then show ?thesis using assms(1,2) to_i64_all_length [OF ms] t by (auto simp: same_text_def)
qed

lemma scan_tag_param_blank:
  assumes "scan_tag_param s p = Ok t" and "same_text s s'"
  shows "\<exists>t'. scan_tag_param s' (blank_param p) = Ok t' \<and> same_text t t'"
proof (cases p)
  case (TagsIn ids)
  with assms show ?thesis using same_tags_zeros [OF assms(2), of Any] by (auto simp: same_text_add split: if_splits)
next
  case (TagsAll ids)
  with assms show ?thesis using same_tags_zeros [OF assms(2), of All] by (auto simp: same_text_add split: if_splits)
qed (use assms in auto)

lemma scan_column_param_blank:
  "scan_column_param col s p = Ok t \<Longrightarrow> same_text s s' \<Longrightarrow>
   \<exists>t'. scan_column_param col s' (blank_param p) = Ok t' \<and> same_text t t'"
  by (cases p) (auto intro: same_text_add split: if_splits)

lemma fold_rust_simulation:
  assumes "\<And>s x t s'. f s x = Ok t \<Longrightarrow> R s s' \<Longrightarrow> \<exists>t'. f s' (b x) = Ok t' \<and> R t t'"
    and "fold_rust f s xs = Ok t" and "R s s'"
  shows "\<exists>t'. fold_rust f s' (map b xs) = Ok t' \<and> R t t'"
  using assms(2,3)
proof (induction xs arbitrary: s s')
  case Nil
  then show ?case by simp
next
  case (Cons x xs)
  then obtain u where u: "f s x = Ok u" "fold_rust f u xs = Ok t" by (auto split: rust.splits)
  obtain u' where "f s' (b x) = Ok u'" "R u u'" using assms(1) [OF u(1) Cons.prems(2)] by blast
  then show ?case using Cons.IH [OF u(2)] by simp
qed

lemma scan_criterion_blank:
  assumes "scan_criterion s sc = Ok t" and "same_text s s'"
  shows "\<exists>t'. scan_criterion s' (blank_criterion sc) = Ok t' \<and> same_text t t'"
proof (cases "sc_column_name sc = ''tags''")
  case True
  then show ?thesis
    using assms fold_rust_simulation [where f = scan_tag_param and R = same_text and b = blank_param]
      scan_tag_param_blank
    by (simp add: scan_criterion_def blank_criterion_def)
next
  case False
  then have "fold_rust (scan_column_param (sc_column_name sc)) s (sc_criteria sc) = Ok t"
    and col: "sc_column_name sc \<in> set allowed_columns"
    using assms(1) by (auto simp: scan_criterion_def Let_def split: if_splits)
  then have "\<exists>t'. fold_rust (scan_column_param (sc_column_name sc)) s'
      (map blank_param (sc_criteria sc)) = Ok t' \<and> same_text t t'"
    by (intro fold_rust_simulation [where R = same_text and s = s]) 
       (use assms(2) in \<open>auto intro: scan_column_param_blank\<close>)
  with False col show ?thesis by (simp add: scan_criterion_def blank_criterion_def)
qed

lemma scan_criteria_blank:
  assumes "scan_criteria (Some cs) = Ok s"
  shows "\<exists>s'. scan_criteria (Some (map blank_criterion cs)) = Ok s' \<and> same_text s s'"
proof -
  have "same_text empty_scan empty_scan" by (simp add: same_text_def empty_scan_def)
  then show ?thesis
    using assms scan_criterion_blank
      fold_rust_simulation [where f = scan_criterion and R = same_text and b = blank_criterion]
    by (simp add: scan_criteria_def)
qed

section \<open>Pages\<close>

lemma sort_key_sorted: "sorted_wrt (<) (map f xs) \<Longrightarrow> sort_key f xs = xs"
  by (intro sort_key_id_if_sorted) (auto simp: strict_sorted_iff)

lemma filter_split_sorted:
  "sorted_wrt (<) (map fst (rs :: (int \<times> 'c) list)) \<Longrightarrow>
   filter (\<lambda>r. fst r < a) rs @ filter (\<lambda>r. a \<le> fst r) rs = rs"
proof (induction rs)
  case Nil
  then show ?case by simp
next
  case (Cons r rs)
  show ?case
  proof (cases "fst r < a")
    case True
    with Cons show ?thesis by simp
  next
    case False
    then have "filter (\<lambda>r. fst r < a) rs = []" using Cons.prems by (force simp: filter_empty_conv)
    moreover have "filter (\<lambda>r. a \<le> fst r) rs = rs"
      using Cons.prems False by (intro filter_True) force
    ultimately show ?thesis using False by simp
  qed
qed

lemma sorted_wrt_rev_take: "sorted_wrt (<) (map f xs) \<Longrightarrow> sorted_wrt (<) (map f (rev (sql_limit n (rev xs))))"
  by (simp add: sql_limit_def rev_take sorted_wrt_drop drop_map [symmetric])

text \<open>The page is the rows just before the cursor, then the rows from the cursor on.\<close>

definition page_before :: "int \<Rightarrow> int \<Rightarrow> (int \<times> 'c) list \<Rightarrow> (int \<times> 'c) list" where
  "page_before after limit rs = rev (sql_limit limit (rev (filter (\<lambda>r. fst r < after) rs)))"

definition page_from :: "int \<Rightarrow> int \<Rightarrow> (int \<times> 'c) list \<Rightarrow> (int \<times> 'c) list" where
  "page_from after limit rs = sql_limit limit (filter (\<lambda>r. after \<le> fst r) rs)"

lemma sql_limit_prefix: "\<exists>n. sql_limit limit xs = take n xs"
  by (cases "limit < 0") (auto simp: sql_limit_def intro: exI [of _ "length xs"])

lemma page_before_suffix: "\<exists>n. page_before after limit rs = drop n (filter (\<lambda>r. fst r < after) rs)"
  using sql_limit_prefix [of limit "rev (filter (\<lambda>r. fst r < after) rs)"]
  by (auto simp: page_before_def rev_take)

lemma page_parts_sublist:
  assumes "sorted_wrt (<) (map fst rs)"
  shows "\<exists>n m. page_before after limit rs @ page_from after limit rs = take n (drop m rs)"
proof -
  let ?lo = "filter (\<lambda>r. fst r < after) rs" and ?hi = "filter (\<lambda>r. after \<le> fst r) rs"
  obtain m where m: "page_before after limit rs = drop m ?lo" using page_before_suffix by blast
  obtain n where n: "page_from after limit rs = take n ?hi"
    using sql_limit_prefix unfolding page_from_def by blast
  let ?m = "min m (length ?lo)"
  have "drop ?m (?lo @ ?hi) = drop ?m ?lo @ ?hi" by simp
  moreover have "drop ?m ?lo = drop m ?lo" by (simp add: min_def)
  ultimately have "take (length (drop m ?lo) + n) (drop ?m rs) = drop m ?lo @ take n ?hi"
    using filter_split_sorted [OF assms, of after] by simp
  with m n show ?thesis by metis
qed

lemma page_eq:
  assumes "sorted_wrt (<) (map fst rs)"
  shows "page after limit rs = page_before after limit rs @ page_from after limit rs"
proof -
  have sub: "sorted_wrt (<) (map fst (filter p rs))" for p
    using assms by (rule sorted_wrt_map_filter)
  obtain n m where nm: "page_before after limit rs @ page_from after limit rs = take n (drop m rs)"
    using page_parts_sublist [OF assms] by blast
  have sorted: "sorted_wrt (<) (map fst (page_before after limit rs @ page_from after limit rs))"
    using assms unfolding nm
    by (simp add: take_map [symmetric] drop_map [symmetric] sorted_wrt_take sorted_wrt_drop)
  have inj: "inj_on fst (set (page_before after limit rs @ page_from after limit rs))"
    using sorted by (simp only: strict_sorted_iff distinct_map)
  have "page after limit rs =
      sort_key fst (rev (page_before after limit rs) @ page_from after limit rs)"
    by (simp add: page_def page_before_def page_from_def sort_key_sorted sub)
  also have "\<dots> = page_before after limit rs @ page_from after limit rs"
  proof (rule sort_key_inj_key_eq)
    show "mset (rev (page_before after limit rs) @ page_from after limit rs)
        = mset (page_before after limit rs @ page_from after limit rs)" by simp
    show "inj_on fst (set (rev (page_before after limit rs) @ page_from after limit rs))"
      using inj by simp
    show "sorted (map fst (page_before after limit rs @ page_from after limit rs))"
      using sorted by (simp add: strict_sorted_iff)
  qed
  finally show ?thesis .
qed

section \<open>The join\<close>

definition sources_of :: "database \<Rightarrow> int \<Rightarrow> TrackSource list" where
  "sources_of d k = map source_of_row (tbl_select (\<lambda>i c. so_track_id c = k) (track_sources d))"

lemma foldl_push_source:
  "foldl push_source m rows k =
     (let ss = map source_of_row (filter (\<lambda>r. so_track_id (snd r) = k) rows) in
      if ss = [] then m k else Some ((case m k of Some old \<Rightarrow> old | None \<Rightarrow> []) @ ss))"
  by (induction rows arbitrary: m) (auto simp: push_source_def Let_def split: option.splits)

lemma attach_sources_distinct:
  "distinct (map fst kts) \<Longrightarrow>
   attach_sources m kts =
     map (\<lambda>(k, t). \<lparr>tw_track = t, tw_sources = (case m k of Some ss \<Rightarrow> ss | None \<Rightarrow> [])\<rparr>) kts"
proof (induction m kts rule: attach_sources.induct)
  case (1 m)
  then show ?case by simp
next
  case (2 m k t ts)
  have "map (\<lambda>(k', t). \<lparr>tw_track = t,
          tw_sources = (case (m(k := None)) k' of Some ss \<Rightarrow> ss | None \<Rightarrow> [])\<rparr>) ts
      = map (\<lambda>(k', t). \<lparr>tw_track = t,
          tw_sources = (case m k' of Some ss \<Rightarrow> ss | None \<Rightarrow> [])\<rparr>) ts"
    using 2(2) by (intro map_cong) (auto simp: rev_image_eqI)
  with 2 show ?case by (simp del: fun_upd_apply)
qed

lemma joined_sources:
  assumes "k \<in> set ids"
  shows "(case foldl push_source (\<lambda>k. None)
            (tbl_select (\<lambda>i c. so_track_id c \<in> set ids) (track_sources d)) k of
            Some ss \<Rightarrow> ss | None \<Rightarrow> []) = sources_of d k"
proof -
  have "filter (\<lambda>r. so_track_id (snd r) = k)
      (tbl_select (\<lambda>i c. so_track_id c \<in> set ids) (track_sources d))
    = tbl_select (\<lambda>i c. so_track_id c = k) (track_sources d)"
    using assms by (auto simp: tbl_select_def split_def intro: filter_cong)
  then show ?thesis
    by (simp add: foldl_push_source sources_of_def Let_def)
qed

section \<open>Tag filters\<close>

lemma distinct_tag_ids_of:
  assumes "uniq_ok d"
  shows "distinct (tag_ids_of d k)"
proof -
  have "distinct (map assignment_key xs) \<Longrightarrow>
      distinct (map as_tag_id (filter (\<lambda>c. as_track_id c = k) xs))" for xs
  proof (induction xs)
    case (Cons a xs)
    have "as_tag_id a \<notin> as_tag_id ` {c \<in> set xs. as_track_id c = k}" if "as_track_id a = k"
    proof
      assume "as_tag_id a \<in> as_tag_id ` {c \<in> set xs. as_track_id c = k}"
      then obtain c where "c \<in> set xs" "as_track_id c = k" "as_tag_id a = as_tag_id c" by blast
      with that have "assignment_key a \<in> assignment_key ` set xs"
        by (intro image_eqI [of _ _ c]) simp_all
      with Cons.prems show False by simp
    qed
    with Cons show ?case by simp
  qed simp
  then show ?thesis using assms by (simp add: tag_ids_of_def uniq_ok_def)
qed

lemma has_all_tags_iff:
  assumes "distinct ts"
  shows "filter (\<lambda>g. g \<in> set ids) ts \<noteq> []
       \<and> length (remdups (filter (\<lambda>g. g \<in> set ids) ts)) = length ids
     \<longleftrightarrow> ids \<noteq> [] \<and> distinct ids \<and> set ids \<subseteq> set ts"
proof -
  let ?f = "filter (\<lambda>g. g \<in> set ids) ts"
  have len: "length (remdups ?f) = card (set ts \<inter> set ids)"
    by (simp add: length_remdups_card_conv Int_def conj_commute)
  have sub: "card (set ts \<inter> set ids) \<le> card (set ids)" by (simp add: card_mono)
  have "card (set ts \<inter> set ids) = length ids \<longleftrightarrow> distinct ids \<and> set ids \<subseteq> set ts"
  proof
    assume eq: "card (set ts \<inter> set ids) = length ids"
    then have "card (set ids) = length ids" using sub card_length [of ids] by simp
    moreover from this have "set ts \<inter> set ids = set ids"
      using eq by (intro card_subset_eq) auto
    ultimately show "distinct ids \<and> set ids \<subseteq> set ts" by (auto simp: card_distinct)
  next
    assume "distinct ids \<and> set ids \<subseteq> set ts"
    then show "card (set ts \<inter> set ids) = length ids"
      by (simp add: Int_absorb1 distinct_card)
  qed
  moreover have "?f = [] \<longleftrightarrow> set ts \<inter> set ids = {}" by (auto simp: filter_empty_conv)
  ultimately show ?thesis using len by (cases ids) auto
qed

section \<open>The searches are safe operations\<close>

lemma get_tracks_safe [repo_safe]: "safe_op (get_tracks E q cursor criteria limit)"
  by (cases "scan_criteria criteria")
     (simp_all add: get_tracks_def [abs_def] safe_op_pure try_log_safe)

lemma get_tracks_filtered_safe [repo_safe]:
  "safe_op (get_tracks_filtered E empty_any cursor criteria limit)"
  by (cases "where_clauses (case criteria of Some cs \<Rightarrow> cs | None \<Rightarrow> [])")
     (simp_all add: get_tracks_filtered_def [abs_def] safe_op_pure try_log_safe)

lemma try_log_Ok_iff: "try_log E ctx m d = (Ok v, d') \<longleftrightarrow> m = Inr v \<and> d' = d"
  by (auto simp: try_log_def split: sum.splits)

lemma try_log_not_Panic [simp]: "try_log E ctx m d \<noteq> (Panic, d')"
  by (auto simp: try_log_def split: sum.splits)

lemma try_log_Err:
  "try_log E ctx m d = (Err e, d') \<Longrightarrow> m = Inl e \<and> d' = log_error E ctx e d"
  by (auto simp: try_log_def split: sum.splits)

lemma get_tracks_Ok_db: "get_tracks E q cursor criteria limit d = (Ok ts, d') \<Longrightarrow> d' = d"
  by (auto simp: get_tracks_def try_log_Ok_iff split: rust.splits)

lemma get_tracks_with_sources_safe [repo_safe]:
  "safe_op (get_tracks_with_sources E q cursor criteria limit)"
  unfolding safe_op_def
proof (intro allI impI)
  fix d r d'
  assume ok: "db_ok d" and run: "get_tracks_with_sources E q cursor criteria limit d = (r, d')"
  obtain r1 d1 where g: "get_tracks E q cursor criteria limit d = (r1, d1)" by fastforce
  have 1: "db_ok d1" "(\<forall>v. r1 \<noteq> Ok v) \<longrightarrow> same_data d d1"
    using get_tracks_safe [of E q cursor criteria limit] ok g unfolding safe_op_def by blast+
  show "db_ok d' \<and> ((\<forall>v. r \<noteq> Ok v) \<longrightarrow> same_data d d')"
  proof (cases r1)
    case (Ok ts)
    then have "d1 = d" using get_tracks_Ok_db g by blast
    then show ?thesis
      using run g Ok ok
      by (auto simp: get_tracks_with_sources_def try_log_Ok_iff log_error_ok log_error_same
          split: if_splits rust.splits prod.splits dest!: try_log_Err)
  qed (use run g 1 in \<open>auto simp: get_tracks_with_sources_def\<close>)
qed

end
