(* ===== verification/Repository_Lemmas.thy ===== *)
theory Repository_Lemmas
  imports Repository_Safety Query_Lemmas
begin

text \<open>
  What the repository operations do to the tables when they succeed: the rows a loop of inserts
  appends, the batched loops as one loop, what a deletion leaves, and the ledger of listened
  seconds. The properties of the library rest on these.
\<close>

section \<open>Engines that do not fail\<close>

definition no_faults :: "engine \<Rightarrow> bool" where
  "no_faults E \<longleftrightarrow> (\<forall>i. eng_fault E i = None)"

definition no_gaps :: "engine \<Rightarrow> bool" where
  "no_gaps E \<longleftrightarrow> (\<forall>n. eng_gap E n = 0)"

lemma no_faults_exec [simp]: "no_faults E \<Longrightarrow> exec E i m = m"
  by (simp add: no_faults_def exec_def)

lemma logged_Ok_iff: "logged E ctx m d = (Ok v, d') \<longleftrightarrow> m = Inr (v, d')"
  by (auto simp: logged_def try_log_def split: sum.splits)

lemma logged_steps_Ok_iff: "logged_steps E m d = (Ok v, d') \<longleftrightarrow> m = Inr (v, d')"
  by (auto simp: logged_steps_def split: sum.splits)

section \<open>Rows of one insert\<close>

lemma tbl_select_append:
  "tbl_rows t' = tbl_rows t @ rs \<Longrightarrow> tbl_select p t' = tbl_select p t @ filter (\<lambda>(k, c). p k c) rs"
  by (simp add: tbl_select_def)

lemma insert_source_row_rows:
  assumes "insert_source_row E tid url d = Inr (k, d')"
  shows "\<exists>tb. d' = d\<lparr>track_sources := tb\<rparr>
     \<and> tbl_rows tb = tbl_rows (track_sources d) @ [(k, \<lparr>so_track_id = tid, so_url = url\<rparr>)]"
  using assms by (auto simp: insert_source_row_def and_then_Inr_iff tbl_insert_Inr split: if_splits)

lemma insert_track_row_rows:
  assumes "insert_track_row E t d = Inr (k, d')"
  shows "\<exists>tb len. nt_length_seconds t = Some len \<and> d' = d\<lparr>track_info := tb\<rparr> \<and> tbl_seq tb = k
     \<and> tbl_insert E (new_track_cols t len) (track_info d) = Inr (k, tb)
     \<and> tbl_rows tb = tbl_rows (track_info d) @ [(k, new_track_cols t len)]"
  using assms
  by (auto simp: insert_track_row_def and_then_Inr_iff tbl_insert_Inr split: option.splits if_splits)

section \<open>Loops of inserts\<close>

text \<open>\<open>cols t\<close> is the row a new track becomes; without a length it is never inserted.\<close>

definition cols_of :: "NewTrack \<Rightarrow> track_info_cols" where
  "cols_of t = new_track_cols t (case nt_length_seconds t of Some len \<Rightarrow> len | None \<Rightarrow> 0)"

text \<open>Appending rows to a table of sources.\<close>

definition appends_sources :: "(int \<times> string) list \<Rightarrow> database \<Rightarrow> database \<Rightarrow> bool" where
  "appends_sources ps d d' \<longleftrightarrow>
     (\<exists>tb rs. d' = d\<lparr>track_sources := tb\<rparr> \<and> tbl_rows tb = tbl_rows (track_sources d) @ rs
        \<and> map (\<lambda>(k, c). (so_track_id c, so_url c)) rs = ps)"

lemma appends_sources_Nil: "appends_sources [] d d"
  unfolding appends_sources_def
  by (rule exI [of _ "track_sources d"], rule exI [of _ "[]"]) simp

lemma appends_sources_trans:
  assumes "appends_sources ps d d1" and "appends_sources qs d1 d2"
  shows "appends_sources (ps @ qs) d d2"
proof -
  obtain tb rs where 1: "d1 = d\<lparr>track_sources := tb\<rparr>" "tbl_rows tb = tbl_rows (track_sources d) @ rs"
    "map (\<lambda>(k, c). (so_track_id c, so_url c)) rs = ps"
    using assms(1) by (auto simp: appends_sources_def)
  obtain tb' rs' where 2: "d2 = d1\<lparr>track_sources := tb'\<rparr>"
    "tbl_rows tb' = tbl_rows (track_sources d1) @ rs'"
    "map (\<lambda>(k, c). (so_track_id c, so_url c)) rs' = qs"
    using assms(2) by (auto simp: appends_sources_def)
  show ?thesis
    unfolding appends_sources_def
    by (rule exI [of _ tb'], rule exI [of _ "rs @ rs'"]) (use 1 2 in simp)
qed

lemma insert_source_appends:
  "insert_source_row E tid url d = Inr (k, d') \<Longrightarrow> appends_sources [(tid, url)] d d'"
  using insert_source_row_rows [of E tid url d k d'] by (auto simp: appends_sources_def)

lemma for_each_appends:
  assumes "\<And>i x s s'. f i x s = Inr s' \<Longrightarrow> appends_sources (g x) s s'"
    and "for_each f i xs d = Inr d'"
  shows "appends_sources (concat (map g xs)) d d'"
  using assms(2)
proof (induction xs arbitrary: i d)
  case Nil
  then show ?case by (simp add: appends_sources_Nil)
next
  case (Cons x xs)
  from Cons.prems obtain d1 where "f i x d = Inr d1" "for_each f (Suc i) xs d1 = Inr d'"
    by (auto simp: and_then_Inr_iff)
  then show ?case using Cons.IH assms(1) appends_sources_trans by simp blast
qed

lemma insert_source_rows_appends:
  assumes "insert_source_rows E ps d = Inr d'"
  shows "appends_sources ps d d'"
proof -
  have "appends_sources (concat (map (\<lambda>p. [p]) ps)) d d'"
    using assms unfolding insert_source_rows_def
    by (rule for_each_appends [rotated])
       (auto simp: no_rowid_Inr_iff split: prod.splits intro: insert_source_appends)
  then show ?thesis by simp
qed

lemma insert_urls_appends:
  assumes "for_each (\<lambda>i url s. exec E i (no_rowid (insert_source_row E tid url s))) j urls d = Inr d'"
  shows "appends_sources (map (Pair tid) urls) d d'"
proof -
  have "appends_sources (concat (map (\<lambda>url. [(tid, url)]) urls)) d d'"
    using assms by (rule for_each_appends [rotated])
      (auto simp: inr_simps intro: insert_source_appends)
  moreover have "concat (map (\<lambda>url. [(tid, url)]) urls) = map (Pair tid) urls"
    by (induction urls) simp_all
  ultimately show ?thesis by simp
qed

lemma appends_sources_frame:
  "appends_sources ps d d' \<Longrightarrow> track_info d' = track_info d \<and> tags d' = tags d
     \<and> tag_assignments d' = tag_assignments d \<and> listened_daily d' = listened_daily d"
  by (auto simp: appends_sources_def)

lemma appends_sources_of:
  assumes "appends_sources ps d d'"
  shows "map ts_url (sources_of d' k) = map ts_url (sources_of d k) @ map snd (filter (\<lambda>p. fst p = k) ps)"
proof -
  obtain tb rs where d': "d' = d\<lparr>track_sources := tb\<rparr>"
    and rows: "tbl_rows tb = tbl_rows (track_sources d) @ rs"
    and ps: "ps = map (\<lambda>(k, c). (so_track_id c, so_url c)) rs"
    using assms by (auto simp: appends_sources_def)
  have "map (ts_url \<circ> source_of_row) (filter (\<lambda>(i, c). so_track_id c = k) rs)
      = map snd (filter (\<lambda>p. fst p = k) ps)"
    unfolding ps by (induction rs) (auto simp: source_of_row_def)
  then show ?thesis
    by (simp add: sources_of_def d' tbl_select_append [OF rows] source_of_row_def)
qed

section \<open>Consecutive rowids\<close>

definition next_ids :: "int \<Rightarrow> nat \<Rightarrow> int list" where
  "next_ids s n = map (\<lambda>i. s + 1 + int i) [0..<n]"

lemma next_ids_length [simp]: "length (next_ids s n) = n"
  by (simp add: next_ids_def)

lemma next_ids_append: "next_ids s (m + n) = next_ids s m @ next_ids (s + int m) n"
proof -
  have "map (\<lambda>i. s + 1 + int i) [m..<m + n] = map (\<lambda>i. s + int m + 1 + int i) [0..<n]"
    by (rule nth_equalityI) simp_all
  then show ?thesis
    by (simp add: next_ids_def upt_add_eq_append [of 0 m n, simplified])
qed

lemma next_ids_Suc: "next_ids s (Suc n) = (s + 1) # next_ids (s + 1) n"
  using next_ids_append [of s 1 n] by (simp add: next_ids_def)

lemma batch_ids_next: "batch_ids (s + int n) n = next_ids s n"
proof (rule nth_equalityI)
  show "length (batch_ids (s + int n) n) = length (next_ids s n)"
    by (simp add: batch_ids_def)
  fix i
  assume "i < length (batch_ids (s + int n) n)"
  then have i: "i < n" by (simp add: batch_ids_def)
  then show "batch_ids (s + int n) n ! i = next_ids s n ! i"
    by (simp add: batch_ids_def next_ids_def rev_nth of_nat_diff)
qed

text \<open>What a run of track inserts leaves: the new rows at the end, with consecutive ids.\<close>

definition appends_tracks :: "NewTrack list \<Rightarrow> database \<Rightarrow> database \<Rightarrow> bool" where
  "appends_tracks ts d d' \<longleftrightarrow>
     (\<exists>tb. d' = d\<lparr>track_info := tb\<rparr> \<and> tbl_seq tb = tbl_seq (track_info d) + int (length ts)
        \<and> tbl_rows tb = tbl_rows (track_info d)
            @ zip (next_ids (tbl_seq (track_info d)) (length ts)) (map cols_of ts))"

lemma appends_tracks_Nil: "appends_tracks [] d d"
  unfolding appends_tracks_def by (rule exI [of _ "track_info d"]) simp

lemma appends_tracks_trans:
  assumes "appends_tracks ts d d1" and "appends_tracks us d1 d2"
  shows "appends_tracks (ts @ us) d d2"
proof -
  obtain tb where 1: "d1 = d\<lparr>track_info := tb\<rparr>" "tbl_seq tb = tbl_seq (track_info d) + int (length ts)"
    "tbl_rows tb = tbl_rows (track_info d)
        @ zip (next_ids (tbl_seq (track_info d)) (length ts)) (map cols_of ts)"
    using assms(1) by (auto simp: appends_tracks_def)
  obtain tb' where 2: "d2 = d1\<lparr>track_info := tb'\<rparr>"
    "tbl_seq tb' = tbl_seq (track_info d1) + int (length us)"
    "tbl_rows tb' = tbl_rows (track_info d1)
        @ zip (next_ids (tbl_seq (track_info d1)) (length us)) (map cols_of us)"
    using assms(2) by (auto simp: appends_tracks_def)
  show ?thesis
    unfolding appends_tracks_def by (rule exI [of _ tb']) (use 1 2 in \<open>simp add: next_ids_append\<close>)
qed

lemma insert_track_appends:
  assumes "no_gaps E" and "insert_track_row E t d = Inr (k, d')"
  shows "appends_tracks [t] d d' \<and> k = tbl_seq (track_info d')"
proof -
  obtain tb len where tb: "nt_length_seconds t = Some len" "d' = d\<lparr>track_info := tb\<rparr>" "tbl_seq tb = k"
    "tbl_insert E (new_track_cols t len) (track_info d) = Inr (k, tb)"
    "tbl_rows tb = tbl_rows (track_info d) @ [(k, new_track_cols t len)]"
    using insert_track_row_rows [OF assms(2)] by blast
  then have "k = tbl_seq (track_info d) + 1"
    using assms(1) by (auto simp: tbl_insert_def Let_def no_gaps_def split: if_splits)
  then show ?thesis
    using tb unfolding appends_tracks_def
    by (intro conjI exI [of _ tb]) (simp_all add: cols_of_def next_ids_def)
qed

lemma insert_track_rows_loop:
  assumes "no_gaps E"
    and "for_each (\<lambda>i t (last, s). insert_track_row E t s) i ts (l0, d) = Inr (last_id, d')"
  shows "appends_tracks ts d d' \<and> (ts \<noteq> [] \<longrightarrow> last_id = tbl_seq (track_info d'))"
  using assms(2)
proof (induction ts arbitrary: i l0 d)
  case Nil
  then show ?case by (simp add: appends_tracks_Nil)
next
  case (Cons t ts)
  from Cons.prems obtain k d1 where 1: "insert_track_row E t d = Inr (k, d1)"
    and 2: "for_each (\<lambda>i t (last, s). insert_track_row E t s) (Suc i) ts (k, d1) = Inr (last_id, d')"
    by (auto simp: and_then_Inr_iff)
  note t = insert_track_appends [OF assms(1) 1]
  have "appends_tracks ([t] @ ts) d d'"
    by (rule appends_tracks_trans [of _ _ d1]) (use t Cons.IH [OF 2] in blast)+
  moreover have "last_id = tbl_seq (track_info d')"
    using Cons.IH [OF 2] 2 t by (cases ts) auto
  ultimately show ?case by simp
qed

lemma add_tracks_batches:
  assumes "no_gaps E" and "\<forall>c \<in> set cs. c \<noteq> []"
    and "for_each (add_tracks_batch E) i cs (ids0, d) = Inr (ids, d')"
  shows "appends_tracks (concat cs) d d'
     \<and> ids = ids0 @ next_ids (tbl_seq (track_info d)) (length (concat cs))"
  using assms(2,3)
proof (induction cs arbitrary: i ids0 d)
  case Nil
  then show ?case by (simp add: appends_tracks_Nil next_ids_def)
next
  case (Cons c cs)
  from Cons.prems(2) obtain x where "add_tracks_batch E i c (ids0, d) = Inr x"
    and "for_each (add_tracks_batch E) (Suc i) cs x = Inr (ids, d')"
    by (auto simp only: for_each.simps and_then_Inr_iff)
  then obtain last_id d1 where 1: "insert_track_rows E c d = Inr (last_id, d1)"
    and 2: "for_each (add_tracks_batch E) (Suc i) cs (ids0 @ batch_ids last_id (length c), d1)
        = Inr (ids, d')"
    by (cases x) (auto simp: add_tracks_batch_def [of E i c] inr_simps)
  have a: "appends_tracks c d d1" "last_id = tbl_seq (track_info d1)"
    using insert_track_rows_loop [OF assms(1) 1 [unfolded insert_track_rows_def]] Cons.prems(1) by auto
  then have seq: "tbl_seq (track_info d1) = tbl_seq (track_info d) + int (length c)"
    by (auto simp: appends_tracks_def)
  have IH: "appends_tracks (concat cs) d1 d'"
    "ids = (ids0 @ batch_ids last_id (length c)) @ next_ids (tbl_seq (track_info d1)) (length (concat cs))"
    using Cons.IH [OF _ 2] Cons.prems(1) by auto
  show ?case
    using appends_tracks_trans [OF a(1) IH(1)] IH(2) a(2) seq
    by (simp add: batch_ids_next next_ids_append)
qed

lemma add_tracks_effect:
  assumes "no_gaps E" and "add_tracks E ts d = (Ok ids, d')"
  shows "\<exists>d1. appends_tracks ts d d1 \<and> appends_sources (all_sources ts ids) d1 d'
     \<and> ids = next_ids (tbl_seq (track_info d)) (length ts)"
proof -
  let ?tcs = "chunks tracks_batch_size ts" and ?scs = "chunks pairs_batch_size (all_sources ts ids)"
  obtain d1 where 1: "for_each (add_tracks_batch E) 1 ?tcs ([], d) = Inr (ids, d1)"
    and 2: "for_each (\<lambda>i chunk s. in_ctx ''add_tracks: insert track_sources batch''
                                  (exec E i (insert_source_rows E chunk s)))
           (1 + length ?tcs) ?scs d1 = Inr d'"
    using assms(2) by (auto simp: add_tracks_def logged_steps_Ok_iff add_tracks_steps_def Let_def inr_simps)
  have tcs: "concat ?tcs = ts"
    by (rule concat_chunks) (simp add: tracks_batch_size_def sqlite_limit_variable_number_def)
  have scs: "concat ?scs = all_sources ts ids"
    by (rule concat_chunks) (simp add: pairs_batch_size_def sqlite_limit_variable_number_def)
  have "\<forall>c \<in> set ?tcs. c \<noteq> []" using chunks_length by fastforce
  from add_tracks_batches [OF assms(1) this 1] tcs
  have "appends_tracks ts d d1" "ids = next_ids (tbl_seq (track_info d)) (length ts)" by simp_all
  moreover have "appends_sources (concat (map (\<lambda>c. c) ?scs)) d1 d'"
    using 2 by (rule for_each_appends [rotated])
      (auto simp: inr_simps intro: insert_source_rows_appends)
  ultimately show ?thesis using scs by auto
qed

section \<open>Assignments\<close>

lemma assign_pairs_one_loop:
  assumes "no_faults E"
  shows "assign_pairs E ps d = insert_assignment_rows E ps d"
proof -
  have "concat (chunks pairs_batch_size ps) = ps"
    by (rule concat_chunks) (simp add: pairs_batch_size_def sqlite_limit_variable_number_def)
  then have "for_each (\<lambda>i. insert_assignment_rows E) 1 (chunks pairs_batch_size ps) d
      = insert_assignment_rows E ps d"
    unfolding insert_assignment_rows_def [abs_def] using for_each_concat by metis
  then show ?thesis
    using assms by (cases "insert_assignment_rows E ps d") (simp_all add: assign_pairs_def Let_def)
qed

definition assigned :: "database \<Rightarrow> (int \<times> int) set" where
  "assigned d = set (map assignment_key (tbl_cols (tag_assignments d)))"

lemma insert_assignment_effect:
  assumes "insert_assignment_row E p d = Inr d'"
  shows "assigned d' = insert p (assigned d) \<and> (\<exists>tb. d' = d\<lparr>tag_assignments := tb\<rparr>)"
proof (cases "p \<in> assigned d")
  case True
  then have "d' = d" using assms by (auto simp: insert_assignment_row_def assigned_def)
  then show ?thesis using True by (auto intro: exI [of _ "tag_assignments d"])
next
  case False
  then obtain k tb where
    "tbl_insert E \<lparr>as_track_id = fst p, as_tag_id = snd p\<rparr> (tag_assignments d) = Inr (k, tb)"
    "d' = d\<lparr>tag_assignments := tb\<rparr>"
    using assms by (auto simp: insert_assignment_row_def assigned_def and_then_Inr_iff split: if_splits)
  then show ?thesis using tbl_insert_Inr(6) by (fastforce simp: assigned_def)
qed

lemma insert_assignment_rows_effect:
  assumes "insert_assignment_rows E ps d = Inr d'"
  shows "assigned d' = assigned d \<union> set ps \<and> (\<exists>tb. d' = d\<lparr>tag_assignments := tb\<rparr>)"
proof -
  have "for_each (\<lambda>i. insert_assignment_row E) i ps d = Inr d' \<Longrightarrow>
      assigned d' = assigned d \<union> set ps \<and> (\<exists>tb. d' = d\<lparr>tag_assignments := tb\<rparr>)" for i
  proof (induction ps arbitrary: i d)
    case Nil
    then show ?case by (auto intro: exI [of _ "tag_assignments d"])
  next
    case (Cons p ps)
    then obtain d1 where 1: "insert_assignment_row E p d = Inr d1"
      and 2: "for_each (\<lambda>i. insert_assignment_row E) (Suc i) ps d1 = Inr d'"
      by (auto simp: and_then_Inr_iff)
    show ?case using Cons.IH [OF 2] insert_assignment_effect [OF 1] by auto
  qed
  then show ?thesis using assms by (simp add: insert_assignment_rows_def)
qed

section \<open>Deleting a track\<close>

lemma delete_track_effect:
  assumes "delete_track E tid d = (Ok u, d')"
  shows "\<exists>t k rt. fetch_track tid d = Inr t
     \<and> tbl_insert E (eng_show_json E (archive_json tid t d)) (removed_tracks d) = Inr (k, rt)
     \<and> d' = delete_track_row tid (d\<lparr>removed_tracks := rt\<rparr>)"
  using assms
  by (auto simp: delete_track_def logged_Ok_iff delete_track_unlogged_def inr_simps
      insert_removed_row_def)

lemma select_delete_other:
  assumes "\<And>k c. p k c \<Longrightarrow> \<not> q k c"
  shows "tbl_select p (tbl_delete q t) = tbl_select p t"
proof -
  have "filter (\<lambda>(k, c). p k c) (filter (\<lambda>(k, c). \<not> q k c) xs) = filter (\<lambda>(k, c). p k c) xs"
    for xs by (induction xs) (auto dest: assms)
  then show ?thesis by (simp add: tbl_select_def tbl_delete_def)
qed

section \<open>Listened seconds\<close>

lemma add_listened_seconds_effect:
  assumes "add_listened_seconds E today tid n d = (Ok u, d')"
  shows "upsert_daily_row E today tid n (bump_listened tid n d) = Inr d'"
  using assms
  by (auto simp: add_listened_seconds_def logged_steps_Ok_iff add_listened_seconds_steps_def inr_simps)

end
