(* ===== verification/Listen_Guard.thy ===== *)
theory Listen_Guard
  imports Schema
begin

text \<open>
  \<^verbatim>\<open>src-tauri/src/commands/listen_guard.rs\<close>: the guard in front of \<^verbatim>\<open>add_listened_seconds\<close>. Time
  is the nanosecond count of the monotonic clock. The window is computed the way the code
  computes it, in binary64: \<^verbatim>\<open>interval as f64 * 0.9\<close> rounded to 53 bits, then
  \<^verbatim>\<open>Duration::from_secs_f64\<close> rounded to the nanosecond.
\<close>

section \<open>The window\<close>

text \<open>The quotient rounded to the nearest integer, ties to even.\<close>

definition round_div :: "nat \<Rightarrow> nat \<Rightarrow> nat" where
  "round_div a b =
     (let q = a div b; r = a mod b in
      if 2 * r < b then q else if 2 * r > b then q + 1 else q + q mod 2)"

fun bit_count :: "nat \<Rightarrow> nat" where
  "bit_count n = (if n = 0 then 0 else Suc (bit_count (n div 2)))"

declare bit_count.simps [simp del]

lemma bit_count_numeral [simp]:
  "bit_count 0 = 0" "bit_count (Suc 0) = 1"
  "bit_count (numeral k) = Suc (bit_count (numeral k div 2))"
  by (simp_all add: bit_count.simps)

text \<open>An integer rounded to the 53 significant bits of a binary64.\<close>

definition f64_round :: "nat \<Rightarrow> nat" where
  "f64_round p = (let e = bit_count p - 53 in round_div p (2 ^ e) * 2 ^ e)"

text \<open>The binary64 constant \<^verbatim>\<open>0.9\<close>, in units of \<open>2 ^ - 53\<close>.\<close>

definition f64_nine_tenths :: nat where "f64_nine_tenths = 8106479329266893"

definition window_ns :: "nat \<Rightarrow> nat" where
  "window_ns secs = round_div (f64_round (secs * f64_nine_tenths) * 10 ^ 9) (2 ^ 53)"

section \<open>The guard\<close>

text \<open>\<^verbatim>\<open>last: Mutex<Option<Instant>>\<close>; a panic while the lock is held poisons the mutex.\<close>

record ListenGuard =
  lg_last :: "nat option"
  lg_poisoned :: bool

definition new_guard :: ListenGuard where
  "new_guard = \<lparr>lg_last = None, lg_poisoned = False\<rparr>"

text \<open>
  \<^verbatim>\<open>lock().unwrap()\<close> unwinds on a poisoned mutex; \<^verbatim>\<open>from_secs_f64\<close> unwinds on a negative
  number, with the lock held. \<^verbatim>\<open>now - t\<close> of instants saturates at zero, as it does on \<open>nat\<close>.
\<close>

definition should_record :: "nat \<Rightarrow> int \<Rightarrow> ListenGuard \<Rightarrow> ('e, bool) rust \<times> ListenGuard" where
  "should_record now interval g =
     (if lg_poisoned g then (Panic, g)
      else
        (case lg_last g of
           None \<Rightarrow> (Ok True, g\<lparr>lg_last := Some now\<rparr>)
         | Some t \<Rightarrow>
             if interval < 0 then (Panic, g\<lparr>lg_poisoned := True\<rparr>)
             else if now - t < window_ns (nat interval) then (Ok False, g)
             else (Ok True, g\<lparr>lg_last := Some now\<rparr>)))"

text \<open>The intervals a sequence of calls \<open>(now, interval)\<close> lets through, after the state it ends in.\<close>

fun guard_run :: "(nat \<times> int) list \<Rightarrow> ListenGuard \<Rightarrow> ListenGuard \<times> int list" where
  "guard_run [] g = (g, [])"
| "guard_run ((now, interval) # calls) g =
     (case should_record now interval g of
        (r, g') \<Rightarrow>
          (case guard_run calls g' of
             (g'', ss) \<Rightarrow> (g'', if r = (Ok True :: (unit, bool) rust) then interval # ss else ss)))"

section \<open>Rounding\<close>

lemma round_div_bounds:
  assumes "0 < b"
  shows "2 * b * round_div a b \<le> 2 * a + b" and "2 * a \<le> 2 * b * round_div a b + b"
proof -
  have a: "a = b * (a div b) + a mod b" by simp
  have m: "a mod b < b" using assms by simp
  have "2 * b * round_div a b \<le> 2 * a + b \<and> 2 * a \<le> 2 * b * round_div a b + b"
  proof (cases "2 * (a mod b) < b")
    case True
    then have "round_div a b = a div b" by (simp add: round_div_def Let_def)
    then have "2 * b * round_div a b = 2 * (b * (a div b))" by simp
    then show ?thesis using a True by linarith
  next
    case False
    then have "round_div a b = a div b + 1 \<or> (round_div a b = a div b \<and> 2 * (a mod b) = b)"
      by (auto simp: round_div_def Let_def)
    then show ?thesis
    proof
      assume "round_div a b = a div b + 1"
      then have "2 * b * round_div a b = 2 * (b * (a div b)) + 2 * b" by (simp add: algebra_simps)
      then show ?thesis using a False m by linarith
    next
      assume r: "round_div a b = a div b \<and> 2 * (a mod b) = b"
      then have "2 * b * round_div a b = 2 * (b * (a div b))" by (simp add: algebra_simps)
      then show ?thesis using a r by linarith
    qed
  qed
  then show "2 * b * round_div a b \<le> 2 * a + b" and "2 * a \<le> 2 * b * round_div a b + b"
    by blast+
qed

lemma bit_count_lower: "bit_count n = Suc k \<Longrightarrow> 2 ^ k \<le> n"
proof (induction n arbitrary: k rule: bit_count.induct)
  case (1 n)
  then have "n \<noteq> 0" by (metis bit_count.simps nat.distinct(1))
  show ?case
  proof (cases k)
    case 0
    with \<open>n \<noteq> 0\<close> show ?thesis by simp
  next
    case (Suc j)
    then have "bit_count (n div 2) = Suc j"
      using 1(2) \<open>n \<noteq> 0\<close> by (simp add: bit_count.simps [of n])
    then have "2 ^ j \<le> n div 2" using 1(1) \<open>n \<noteq> 0\<close> by blast
    then show ?thesis using Suc by (simp add: less_eq_div_iff_mult_less_eq mult.commute)
  qed
qed

lemma f64_round_bounds:
  "2 ^ 53 * f64_round p \<le> 2 ^ 53 * p + p" "2 ^ 53 * p \<le> 2 ^ 53 * f64_round p + p"
proof -
  have "2 ^ 53 * f64_round p \<le> 2 ^ 53 * p + p \<and> 2 ^ 53 * p \<le> 2 ^ 53 * f64_round p + p"
  proof (cases "bit_count p - 53")
    case 0
    have "round_div p 1 = p" by (simp add: round_div_def)
    then show ?thesis using 0 by (simp add: f64_round_def)
  next
    case (Suc k)
    then have "bit_count p = Suc (Suc k + 52)" by simp
    then have "2 ^ (Suc k + 52) \<le> p" by (rule bit_count_lower)
    then have p: "2 ^ 52 * 2 ^ Suc k \<le> p" by (simp add: power_add mult.commute)
    have r: "f64_round p = round_div p (2 ^ Suc k) * 2 ^ Suc k"
      using Suc by (simp add: f64_round_def Let_def)
    have "2 * f64_round p \<le> 2 * p + 2 ^ Suc k" "2 * p \<le> 2 * f64_round p + 2 ^ Suc k"
      using round_div_bounds [of "2 ^ Suc k" p] by (simp_all add: r mult.commute mult.left_commute)
    then show ?thesis using p by simp
  qed
  then show "2 ^ 53 * f64_round p \<le> 2 ^ 53 * p + p" and "2 ^ 53 * p \<le> 2 ^ 53 * f64_round p + p"
    by blast+
qed

text \<open>Nine tenths of the interval, to within 300 ns for every \<^verbatim>\<open>i32\<close>.\<close>

lemma window_ns_bounds:
  assumes "secs \<le> 2147483647"
  shows "window_ns secs \<le> 900000000 * secs + 300" and "900000000 * secs \<le> window_ns secs + 300"
proof -
  let ?r = "f64_round (secs * f64_nine_tenths)"
  note f = f64_round_bounds [of "secs * f64_nine_tenths", unfolded f64_nine_tenths_def]
  note w = round_div_bounds [of "2 ^ 53" "?r * 10 ^ 9", folded window_ns_def,
      unfolded f64_nine_tenths_def]
  show "window_ns secs \<le> 900000000 * secs + 300" using f(1) w(1) assms by simp
  have "9007199254740991 * (8106479329266893 * secs)
      \<le> 9007199254740992 * f64_round (secs * 8106479329266893)"
    using f(2) by simp
  then show "900000000 * secs \<le> window_ns secs + 300" using w(2) assms by simp
qed

section \<open>What a run lets through\<close>

lemma should_record_cases:
  assumes "should_record now s g = (r, g')" and "lg_last g = Some t" and "t \<le> now"
  obtains "r = Ok True" "g' = g\<lparr>lg_last := Some now\<rparr>" "0 \<le> s" "t + window_ns (nat s) \<le> now"
  | "r \<noteq> Ok True" "lg_last g' = Some t"
  using assms by (auto simp: should_record_def split: if_splits)

lemma guard_run_spacing:
  assumes "guard_run calls g = (g', ss)" and "lg_last g = Some t"
    and "sorted (map fst calls)" and "\<forall>c \<in> set calls. t \<le> fst c \<and> fst c \<le> tmax" and "t \<le> tmax"
  shows "t + sum_list (map (\<lambda>s. window_ns (nat s)) ss) \<le> tmax \<and> (\<forall>s \<in> set ss. 0 \<le> s)"
  using assms
proof (induction calls g arbitrary: t ss rule: guard_run.induct)
  case (1 g)
  then show ?case by simp
next
  case (2 now s calls g)
  note prems = 2(3-6)
  obtain r g1 where sr: "(should_record now s g :: (unit, bool) rust \<times> ListenGuard) = (r, g1)"
    by fastforce
  obtain g2 ss1 where gr: "guard_run calls g1 = (g2, ss1)" by fastforce
  have ss: "ss = (if r = Ok True then s # ss1 else ss1)" and "g' = g2"
    using 2(2) sr gr by simp_all
  have t: "t \<le> now" "now \<le> tmax" using 2(5) by simp_all
  note IH = 2(1) [OF sr [symmetric]]
  from sr 2(3) t(1) show ?case
  proof (cases rule: should_record_cases)
    case 1
    have "now + sum_list (map (\<lambda>s. window_ns (nat s)) ss1) \<le> tmax \<and> (\<forall>s \<in> set ss1. 0 \<le> s)"
      using IH [of ss1 now] gr 1 prems t \<open>g' = g2\<close> by simp
    then show ?thesis using ss 1 by simp
  next
    case 2
    then show ?thesis using IH [of ss1 t] gr ss prems t \<open>g' = g2\<close> by simp
  qed
qed

lemma guard_run_subset: "set (snd (guard_run calls g)) \<subseteq> snd ` set calls"
  by (induction calls g rule: guard_run.induct) (auto split: prod.splits)

end
