(* ===== verification/Library_Properties.thy ===== *)
theory Library_Properties
  imports Repository_Lemmas Listen_Guard
begin

text \<open>
  The properties of the music library: its repository, its searches, its ids and its listen
  guard, each with an instance on a small library that the operations themselves build.
\<close>

section \<open>A small library\<close>

definition quiet_engine :: engine where
  "quiet_engine =
     \<lparr>eng_fault = (\<lambda>i. None), eng_log_fault = None, eng_gap = (\<lambda>n. 0),
      eng_like = (\<lambda>p s. p = ''%'' @ s @ ''%''), eng_show_err = (\<lambda>e. ''failed''),
      eng_show_json = (\<lambda>j. ''json'')\<rparr>"

definition song :: "string \<Rightarrow> NewTrack" where
  "song name =
     \<lparr>nt_artist = ''A'', nt_track_name = name, nt_length_seconds = Some 180,
      nt_bitrate_kbps = None, nt_tempo_bpm = None, nt_addition_time = ''t'',
      nt_sources = [''u1'', ''u2'']\<rparr>"

definition library :: database where
  "library =
     snd (assign_tag quiet_engine 1 1 (snd (add_tag quiet_engine ''rock''
       (snd (add_track quiet_engine (song ''y'') (snd (add_track quiet_engine (song ''x'') empty_db)))))))"

lemma library_ok: "db_ok library"
  unfolding library_def
  by (intro safe_opD assign_tag_safe add_tag_safe add_track_safe db_ok_empty)

lemma quiet [simp]: "no_faults quiet_engine" "no_gaps quiet_engine"
  by (simp_all add: no_faults_def no_gaps_def quiet_engine_def)

lemmas run_simps = quiet_engine_def song_def logged_def try_log_def logged_steps_def
  unit_result_def no_rowid_def exec_def tbl_insert_def Let_def i64_max_def tbl_empty_def tbl_ids_def
  tbl_cols_def new_track_cols_def empty_db_def

lemma library_value:
  "library = empty_db
     \<lparr>track_info := \<lparr>tbl_rows = [(1, cols_of (song ''x'')), (2, cols_of (song ''y''))], tbl_seq = 2\<rparr>,
      track_sources :=
        \<lparr>tbl_rows = [(1, \<lparr>so_track_id = 1, so_url = ''u1''\<rparr>), (2, \<lparr>so_track_id = 1, so_url = ''u2''\<rparr>),
                     (3, \<lparr>so_track_id = 2, so_url = ''u1''\<rparr>), (4, \<lparr>so_track_id = 2, so_url = ''u2''\<rparr>)],
         tbl_seq = 4\<rparr>,
      tags := \<lparr>tbl_rows = [(1, ''rock'')], tbl_seq = 1\<rparr>,
      tag_assignments := \<lparr>tbl_rows = [(1, \<lparr>as_track_id = 1, as_tag_id = 1\<rparr>)], tbl_seq = 1\<rparr>\<rparr>"
  by (simp add: library_def add_track_def add_track_unlogged_def add_tag_def assign_tag_def
      insert_track_row_def insert_source_row_def insert_tag_row_def insert_assignment_row_def
      cols_of_def run_simps)

section \<open>Tracks\<close>

lemma fetch_track_Inr:
  assumes "tbl_ok (track_info d)" and "(k, c) \<in> set (tbl_rows (track_info d))"
  shows "fetch_track k d = Inr (track_of_row (k, c))"
proof -
  have "(k, c) \<in> set (tbl_select (\<lambda>j c. j = k) (track_info d))"
    using assms(2) by (simp add: tbl_select_def)
  then obtain r rs where r: "tbl_select (\<lambda>j c. j = k) (track_info d) = r # rs"
    by (cases "tbl_select (\<lambda>j c. j = k) (track_info d)") auto
  then have "r \<in> set (tbl_select (\<lambda>j c. j = k) (track_info d))" by simp
  then have "r \<in> set (tbl_rows (track_info d)) \<and> fst r = k"
    unfolding tbl_select_def by (simp only: set_filter) (auto simp: split_def)
  then obtain c' where "r = (k, c')" "(k, c') \<in> set (tbl_rows (track_info d))"
    by (cases r) simp
  then show ?thesis using tbl_row_unique [OF assms] r by (simp add: fetch_track_def)
qed

lemma fetch_track_cong:
  "tbl_select (\<lambda>j c. j = k) (track_info d') = tbl_select (\<lambda>j c. j = k) (track_info d)
     \<Longrightarrow> fetch_track k d' = fetch_track k d"
  by (simp add: fetch_track_def)

lemma no_sources_of_new:
  assumes "db_ok d" and "\<not> has_track d k"
  shows "sources_of d k = []"
proof -
  have "so_track_id ` set (tbl_cols (track_sources d)) \<subseteq> set (tbl_ids (track_info d))"
    using assms(1) by (simp add: db_ok_def refs_ok_def)
  then have "tbl_select (\<lambda>i c. so_track_id c = k) (track_sources d) = []"
    using assms(2) by (force simp: tbl_select_def tbl_cols_def filter_empty_conv)
  then show ?thesis by (simp add: sources_of_def)
qed

lemma fresh_track:
  assumes "db_ok d" and "tbl_seq (track_info d) < k"
  shows "\<not> has_track d k"
  using assms by (auto simp: db_ok_def tables_ok_def tbl_ok_def)

lemma all_sources_filter:
  assumes "distinct ids" and "length ids = length ts" and "i < length ts"
  shows "map snd (filter (\<lambda>p. fst p = ids ! i) (all_sources ts ids)) = nt_sources (ts ! i)"
  using assms
proof (induction ts arbitrary: ids i)
  case Nil
  then show ?case by simp
next
  case (Cons t ts)
  then obtain k ks where ids: "ids = k # ks" by (cases ids) auto
  have all: "all_sources (t # ts) ids = map (Pair k) (nt_sources t) @ all_sources ts ks"
    using ids by (simp add: all_sources_def)
  have later: "\<forall>p \<in> set (all_sources ts ks). fst p \<in> set ks"
    by (auto simp: all_sources_def dest: set_zip_rightD)
  show ?case
  proof (cases i)
    case 0
    have "filter (\<lambda>p. fst p = k) (all_sources ts ks) = []"
      using later Cons.prems(1) ids by (auto simp: filter_empty_conv)
    then show ?thesis using 0 ids all by (simp add: o_def)
  next
    case (Suc j)
    then have "ks ! j \<noteq> k" using Cons.prems ids by auto
    then have "filter (\<lambda>p. fst p = ks ! j) (map (Pair k) (nt_sources t)) = []"
      by (auto simp: filter_empty_conv)
    then show ?thesis using Suc Cons ids all by simp
  qed
qed

text \<open>C14: Batched insertion. When \<^verbatim>\<open>add_tracks\<close> succeeds (on an engine that takes the next rowid),
  whatever the batches, the ids it returns are the rowids of the given tracks in order, the rows
  are exactly the given tracks after those already there, and each track has exactly its own
  sources, in order.\<close>

theorem add_tracks_returns_the_ids:
  assumes "db_ok d" and "no_gaps E" and "add_tracks E ts d = (Ok ids, d')"
  shows "ids = map (\<lambda>i. tbl_seq (track_info d) + 1 + int i) [0..<length ts]
     \<and> tbl_rows (track_info d') = tbl_rows (track_info d) @ zip ids (map cols_of ts)
     \<and> (\<forall>i < length ts. map ts_url (sources_of d' (ids ! i)) = nt_sources (ts ! i))"
proof -
  obtain d1 where 1: "appends_tracks ts d d1" "appends_sources (all_sources ts ids) d1 d'"
    and ids: "ids = next_ids (tbl_seq (track_info d)) (length ts)"
    using add_tracks_effect [OF assms(2,3)] by blast
  have rows: "tbl_rows (track_info d1) = tbl_rows (track_info d) @ zip ids (map cols_of ts)"
    and src: "track_sources d1 = track_sources d"
    using 1(1) ids by (auto simp: appends_tracks_def)
  have "distinct ids" "length ids = length ts"
    using ids by (simp_all add: next_ids_def distinct_map inj_on_def)
  moreover have "sources_of d1 (ids ! i) = []" if "i < length ts" for i
  proof -
    have "tbl_seq (track_info d) < ids ! i" using that ids by (simp add: next_ids_def)
    then have "sources_of d (ids ! i) = []"
      using no_sources_of_new fresh_track assms(1) by blast
    then show ?thesis using src by (simp add: sources_of_def)
  qed
  ultimately have "map ts_url (sources_of d' (ids ! i)) = nt_sources (ts ! i)" if "i < length ts" for i
    using appends_sources_of [OF 1(2), of "ids ! i"] all_sources_filter that by simp
  moreover have "track_info d' = track_info d1" using appends_sources_frame [OF 1(2)] by simp
  ultimately show ?thesis using rows ids by (simp add: next_ids_def)
qed

lemma add_two_songs: "fst (add_tracks quiet_engine [song ''v'', song ''w''] library) = Ok [3, 4]"
  by (simp add: library_value add_tracks_def add_tracks_steps_def add_tracks_batch_def chunks.simps
      tracks_batch_size_def pairs_batch_size_def sqlite_limit_variable_number_def all_sources_def
      insert_track_rows_def insert_source_rows_def insert_track_row_def insert_source_row_def
      batch_ids_def in_ctx_def cols_of_def run_simps)

theorem add_tracks_returns_the_ids_witness:
  "\<exists>d'. add_tracks quiet_engine [song ''v'', song ''w''] library = (Ok [3, 4], d')
     \<and> map ts_url (sources_of d' 4) = [''u1'', ''u2'']"
proof -
  obtain d' where d': "add_tracks quiet_engine [song ''v'', song ''w''] library = (Ok [3, 4], d')"
    using add_two_songs by (metis prod.collapse)
  from add_tracks_returns_the_ids [OF library_ok quiet(2) this]
  have "\<forall>i < 2. map ts_url (sources_of d' ([3, 4] ! i)) = nt_sources ([song ''v'', song ''w''] ! i)"
    by (simp add: numeral_2_eq_2)
  from this [rule_format, of 1] show ?thesis using d' by (simp add: song_def)
qed

text \<open>C28: Adding and reading back. When \<^verbatim>\<open>add_track\<close> succeeds with an id, \<^verbatim>\<open>get_track\<close> of that id
  returns the given fields with a zero counter, \<^verbatim>\<open>get_sources_for_track\<close> returns the given sources
  in order, and every other track reads as before.\<close>

theorem add_track_round_trip:
  assumes "db_ok d" and "no_faults E" and "add_track E t d = (Ok k, d')"
  shows "get_track E k d' =
       (Ok \<lparr>tr_id = from_i64 k, tr_artist = nt_artist t, tr_track_name = nt_track_name t,
            tr_length_seconds = nt_length_seconds t, tr_bitrate_kbps = nt_bitrate_kbps t,
            tr_tempo_bpm = nt_tempo_bpm t, tr_addition_time = nt_addition_time t,
            tr_listened_seconds = 0\<rparr>, d')
     \<and> (\<exists>ss. get_sources_for_track E k d' = (Ok ss, d') \<and> map ts_url ss = nt_sources t)
     \<and> (\<forall>j. j \<noteq> k \<longrightarrow> fetch_track j d' = fetch_track j d \<and> sources_of d' j = sources_of d j)"
proof -
  have ok': "db_ok d'" using add_track_safe assms(1,3) by (auto simp: safe_op_def)
  obtain d1 where 1: "insert_track_row E t d = Inr (k, d1)"
    and 2: "for_each (\<lambda>i url s. exec E i (no_rowid (insert_source_row E k url s))) 2
          (nt_sources t) d1 = Inr d'"
    using assms(3)
    by (auto simp: add_track_def logged_Ok_iff add_track_unlogged_def inr_simps split: list.splits)
  obtain tb len where len: "nt_length_seconds t = Some len" and d1: "d1 = d\<lparr>track_info := tb\<rparr>"
    and ins: "tbl_insert E (new_track_cols t len) (track_info d) = Inr (k, tb)"
    and rows: "tbl_rows tb = tbl_rows (track_info d) @ [(k, new_track_cols t len)]"
    using insert_track_row_rows [OF 1] by blast
  have s: "appends_sources (map (Pair k) (nt_sources t)) d1 d'" by (rule insert_urls_appends [OF 2])
  have ti: "track_info d' = tb" using appends_sources_frame [OF s] d1 by simp
  have new: "\<not> has_track d k" using fresh_track [OF assms(1)] tbl_insert_Inr(3) [OF ins] by blast
  have "fetch_track k d' = Inr (track_of_row (k, new_track_cols t len))"
    using ok' ti rows by (intro fetch_track_Inr) (simp_all add: db_ok_def tables_ok_def)
  then have get: "get_track E k d' = (Ok (track_of_row (k, new_track_cols t len)), d')"
    using assms(2) by (simp add: get_track_def try_log_def)
  have "sources_of d1 k = []" using no_sources_of_new [OF assms(1) new] d1 by (simp add: sources_of_def)
  then have "map ts_url (sources_of d' k) = nt_sources t"
    using appends_sources_of [OF s, of k] by (simp add: o_def)
  moreover have "get_sources_for_track E k d' = (Ok (sources_of d' k), d')"
    using assms(2) by (simp add: get_sources_for_track_def try_log_def sources_of_def)
  moreover have "fetch_track j d' = fetch_track j d \<and> sources_of d' j = sources_of d j" if "j \<noteq> k" for j
  proof -
    have "fetch_track j d' = fetch_track j d"
      using that ti by (intro fetch_track_cong) (simp add: tbl_select_append [OF rows])
    moreover obtain tb2 rs where "d' = d1\<lparr>track_sources := tb2\<rparr>"
      "tbl_rows tb2 = tbl_rows (track_sources d1) @ rs"
      "map (\<lambda>(k, c). (so_track_id c, so_url c)) rs = map (Pair k) (nt_sources t)"
      using s by (auto simp: appends_sources_def)
    moreover from this(3) that have "filter (\<lambda>(i, c). so_track_id c = j) rs = []"
      by (auto simp: filter_empty_conv dest!: arg_cong [of _ _ set])
         (metis (no_types, lifting) Pair_inject case_prod_conv imageE image_eqI)
    ultimately show ?thesis using d1 by (simp add: sources_of_def tbl_select_append)
  qed
  ultimately show ?thesis
    using get len by (simp add: track_of_row_def new_track_cols_def bigint_try_from_def)
qed

theorem add_track_round_trip_witness:
  "\<exists>r d'. add_track quiet_engine (song ''v'') library = (Ok 3, d')
     \<and> get_track quiet_engine 3 d' = (Ok r, d') \<and> tr_track_name r = ''v''"
proof -
  have "fst (add_track quiet_engine (song ''v'') library) = Ok 3"
    by (simp add: library_value add_track_def add_track_unlogged_def insert_track_row_def
        insert_source_row_def cols_of_def run_simps)
  then obtain d' where "add_track quiet_engine (song ''v'') library = (Ok 3, d')"
    by (metis prod.collapse)
  from add_track_round_trip [OF library_ok quiet(1) this] this show ?thesis by (auto simp: song_def)
qed

text \<open>A track needs a length and a source. The command type lets a track have no length, but
  the column is \<^verbatim>\<open>NOT NULL\<close>: such a track is refused by the database, logged, and nothing else
  changes; and a track with no sources makes the call unwind before anything is written.\<close>

theorem track_without_length_is_refused:
  assumes "no_faults E" and "nt_length_seconds t = None"
  shows "add_track E (t\<lparr>nt_sources := url # urls\<rparr>) d = (Err NotNullViolation,
         log_error E (''add_track: '' @ nt_track_name t @ '', '' @ nt_artist t @ '', '' @ url)
           NotNullViolation d)
     \<and> add_track E (t\<lparr>nt_sources := []\<rparr>) d = (Panic, d)"
  using assms
  by (simp add: add_track_def logged_def try_log_def add_track_unlogged_def insert_track_row_def)

theorem track_without_length_is_refused_witness:
  "fst (add_track quiet_engine (song ''v''\<lparr>nt_length_seconds := None, nt_sources := [''u'']\<rparr>) library)
     = Err NotNullViolation"
  using track_without_length_is_refused [OF quiet(1), of "song ''v''\<lparr>nt_length_seconds := None\<rparr>"
      "''u''" "[]" library] by simp

text \<open>Partial update. A successful \<^verbatim>\<open>update_track\<close> changes the row of the given id only, there
  only the fields that are \<^verbatim>\<open>Some\<close>, and never the listened seconds; an update with nothing to set
  succeeds without asking the engine.\<close>

theorem update_changes_only_given_fields:
  assumes "update_track E rid u d = (Ok x, d')"
  shows "d' = d\<lparr>track_info := track_info d'\<rparr> \<and> tbl_ids (track_info d') = tbl_ids (track_info d)
     \<and> tbl_rows (track_info d') = map (\<lambda>(k, c). (k, if k = rid then c\<lparr>
          ti_artist := (case tu_artist u of Some v \<Rightarrow> v | None \<Rightarrow> ti_artist c),
          ti_track_name := (case tu_track_name u of Some v \<Rightarrow> v | None \<Rightarrow> ti_track_name c),
          ti_length_seconds := (case tu_length_seconds u of Some v \<Rightarrow> v | None \<Rightarrow> ti_length_seconds c),
          ti_bitrate_kbps := (case tu_bitrate_kbps u of Some v \<Rightarrow> Some v | None \<Rightarrow> ti_bitrate_kbps c),
          ti_tempo_bpm := (case tu_tempo_bpm u of Some v \<Rightarrow> Some v | None \<Rightarrow> ti_tempo_bpm c),
          ti_addition_time := (case tu_addition_time u of Some v \<Rightarrow> v | None \<Rightarrow> ti_addition_time c)\<rparr>
        else c)) (tbl_rows (track_info d))"
proof (cases "tu_artist u = None \<and> tu_track_name u = None \<and> tu_length_seconds u = None
         \<and> tu_bitrate_kbps u = None \<and> tu_tempo_bpm u = None \<and> tu_addition_time u = None")
  case True
  then have d': "d' = d" using assms by (simp add: update_track_def)
  have "apply_update u c = c" for c using True by (cases c) (simp add: apply_update_def)
  then have "map (\<lambda>(k, c). (k, if k = rid then apply_update u c else c)) xs = xs" for xs
    by (induction xs) auto
  then show ?thesis using d' unfolding apply_update_def by simp
next
  case False
  then have "update_track_row u rid d = Inr d'"
    using assms by (simp add: update_track_def logged_Ok_iff inr_simps split: if_splits)
  then have d': "d' = d\<lparr>track_info := tbl_update (\<lambda>k c. k = rid) (apply_update u) (track_info d)\<rparr>"
    by (auto simp: update_track_row_def Let_def split: if_splits)
  show ?thesis by (auto simp: d' tbl_update_def apply_update_def tbl_ids_def split_def)
qed

definition rename_x :: TrackUpdate where
  "rename_x = \<lparr>tu_artist = None, tu_track_name = Some ''z'', tu_length_seconds = None,
     tu_bitrate_kbps = None, tu_tempo_bpm = None, tu_addition_time = None\<rparr>"

theorem update_changes_only_given_fields_witness:
  "\<exists>d'. update_track quiet_engine 1 rename_x library = (Ok (), d')
     \<and> map (ti_track_name \<circ> snd) (tbl_rows (track_info d')) = [''z'', ''y'']
     \<and> map (ti_artist \<circ> snd) (tbl_rows (track_info d')) = [''A'', ''A'']"
proof -
  have "fst (update_track quiet_engine 1 rename_x library) = Ok ()"
    by (simp add: library_value update_track_def rename_x_def update_track_row_def tbl_update_def
        apply_update_def cols_of_def run_simps)
  then obtain d' where d': "update_track quiet_engine 1 rename_x library = (Ok (), d')"
    by (metis prod.collapse)
  from update_changes_only_given_fields [OF d'] d' show ?thesis
    by (auto simp: library_value rename_x_def cols_of_def new_track_cols_def song_def)
qed

text \<open>C15: Deleting a track is complete and touches nothing else. After a successful \<^verbatim>\<open>delete_track\<close>
  the track and every row that referred to it are gone, its archive row has been written, the tags
  and every other track, with its sources, tags and listened seconds, are as they were.\<close>

theorem delete_track_is_complete:
  assumes "db_ok d" and "delete_track E tid d = (Ok u, d')"
  shows "\<not> has_track d' tid \<and> sources_of d' tid = [] \<and> tag_ids_of d' tid = []
     \<and> tid \<notin> ls_track_id ` set (tbl_cols (listen_info d'))
     \<and> tid \<notin> me_track_id ` set (tbl_cols (track_meta d'))
     \<and> tid \<notin> cf_same_track_id ` set (tbl_cols (track_add_conflicts d'))
     \<and> tid \<notin> da_track_id ` set (tbl_cols (listened_daily d'))
     \<and> (\<exists>t. fetch_track tid d = Inr t \<and> tbl_cols (removed_tracks d')
          = tbl_cols (removed_tracks d) @ [eng_show_json E (archive_json tid t d)])
     \<and> tags d' = tags d
     \<and> (\<forall>j. j \<noteq> tid \<longrightarrow> fetch_track j d' = fetch_track j d \<and> sources_of d' j = sources_of d j
          \<and> tag_ids_of d' j = tag_ids_of d j \<and> daily_total d' j = daily_total d j)"
proof -
  have ok': "db_ok d'" using delete_track_safe assms by (auto simp: safe_op_def)
  obtain t k rt where t: "fetch_track tid d = Inr t"
    and rt: "tbl_insert E (eng_show_json E (archive_json tid t d)) (removed_tracks d) = Inr (k, rt)"
    and d': "d' = delete_track_row tid (d\<lparr>removed_tracks := rt\<rparr>)"
    using delete_track_effect [OF assms(2)] by blast
  have gone: "\<not> has_track d' tid" by (simp add: d' delete_track_row_def tbl_delete_id_ids)
  have none: "sources_of d' tid = []" using no_sources_of_new [OF ok' gone] .
  have refs: "refs_ok d'" using ok' by (simp add: db_ok_def)
  then have tag_none: "tag_ids_of d' tid = []"
    using gone by (auto simp: tag_ids_of_def refs_ok_def filter_empty_conv)
  have arch: "tbl_cols (removed_tracks d')
      = tbl_cols (removed_tracks d) @ [eng_show_json E (archive_json tid t d)]"
    using tbl_insert_Inr(6) [OF rt] by (simp add: d' delete_track_row_def)
  have other: "fetch_track j d' = fetch_track j d \<and> sources_of d' j = sources_of d j
      \<and> tag_ids_of d' j = tag_ids_of d j \<and> daily_total d' j = daily_total d j" if "j \<noteq> tid" for j
  proof -
    have "fetch_track j d' = fetch_track j d"
      using that by (intro fetch_track_cong)
        (auto simp: d' delete_track_row_def intro: select_delete_other)
    moreover have "sources_of d' j = sources_of d j"
      using that select_delete_other [of "\<lambda>i c. so_track_id c = j" "\<lambda>i c. so_track_id c = tid"
          "track_sources d"]
      by (simp add: sources_of_def d' delete_track_row_def)
    moreover have "tag_ids_of d' j = tag_ids_of d j"
      using that by (simp add: tag_ids_of_def d' delete_track_row_def tbl_delete_cols filter_filter_other)
    moreover have "daily_total d' j = daily_total d j"
      using delete_track_row_total [OF that] by (simp add: d' daily_total_def)
    ultimately show ?thesis by blast
  qed
  show ?thesis
    using gone none tag_none t arch other refs
    by (auto simp: refs_ok_def d' delete_track_row_def)
qed

lemma delete_first: "fst (delete_track quiet_engine 1 library) = Ok ()"
  by (simp add: library_value delete_track_def delete_track_unlogged_def fetch_track_def
      tbl_select_def insert_removed_row_def run_simps)

theorem delete_track_is_complete_witness:
  "\<exists>d'. delete_track quiet_engine 1 library = (Ok (), d') \<and> \<not> has_track d' 1
     \<and> sources_of d' 1 = [] \<and> sources_of d' 2 = sources_of library 2"
proof -
  obtain d' where d': "delete_track quiet_engine 1 library = (Ok (), d')"
    using delete_first by (metis prod.collapse)
  have two: "(2::int) \<noteq> 1" by simp
  from delete_track_is_complete [OF library_ok d'] d' two show ?thesis by blast
qed

text \<open>Ids are never reused. A track added after another has been deleted has a larger id than
  the deleted one.\<close>

theorem ids_are_never_reused:
  assumes "db_ok d" and "delete_track E k d = (Ok u, d1)" and "add_track E' t d1 = (Ok k', d2)"
  shows "k < k'"
proof -
  obtain r j rt where f: "fetch_track k d = Inr r"
    and d1: "d1 = delete_track_row k (d\<lparr>removed_tracks := rt\<rparr>)"
    using delete_track_effect [OF assms(2)] by blast
  have "has_track d k"
  proof (rule ccontr)
    assume "\<not> has_track d k"
    then have "tbl_select (\<lambda>j c. j = k) (track_info d) = []"
      by (force simp: tbl_select_def tbl_ids_def filter_empty_conv)
    then show False using f by (simp add: fetch_track_def)
  qed
  then have "k \<le> tbl_seq (track_info d)" using assms(1) by (simp add: db_ok_def tables_ok_def tbl_ok_def)
  moreover have "tbl_seq (track_info d1) = tbl_seq (track_info d)" by (simp add: d1 delete_track_row_def)
  moreover have "tbl_seq (track_info d1) < k'"
  proof -
    obtain s where "insert_track_row E' t d1 = Inr (k', s)"
      using assms(3)
      by (auto simp: add_track_def logged_Ok_iff add_track_unlogged_def inr_simps split: list.splits)
    then obtain c tb where "tbl_insert E' c (track_info d1) = Inr (k', tb)"
      using insert_track_row_rows by blast
    then show ?thesis by (rule tbl_insert_Inr(3))
  qed
  ultimately show ?thesis by simp
qed

theorem ids_are_never_reused_witness:
  "\<exists>d1 d2. delete_track quiet_engine 2 library = (Ok (), d1)
     \<and> add_track quiet_engine (song ''y'') d1 = (Ok 3, d2) \<and> (2::int) < 3"
proof -
  have v: "fst (delete_track quiet_engine 2 library) = Ok ()"
    "fst (add_track quiet_engine (song ''y'') (snd (delete_track quiet_engine 2 library))) = Ok 3"
    by (simp_all add: library_value delete_track_def delete_track_unlogged_def fetch_track_def
        tbl_select_def insert_removed_row_def delete_track_row_def tbl_delete_def add_track_def
        add_track_unlogged_def insert_track_row_def insert_source_row_def cols_of_def run_simps)
  obtain d1 where 1: "delete_track quiet_engine 2 library = (Ok (), d1)"
    using v(1) by (metis prod.collapse)
  obtain d2 where 2: "add_track quiet_engine (song ''y'') d1 = (Ok 3, d2)"
    using v(2) 1 by (metis prod.collapse snd_conv)
  from ids_are_never_reused [OF library_ok 1 2] 1 2 show ?thesis by blast
qed

section \<open>Listened seconds\<close>

text \<open>The ledger. A successful \<^verbatim>\<open>add_listened_seconds\<close> adds the seconds to the counter of the
  track and to the sum of its daily records, to no other track's, and the two still agree for
  every track.\<close>

theorem listened_seconds_are_recorded_twice:
  assumes "db_ok d" and "add_listened_seconds E today tid n d = (Ok u, d')"
  shows "(\<forall>j. daily_total d' j = daily_total d j + (if j = tid then n else 0))
     \<and> tbl_rows (track_info d') = map (\<lambda>(k, c). (k, if k = tid
          then c\<lparr>ti_listened_seconds := ti_listened_seconds c + n\<rparr> else c)) (tbl_rows (track_info d))
     \<and> (\<forall>(k, c) \<in> set (tbl_rows (track_info d')). ti_listened_seconds c = daily_total d' k)"
proof -
  have up: "upsert_daily_row E today tid n (bump_listened tid n d) = Inr d'"
    by (rule add_listened_seconds_effect [OF assms(2)])
  have "uniq_ok (bump_listened tid n d)" using bump_listened_ok assms(1) by (simp add: db_ok_def)
  from upsert_daily_total [OF this up]
  have "daily_total d' j = daily_total d j + (if j = tid then n else 0)" for j
    by (simp add: daily_add_def bump_listened_def daily_total_def)
  moreover have "tbl_rows (track_info d') = map (\<lambda>(k, c). (k, if k = tid
          then c\<lparr>ti_listened_seconds := ti_listened_seconds c + n\<rparr> else c)) (tbl_rows (track_info d))"
    using upsert_daily_frame [OF up] by (auto simp: bump_listened_def tbl_update_def)
  moreover have "ledger_ok d'" using record_listen_ok [OF assms(1) up] by (simp add: db_ok_def)
  ultimately show ?thesis by (simp add: ledger_ok_def)
qed

theorem listened_seconds_are_recorded_twice_witness:
  "\<exists>d'. add_listened_seconds quiet_engine ''d1'' 1 30 library = (Ok (), d')
     \<and> daily_total d' 1 = daily_total library 1 + 30 \<and> daily_total d' 2 = daily_total library 2"
proof -
  have "fst (add_listened_seconds quiet_engine ''d1'' 1 30 library) = Ok ()"
    by (simp add: library_value add_listened_seconds_def add_listened_seconds_steps_def in_ctx_def
        bump_listened_def tbl_update_def upsert_daily_row_def run_simps)
  then obtain d' where d': "add_listened_seconds quiet_engine ''d1'' 1 30 library = (Ok (), d')"
    by (metis prod.collapse)
  from listened_seconds_are_recorded_twice [OF library_ok d'] d' show ?thesis by simp
qed

text \<open>Seconds of a missing track. On an engine that does not fail, \<^verbatim>\<open>add_listened_seconds\<close> for an
  id that is no track is refused by the foreign key of the daily record, after the first statement
  of the transaction changed no row; the error is logged with the context of that step.\<close>

theorem seconds_of_missing_track_are_refused:
  assumes "db_ok d" and "no_faults E" and "\<not> has_track d tid"
  shows "add_listened_seconds E today tid n d
     = (Err ForeignKeyViolation,
        log_error E ''add_listened_seconds: upsert listened_daily'' ForeignKeyViolation d)"
proof -
  have "da_track_id ` set (tbl_cols (listened_daily d)) \<subseteq> set (tbl_ids (track_info d))"
    using assms(1) by (simp add: db_ok_def refs_ok_def)
  then have "(today, tid) \<notin> set (map daily_key (tbl_cols (listened_daily (bump_listened tid n d))))"
    using assms(3) by (auto simp: bump_listened_def)
  moreover have "\<not> has_track (bump_listened tid n d) tid" using assms(3) by (simp add: bump_listened_def)
  ultimately have "upsert_daily_row E today tid n (bump_listened tid n d) = Inl ForeignKeyViolation"
    by (simp add: upsert_daily_row_def)
  then show ?thesis
    using assms(2)
    by (simp add: add_listened_seconds_def add_listened_seconds_steps_def logged_steps_def in_ctx_def)
qed

theorem seconds_of_missing_track_are_refused_witness:
  "fst (add_listened_seconds quiet_engine ''d1'' 9 30 library) = Err ForeignKeyViolation"
proof -
  have "\<not> has_track library 9" by (simp add: library_value tbl_ids_def)
  from seconds_of_missing_track_are_refused [OF library_ok quiet(1) this, of "''d1''" 30]
  show ?thesis by simp
qed

section \<open>Tags and sources\<close>

text \<open>C17: Batched assignment. On an engine that does not fail, \<^verbatim>\<open>assign_tags\<close> in batches of 500 is
  one loop over all pairs, in order, in one transaction; and when it succeeds the assignments are
  those there were and all the given ones, and no other table has changed.\<close>

theorem assign_tags_is_one_loop:
  assumes "no_faults E"
  shows "assign_tags E as d =
       (case all_pairs as of
          Ok ps \<Rightarrow> logged E ''assign_tags'' (unit_result (insert_assignment_rows E ps d)) d
        | Err e \<Rightarrow> try_log E ''assign_tags'' (Inl e) d
        | Panic \<Rightarrow> (Panic, d))
     \<and> (\<forall>ps d'. all_pairs as = Ok ps \<longrightarrow> assign_tags E as d = (Ok (), d') \<longrightarrow>
          assigned d' = assigned d \<union> set ps \<and> d' = d\<lparr>tag_assignments := tag_assignments d'\<rparr>)"
proof -
  have eq: "assign_tags E as d =
       (case all_pairs as of
          Ok ps \<Rightarrow> logged E ''assign_tags'' (unit_result (insert_assignment_rows E ps d)) d
        | Err e \<Rightarrow> try_log E ''assign_tags'' (Inl e) d
        | Panic \<Rightarrow> (Panic, d))"
    using assms by (simp add: assign_tags_def assign_pairs_one_loop split: rust.splits)
  have "assigned d' = assigned d \<union> set ps \<and> d' = d\<lparr>tag_assignments := tag_assignments d'\<rparr>"
    if "all_pairs as = Ok ps" "assign_tags E as d = (Ok (), d')" for ps d'
  proof -
    have "insert_assignment_rows E ps d = Inr d'"
      using that eq by (simp add: logged_Ok_iff unit_result_Inr_iff)
    then show ?thesis using insert_assignment_rows_effect by fastforce
  qed
  then show ?thesis using eq by blast
qed

theorem assign_tags_is_one_loop_witness:
  "\<exists>d'. assign_tags quiet_engine [\<lparr>ta_track_id = from_i64 2, ta_tag_ids = [from_i64 1]\<rparr>] library
       = (Ok (), d') \<and> assigned d' = assigned library \<union> {(2, 1)}"
proof -
  let ?ga = "[\<lparr>ta_track_id = from_i64 2, ta_tag_ids = [from_i64 1]\<rparr>]"
  have i: "is_i64 1" "is_i64 2" by (simp_all add: is_i64_def i64_min_def i64_max_def)
  have ps: "all_pairs ?ga = (Ok [(2, 1)] :: (sqlx_error, (int \<times> int) list) rust)"
    using i by simp
  note loop = assign_tags_is_one_loop [OF quiet(1), of "?ga" library]
  have "insert_assignment_rows quiet_engine [(2, 1)] library
      = Inr (library\<lparr>tag_assignments := \<lparr>tbl_rows = [(1, \<lparr>as_track_id = 1, as_tag_id = 1\<rparr>),
           (2, \<lparr>as_track_id = 2, as_tag_id = 1\<rparr>)], tbl_seq = 2\<rparr>\<rparr>)"
    by (simp add: library_value insert_assignment_rows_def insert_assignment_row_def run_simps)
  then obtain d' where d': "assign_tags quiet_engine ?ga library = (Ok (), d')"
    using loop ps by (simp add: logged_def try_log_def unit_result_def)
  then show ?thesis using loop ps by simp
qed

text \<open>Deleting a tag. A successful \<^verbatim>\<open>delete_tag\<close> removes the tag and exactly its assignments; the
  tracks and the assignments of other tags stay.\<close>

theorem delete_tag_removes_its_assignments:
  assumes "delete_tag E gid d = (Ok u, d')"
  shows "\<not> has_tag d' gid \<and> assigned d' = {p \<in> assigned d. snd p \<noteq> gid}
     \<and> track_info d' = track_info d \<and> track_sources d' = track_sources d"
proof -
  have d': "d' = delete_tag_row gid d"
    using assms by (auto simp: delete_tag_def logged_Ok_iff inr_simps)
  have "assigned d' = {p \<in> assigned d. snd p \<noteq> gid}"
    by (force simp: d' assigned_def delete_tag_row_def tbl_delete_cols)
  then show ?thesis by (simp add: d' delete_tag_row_def tbl_delete_id_ids)
qed

theorem delete_tag_removes_its_assignments_witness:
  "\<exists>d'. delete_tag quiet_engine 1 library = (Ok (), d') \<and> assigned library = {(1, 1)}
     \<and> assigned d' = {}"
proof -
  have "fst (delete_tag quiet_engine 1 library) = Ok ()" by (simp add: delete_tag_def run_simps)
  then obtain d' where d': "delete_tag quiet_engine 1 library = (Ok (), d')" by (metis prod.collapse)
  have "assigned library = {(1, 1)}" by (simp add: assigned_def library_value tbl_cols_def)
  with delete_tag_removes_its_assignments [OF d'] d' show ?thesis by auto
qed

text \<open>Replacing a source. A successful \<^verbatim>\<open>edit_track_source\<close> takes the old url out of the
  sources of the track and puts the new one at their end; other tracks' sources stay.\<close>

theorem edit_track_source_replaces:
  assumes "edit_track_source E tid old new d = (Ok u, d')"
  shows "map ts_url (sources_of d' tid)
       = filter (\<lambda>url. url \<noteq> old) (map ts_url (sources_of d tid)) @ [new]
     \<and> (\<forall>j. j \<noteq> tid \<longrightarrow> sources_of d' j = sources_of d j)
     \<and> d' = d\<lparr>track_sources := track_sources d'\<rparr>"
proof -
  let ?d1 = "delete_source_row tid old d"
  obtain k where ins: "insert_source_row E tid new ?d1 = Inr (k, d')"
    using assms
    by (auto simp: edit_track_source_def logged_steps_Ok_iff edit_track_source_steps_def inr_simps)
  obtain tb where d': "d' = ?d1\<lparr>track_sources := tb\<rparr>"
    and rows: "tbl_rows tb = tbl_rows (track_sources ?d1) @ [(k, \<lparr>so_track_id = tid, so_url = new\<rparr>)]"
    using insert_source_row_rows [OF ins] by blast
  have kept: "map (ts_url \<circ> source_of_row) (filter (\<lambda>(i, c). so_track_id c = tid)
        (filter (\<lambda>(i, c). \<not> (so_track_id c = tid \<and> so_url c = old)) xs))
      = filter (\<lambda>url. url \<noteq> old)
          (map (ts_url \<circ> source_of_row) (filter (\<lambda>(i, c). so_track_id c = tid) xs))" for xs
    by (induction xs) (auto simp: source_of_row_def)
  have kept_urls: "map ts_url (sources_of ?d1 tid)
      = filter (\<lambda>url. url \<noteq> old) (map ts_url (sources_of d tid))"
    using kept [of "tbl_rows (track_sources d)"]
    by (cases d, cases "track_sources d") (simp only: sources_of_def delete_source_row_def database.select_convs database.update_convs
        tbl_select_def tbl_delete_def tbl.select_convs tbl.update_convs list.map_comp)
  have "map ts_url (sources_of d' tid) = map ts_url (sources_of ?d1 tid) @ [new]"
    by (simp add: d' sources_of_def tbl_select_append [OF rows] source_of_row_def)
  with kept_urls have "map ts_url (sources_of d' tid)
      = filter (\<lambda>url. url \<noteq> old) (map ts_url (sources_of d tid)) @ [new]" by simp
  moreover have "sources_of d' j = sources_of d j" if "j \<noteq> tid" for j
    using that select_delete_other [of "\<lambda>i c. so_track_id c = j"
        "\<lambda>i c. so_track_id c = tid \<and> so_url c = old" "track_sources d"]
    by (simp add: d' sources_of_def tbl_select_append [OF rows] delete_source_row_def)
  ultimately show ?thesis by (simp add: d' delete_source_row_def)
qed

theorem edit_track_source_replaces_witness:
  "\<exists>d'. edit_track_source quiet_engine 1 ''u1'' ''u3'' library = (Ok (), d')
     \<and> map ts_url (sources_of d' 1) = [''u2'', ''u3'']"
proof -
  have "fst (edit_track_source quiet_engine 1 ''u1'' ''u3'' library) = Ok ()"
    by (simp add: library_value edit_track_source_def edit_track_source_steps_def in_ctx_def
        delete_source_row_def tbl_delete_def insert_source_row_def run_simps)
  then obtain d' where d': "edit_track_source quiet_engine 1 ''u1'' ''u3'' library = (Ok (), d')"
    by (metis prod.collapse)
  have "map ts_url (sources_of library 1) = [''u1'', ''u2'']"
    by (simp add: library_value sources_of_def tbl_select_def source_of_row_def)
  with edit_track_source_replaces [OF d'] d' show ?thesis by auto
qed

end
