(* ===== verification/Query_Properties.thy ===== *)
theory Query_Properties
  imports Library_Properties
begin

text \<open>
  The properties of the searches: the text and the bind values of \<^verbatim>\<open>get_tracks\<close>, the page of
  \<^verbatim>\<open>get_tracks_filtered\<close>, the join of the sources and the tag filters; then those of the ids
  and of the listen guard.
\<close>

section \<open>The text of get\_tracks\<close>

definition artist_search :: "string \<Rightarrow> SearchCriteria list" where
  "artist_search pat = [\<lparr>sc_column_name = ''artist'', sc_criteria = [TextLike pat False]\<rparr>]"

definition tag_search :: "int list \<Rightarrow> SearchCriteria list" where
  "tag_search ids = [\<lparr>sc_column_name = ''tags'', sc_criteria = [TagsIn (map from_i64 ids)]\<rparr>]"

lemma scan_artist_search:
  "scan_criteria (Some (artist_search pat))
     = Ok \<lparr>sn_conditions = [''ti.artist LIKE ?''], sn_binds = [BText pat], sn_tags = None\<rparr>"
  by (simp add: scan_criteria_def artist_search_def scan_criterion_def Let_def allowed_columns_def
      add_condition_def empty_scan_def)

lemma scan_tag_search:
  "scan_criteria (Some (tag_search [1]))
     = Ok \<lparr>sn_conditions = [], sn_binds = [], sn_tags = Some (Any [1])\<rparr>"
proof -
  have "(to_i64 (from_i64 1) :: (sqlx_error, int) rust) = Ok 1"
    by (rule to_i64_from_i64) (simp add: is_i64_def i64_min_def i64_max_def)
  then show ?thesis
    by (simp add: scan_criteria_def tag_search_def scan_criterion_def Let_def empty_scan_def)
qed

lemma empty_where:
  assumes "sn_tags s = Some f" and "sn_conditions s = []"
  shows "\<exists>before. base_sql s = before @ '' WHERE  ORDER BY ti.id ASC LIMIT ?''"
proof (cases f)
  case (Any ids)
  have "base_sql s = (''SELECT ti.* FROM (SELECT DISTINCT track_id FROM tag_assignments WHERE tag_id IN (''
      @ question_marks (length ids)
      @ '') AND track_id >= ?) ta INNER JOIN track_info ti ON ti.id = ta.track_id'')
      @ '' WHERE  ORDER BY ti.id ASC LIMIT ?''"
    using assms Any by (simp add: base_sql_def)
  then show ?thesis by blast
next
  case (All ids)
  have "base_sql s = (''SELECT ti.* FROM (SELECT track_id FROM tag_assignments WHERE tag_id IN (''
      @ question_marks (length ids)
      @ '') AND track_id >= ? GROUP BY track_id HAVING COUNT(DISTINCT tag_id) = ?) ta ''
      @ ''INNER JOIN track_info ti ON ti.id = ta.track_id'')
      @ '' WHERE  ORDER BY ti.id ASC LIMIT ?''"
    using assms All by (simp add: base_sql_def)
  then show ?thesis by blast
qed

text \<open>C16: Every placeholder has its value. For criteria without a tag filter, the query text that
  \<^verbatim>\<open>get_tracks\<close> assembles has exactly as many placeholders as it binds values.\<close>

theorem placeholders_match_binds:
  assumes "scan_criteria criteria = Ok s" and "sn_tags s = None"
  shows "placeholders (tracks_sql s) = length (tracks_binds s after limit)"
  using base_sql_placeholders [OF scan_criteria_bound [OF assms(1)]] assms(2)
  by (simp add: tracks_sql_placeholders tracks_binds_length)

theorem placeholders_match_binds_witness:
  "placeholders (tracks_sql \<lparr>sn_conditions = [''ti.artist LIKE ?''], sn_binds = [BText ''%A%''],
       sn_tags = None\<rparr>)
     = length (tracks_binds \<lparr>sn_conditions = [''ti.artist LIKE ?''], sn_binds = [BText ''%A%''],
       sn_tags = None\<rparr> 0 10)"
  using placeholders_match_binds [OF scan_artist_search] by simp

text \<open>A tag filter lacks a value. With a tag filter the text has one placeholder more than
  there are values: the inner \<^verbatim>\<open>LIMIT ?\<close> of both shapes has none, and the last values slide.\<close>

theorem tag_filter_lacks_a_bind:
  assumes "scan_criteria criteria = Ok s" and "sn_tags s = Some f"
  shows "placeholders (tracks_sql s) = length (tracks_binds s after limit) + 1"
  using base_sql_placeholders [OF scan_criteria_bound [OF assms(1)]] assms(2)
  by (cases f) (simp_all add: tracks_sql_placeholders tracks_binds_length)

theorem tag_filter_lacks_a_bind_witness:
  "placeholders (tracks_sql \<lparr>sn_conditions = [], sn_binds = [], sn_tags = Some (Any [1])\<rparr>)
     = length (tracks_binds \<lparr>sn_conditions = [], sn_binds = [], sn_tags = Some (Any [1])\<rparr> 0 10) + 1"
  using tag_filter_lacks_a_bind [OF scan_tag_search] by simp

text \<open>A tag filter alone is no SQL. When tags are the only criterion, the text has a
  \<^verbatim>\<open>WHERE\<close> with nothing between it and \<^verbatim>\<open>ORDER BY\<close>.\<close>

theorem tag_filter_alone_has_empty_where:
  assumes "sn_tags s = Some f" and "sn_conditions s = []"
  shows "\<exists>before behind. tracks_sql s = before @ '' WHERE  ORDER BY ti.id ASC LIMIT ?'' @ behind"
proof -
  obtain before where "base_sql s = before @ '' WHERE  ORDER BY ti.id ASC LIMIT ?''"
    using empty_where [OF assms] by blast
  then have "tracks_sql s = (''with s1 as ('' @ before) @ '' WHERE  ORDER BY ti.id ASC LIMIT ?''
      @ ''),  oPrior as (select * from s1 where id < ? order by id desc limit ?), ''
      @ ''oAfter as (select * from s1 where id >= ? order by id asc limit ?) ''
      @ ''select * from oPrior union all  select * from oAfter order by id asc''"
    unfolding tracks_sql_def by (simp only: append_assoc)
  then show ?thesis by blast
qed

theorem tag_filter_alone_has_empty_where_witness:
  "\<exists>s before behind. scan_criteria (Some (tag_search [1])) = Ok s
     \<and> tracks_sql s = before @ '' WHERE  ORDER BY ti.id ASC LIMIT ?'' @ behind"
  using tag_filter_alone_has_empty_where
    [of "\<lparr>sn_conditions = [], sn_binds = [], sn_tags = Some (Any [1])\<rparr>" "Any [1]"] scan_tag_search
  by auto

text \<open>C29: The text does not depend on the values. Two accepted searches that differ only in the
  values they compare with (the patterns, the numbers, the listed texts and ids, but not their
  count) have the same query text: no value can become part of the SQL.\<close>

theorem sql_text_ignores_values:
  assumes "scan_criteria (Some cs) = Ok s" and "scan_criteria (Some cs') = Ok s'"
    and "map blank_criterion cs = map blank_criterion cs'"
  shows "tracks_sql s = tracks_sql s'"
proof -
  obtain t where t: "scan_criteria (Some (map blank_criterion cs)) = Ok t" "same_text s t"
    using scan_criteria_blank [OF assms(1)] by blast
  obtain t' where "scan_criteria (Some (map blank_criterion cs')) = Ok t'" "same_text s' t'"
    using scan_criteria_blank [OF assms(2)] by blast
  then show ?thesis using t assms(3) same_text_sql by (metis rust.inject(1))
qed

theorem sql_text_ignores_values_witness:
  "\<exists>s s'. scan_criteria (Some (artist_search ''x'')) = Ok s
     \<and> scan_criteria (Some (artist_search ''a; DROP TABLE tags'')) = Ok s'
     \<and> sn_binds s \<noteq> sn_binds s' \<and> tracks_sql s = tracks_sql s'"
proof -
  have "map blank_criterion (artist_search ''x'')
      = map blank_criterion (artist_search ''a; DROP TABLE tags'')"
    by (simp add: artist_search_def blank_criterion_def)
  from sql_text_ignores_values [OF scan_artist_search scan_artist_search this]
  show ?thesis using scan_artist_search by auto
qed

text \<open>Unknown columns never reach the engine. A search with a criterion on a column that is not
  in the allowlist fails without an answer of the engine being used, and leaves the database as it
  was, its error log included.\<close>

theorem unknown_column_is_refused:
  assumes "sc \<in> set cs" and "sc_column_name sc \<notin> set (''tags'' # allowed_columns)"
  shows "(\<forall>ts. fst (get_tracks E q cursor (Some cs) limit d) \<noteq> Ok ts)
     \<and> snd (get_tracks E q cursor (Some cs) limit d) = d
     \<and> get_tracks E q cursor (Some cs) limit d = get_tracks E' q' cursor' (Some cs) limit' d"
proof -
  show ?thesis
  proof (cases "scan_criteria (Some cs)")
    case (Ok s)
    then show ?thesis using scan_criteria_wf assms by blast
  qed (simp_all add: get_tracks_def)
qed

theorem unknown_column_is_refused_witness:
  "\<forall>ts. fst (get_tracks quiet_engine (\<lambda>sql bs d. Inr [])
      None (Some [\<lparr>sc_column_name = ''id; --'', sc_criteria = [NullCheck True]\<rparr>]) 5 library) \<noteq> Ok ts"
proof -
  have "\<lparr>sc_column_name = ''id; --'', sc_criteria = [NullCheck True]\<rparr>
      \<in> set [\<lparr>sc_column_name = ''id; --'', sc_criteria = [NullCheck True]\<rparr>]" by simp
  from unknown_column_is_refused [OF this] show ?thesis by (simp add: allowed_columns_def)
qed

section \<open>Pages\<close>

text \<open>C30: The filtered page. A successful \<^verbatim>\<open>get_tracks_filtered\<close> returns, of the tracks that satisfy
  every clause of the filter and in ascending id order, the last \<^verbatim>\<open>limit\<close> before the cursor and then
  the first \<^verbatim>\<open>limit\<close> from the cursor on, with nothing left out between them, so at most twice
  \<^verbatim>\<open>limit\<close> tracks; the database does not change.\<close>

theorem filtered_page_is_a_window:
  assumes "db_ok d" and "get_tracks_filtered E ea cursor criteria limit d = (Ok ts, d')"
  shows "d' = d \<and> (\<exists>ws rs. where_clauses (case criteria of Some cs \<Rightarrow> cs | None \<Rightarrow> []) = Ok ws
     \<and> rs = filter (\<lambda>(k, c). list_all (clause_holds E ea d k c) ws) (tbl_rows (track_info d))
     \<and> ts = map track_of_row (rev (sql_limit limit (rev (filter (\<lambda>r. fst r < cursor_start cursor) rs)))
              @ sql_limit limit (filter (\<lambda>r. cursor_start cursor \<le> fst r) rs))
     \<and> (\<exists>n m. ts = map track_of_row (take n (drop m rs)))
     \<and> (0 \<le> limit \<longrightarrow> length ts \<le> 2 * nat limit))"
proof -
  obtain ws where ws: "where_clauses (case criteria of Some cs \<Rightarrow> cs | None \<Rightarrow> []) = Ok ws"
    using assms(2) by (auto simp: get_tracks_filtered_def split: rust.splits)
  let ?rs = "tbl_select (\<lambda>k c. list_all (clause_holds E ea d k c) ws) (track_info d)"
  have ts: "ts = map track_of_row (page (cursor_start cursor) limit ?rs)" and d': "d' = d"
    using assms(2) ws by (auto simp: get_tracks_filtered_def try_log_Ok_iff exec_Inr_iff)
  have "sorted_wrt (<) (map fst (tbl_rows (track_info d)))"
    using assms(1) by (simp add: db_ok_def tables_ok_def tbl_ok_def tbl_ids_def)
  then have sorted: "sorted_wrt (<) (map fst ?rs)"
    unfolding tbl_select_def by (rule sorted_wrt_map_filter)
  have page: "ts = map track_of_row (page_before (cursor_start cursor) limit ?rs
      @ page_from (cursor_start cursor) limit ?rs)"
    using ts page_eq [OF sorted] by simp
  have short: "0 \<le> limit \<longrightarrow> length ts \<le> 2 * nat limit"
    unfolding page by (auto simp: page_before_def page_from_def sql_limit_def min_def)
  have "\<exists>n m. page_before (cursor_start cursor) limit ?rs
      @ page_from (cursor_start cursor) limit ?rs = take n (drop m ?rs)"
    using page_parts_sublist [OF sorted] by blast
  then have whole: "\<exists>n m. ts = map track_of_row (take n (drop m ?rs))" using page by metis
  have rs: "?rs = filter (\<lambda>(k, c). list_all (clause_holds E ea d k c) ws) (tbl_rows (track_info d))"
    by (simp add: tbl_select_def)
  show ?thesis
    by (intro conjI exI [of _ ws] exI [of _ ?rs])
      (use d' ws rs whole short page [unfolded page_before_def page_from_def] in blast)+
qed

theorem filtered_page_is_a_window_witness:
  "get_tracks_filtered quiet_engine True (Some 2) None 1 library
     = (Ok [track_of_row (1, cols_of (song ''x'')), track_of_row (2, cols_of (song ''y''))], library)"
proof -
  have w: "where_clauses [] = (Ok [] :: (sqlx_error, where_clause list) rust)"
    by (simp add: where_clauses_def criteria_map_def Let_def)
  then obtain ts where ts: "get_tracks_filtered quiet_engine True (Some 2) None 1 library = (Ok ts, library)"
    by (simp add: get_tracks_filtered_def try_log_def)
  from filtered_page_is_a_window [OF library_ok this] w
  have "ts = [track_of_row (1, cols_of (song ''x'')), track_of_row (2, cols_of (song ''y''))]"
    by (auto simp: library_value cursor_start_def sql_limit_def)
  with ts show ?thesis by simp
qed

text \<open>Every track gets its own sources. When the page holds tracks with distinct ids, in
  whatever order, \<^verbatim>\<open>get_tracks_with_sources\<close> returns them in that order, each with exactly the
  sources of its own id, in id order; a track without sources has none.\<close>

theorem sources_follow_their_tracks:
  assumes "get_tracks E q cursor criteria limit d = (Ok (map track_of_row rs), d)"
    and "distinct (map fst rs)" and "\<forall>r \<in> set rs. is_i64 (fst r)" and "eng_fault E 1 = None"
  shows "get_tracks_with_sources E q cursor criteria limit d
     = (Ok (map (\<lambda>r. \<lparr>tw_track = track_of_row r, tw_sources = sources_of d (fst r)\<rparr>) rs), d)"
proof (cases "rs = []")
  case True
  then show ?thesis using assms(1) by (simp add: get_tracks_with_sources_def)
next
  case False
  have ids: "to_i64_all (map tr_id (map track_of_row rs)) = (Ok (map fst rs) :: (sqlx_error, int list) rust)"
    using assms(3) by (induction rs) (simp_all add: track_of_row_def bigint_try_from_def)
  have zip: "zip (map fst rs) (map track_of_row rs) = map (\<lambda>r. (fst r, track_of_row r)) rs"
    by (induction rs) simp_all
  let ?m = "foldl push_source (\<lambda>k. None)
      (tbl_select (\<lambda>i c. so_track_id c \<in> set (map fst rs)) (track_sources d))"
  have "attach_sources ?m (zip (map fst rs) (map track_of_row rs))
      = map (\<lambda>r. \<lparr>tw_track = track_of_row r, tw_sources = sources_of d (fst r)\<rparr>) rs"
    unfolding zip
  proof (subst attach_sources_distinct)
    show "distinct (map fst (map (\<lambda>r. (fst r, track_of_row r)) rs))"
      using assms(2) by (simp add: o_def)
  next
    have "(case ?m (fst r) of Some ss \<Rightarrow> ss | None \<Rightarrow> []) = sources_of d (fst r)" if "r \<in> set rs" for r
      by (rule joined_sources) (use that in simp)
    then show "map (\<lambda>(k, t). \<lparr>tw_track = t,
        tw_sources = (case ?m k of Some ss \<Rightarrow> ss | None \<Rightarrow> [])\<rparr>)
          (map (\<lambda>r. (fst r, track_of_row r)) rs)
        = map (\<lambda>r. \<lparr>tw_track = track_of_row r, tw_sources = sources_of d (fst r)\<rparr>) rs"
      by (simp del: set_map)
  qed
  then show ?thesis
    using assms(1,4) False ids by (simp add: get_tracks_with_sources_def try_log_def)
qed

theorem sources_follow_their_tracks_witness:
  "\<exists>ws. get_tracks_with_sources quiet_engine (\<lambda>sql bs d. Inr (map track_of_row (tbl_rows (track_info d))))
       None None 10 library = (Ok ws, library)
     \<and> map (map ts_url \<circ> tw_sources) ws = [[''u1'', ''u2''], [''u1'', ''u2'']]"
proof -
  let ?q = "\<lambda>sql bs d. Inr (map track_of_row (tbl_rows (track_info d)))"
  have g: "get_tracks quiet_engine ?q None None 10 library
      = (Ok (map track_of_row (tbl_rows (track_info library))), library)"
    by (simp add: get_tracks_def scan_criteria_def try_log_def)
  have "distinct (map fst (tbl_rows (track_info library)))"
    "\<forall>r \<in> set (tbl_rows (track_info library)). is_i64 (fst r)" "eng_fault quiet_engine 1 = None"
    by (simp_all add: library_value is_i64_def i64_min_def i64_max_def quiet_engine_def)
  from sources_follow_their_tracks [OF g this]
  show ?thesis
    by (simp add: library_value sources_of_def tbl_select_def source_of_row_def)
qed

text \<open>What a filter for all tags means. The clause holds of a track exactly when the list of
  ids is not empty, has no duplicates, and each id is assigned to the track; so a list that names
  one tag twice matches no track.\<close>

theorem all_tags_clause_meaning:
  assumes "db_ok d"
  shows "clause_holds E ea d k c (HasAllTags ids (length ids))
     = (ids \<noteq> [] \<and> distinct ids \<and> (\<forall>g. g \<in> set ids \<longrightarrow> (k, g) \<in> assigned d))"
proof -
  have "distinct (tag_ids_of d k)" using assms by (simp add: distinct_tag_ids_of db_ok_def)
  moreover have "g \<in> set (tag_ids_of d k) \<longleftrightarrow> (k, g) \<in> assigned d" for g
    by (force simp: tag_ids_of_def assigned_def)
  ultimately show ?thesis using has_all_tags_iff [of "tag_ids_of d k" ids] by auto
qed

theorem all_tags_clause_meaning_witness:
  "clause_holds quiet_engine True library 1 (cols_of (song ''x'')) (HasAllTags [1] 1)
   \<and> \<not> clause_holds quiet_engine True library 1 (cols_of (song ''x'')) (HasAllTags [1, 1] 2)"
proof -
  have a: "assigned library = {(1, 1)}" by (simp add: assigned_def library_value tbl_cols_def)
  show ?thesis
    using all_tags_clause_meaning [OF library_ok, of quiet_engine True 1 "cols_of (song ''x'')" "[1]"]
      all_tags_clause_meaning [OF library_ok, of quiet_engine True 1 "cols_of (song ''x'')" "[1, 1]"] a
    by simp
qed

section \<open>Ids\<close>

text \<open>Ids survive the trip. The text of a 64-bit id parses back to it, and two ids have the same
  text only if they are equal; what parses at all is a 64-bit id.\<close>

theorem bigint_round_trip:
  assumes "is_i64 m" and "is_i64 n"
  shows "to_i64 (from_i64 n) = (Ok n :: ('e, int) rust) \<and> (from_i64 m = from_i64 n \<longrightarrow> m = n)
     \<and> (\<forall>b k. to_i64 b = (Ok k :: ('e, int) rust) \<longrightarrow> is_i64 k)"
  using assms from_i64_inj to_i64_range by simp blast

theorem bigint_round_trip_witness:
  "to_i64 (from_i64 (- 9223372036854775808)) = (Ok (- 9223372036854775808) :: (unit, int) rust)"
proof -
  have "is_i64 (- 9223372036854775808)" by (simp add: is_i64_def i64_min_def i64_max_def)
  from bigint_round_trip [OF this this] show ?thesis by blast
qed

section \<open>The listen guard\<close>

text \<open>C33: Credited time is bounded by elapsed time. Over any sequence of calls on one guard, with
  a clock that does not go back, the seconds let through after the first call, at nine tenths
  each and up to 300 ns per call, fit into the time between the first and the last call.\<close>

theorem guard_credits_at_most_elapsed:
  assumes "guard_run ((t0, s0) # calls) new_guard = (g, s # ss)"
    and "sorted (t0 # map fst calls)"
    and "\<forall>c \<in> set calls. fst c \<le> t1 \<and> snd c \<le> 2147483647" and "t0 \<le> t1"
  shows "900000000 * sum_list ss \<le> int (t1 - t0) + 300 * int (length ss)"
proof -
  obtain g' where r: "guard_run calls (new_guard\<lparr>lg_last := Some t0\<rparr>) = (g', ss)"
    using assms(1) by (auto simp: should_record_def new_guard_def split: prod.splits)
  have sp: "t0 + sum_list (map (\<lambda>s. window_ns (nat s)) ss) \<le> t1 \<and> (\<forall>s \<in> set ss. 0 \<le> s)"
    by (rule guard_run_spacing [OF r]) (use assms(2-4) in auto)
  have sub: "set ss \<subseteq> snd ` set calls"
    using guard_run_subset [of calls "new_guard\<lparr>lg_last := Some t0\<rparr>"] r by simp
  have "900000000 * sum_list ss \<le> int (sum_list (map (\<lambda>s. window_ns (nat s)) ss)) + 300 * int (length ss)"
    if "\<forall>s \<in> set ss. 0 \<le> s \<and> s \<le> 2147483647" for ss :: "int list"
    using that
  proof (induction ss)
    case (Cons s ss)
    then have "900000000 * nat s \<le> window_ns (nat s) + 300"
      by (intro window_ns_bounds) (simp add: nat_le_iff)
    then have "900000000 * s \<le> int (window_ns (nat s)) + 300" using Cons.prems by simp
    then show ?case using Cons by simp
  qed simp
  moreover have "\<forall>s \<in> set ss. 0 \<le> s \<and> s \<le> 2147483647" using sp sub assms(3) by force
  ultimately have "900000000 * sum_list ss
      \<le> int (sum_list (map (\<lambda>s. window_ns (nat s)) ss)) + 300 * int (length ss)" by blast
  then show ?thesis using sp by linarith
qed

theorem guard_credits_at_most_elapsed_witness:
  "guard_run [(0, 10), (5000000000, 10), (10000000000, 10)] new_guard
       = (\<lparr>lg_last = Some (10000000000), lg_poisoned = False\<rparr>, [10, 10])
   \<and> 900000000 * sum_list [10] \<le> int (10000000000 - 0) + 300 * int (length [10 :: int])"
proof -
  have "window_ns 10 = 9000000000"
    by (simp add: window_ns_def f64_round_def f64_nine_tenths_def round_div_def)
  then have r: "guard_run [(0, 10), (5000000000, 10), (10000000000, 10)] new_guard
       = (\<lparr>lg_last = Some (10000000000), lg_poisoned = False\<rparr>, [10, 10])"
    by (simp add: should_record_def new_guard_def)
  have s: "sorted (0 # map fst [(5000000000 :: nat, 10 :: int), (10000000000, 10)])" by simp
  have b: "\<forall>c \<in> set [(5000000000, 10 :: int), (10000000000, 10)]. fst c \<le> (10000000000 :: nat) \<and> snd c \<le> 2147483647"
    by simp
  have "900000000 * sum_list [10] \<le> int (10000000000 - 0) + 300 * int (length [10 :: int])"
    by (rule guard_credits_at_most_elapsed [OF r s b]) simp
  then show ?thesis using r by blast
qed

text \<open>A negative interval breaks the guard for good. Once a call has been let through, a call
  with a negative interval unwinds, and so does every later call, whatever its interval.\<close>

theorem negative_interval_poisons_the_guard:
  assumes "lg_last g = Some t" and "interval < 0"
  shows "fst (should_record now interval g) = (Panic :: ('e, bool) rust)
     \<and> fst (should_record now' interval' (snd (should_record now interval g :: ('e, bool) rust \<times> ListenGuard)))
         = (Panic :: ('e, bool) rust)"
  using assms by (simp add: should_record_def)

theorem negative_interval_poisons_the_guard_witness:
  "fst (should_record 9 5 (snd (should_record 8 (- 1)
      \<lparr>lg_last = Some 7, lg_poisoned = False\<rparr> :: (unit, bool) rust \<times> ListenGuard)))
     = (Panic :: (unit, bool) rust)"
  using negative_interval_poisons_the_guard
    [where 'e = unit, of "\<lparr>lg_last = Some 7, lg_poisoned = False\<rparr>" 7 "- 1" 8 9 5]
  by simp

end
