(* ===== verification/Dispatch.thy ===== *)
theory Dispatch
  imports Repository_Safety Query_Lemmas Listen_Guard Wire
begin

text \<open>
  The command layer: \<^verbatim>\<open>src-tauri/src/commands/dispatch.rs\<close> (the \<^verbatim>\<open>Command\<close> union and its
  execution), \<^verbatim>\<open>app_core.rs\<close> (the repository behind its lock, and its replacement in test mode)
  and the two front doors, \<^verbatim>\<open>tauri_handle.rs\<close> and \<^verbatim>\<open>app_ws_handler.rs\<close>.
\<close>

section \<open>Commands\<close>

record UpdateTrackArgs =
  up_id :: BigintId
  up_update :: TrackUpdate

record GetTracksArgs =
  gt_cursor :: "BigintId option"
  gt_criteria :: "SearchCriteria list option"
  gt_limit :: int

record GetTracksFilteredArgs =
  gf_cursor :: "BigintId option"
  gf_criteria :: "SearchCriteriaFiltered list option"
  gf_limit :: int

record AddListenArgs =
  al_track_id :: BigintId
  al_from :: string
  al_to :: string

record AddListenedSecondsArgs =
  as_track :: BigintId
  as_seconds :: int

record EditTagArgs =
  et_id :: BigintId
  et_name :: string

record AssignTagArgs =
  at_track_id :: BigintId
  at_tag_id :: BigintId

record AddMetaArgs =
  am_track_id :: BigintId
  am_key :: string
  am_value :: string

record UpdateMetaArgs =
  um_id :: BigintId
  um_value :: string

record TrackSourceArgs =
  sa_track_id :: BigintId
  sa_url :: string

record EditTrackSourceArgs =
  es_track_id :: BigintId
  es_old_url :: string
  es_new_url :: string

text \<open>\<^verbatim>\<open>IdArg\<close>, \<^verbatim>\<open>TrackIdArg\<close>, \<^verbatim>\<open>NameArg\<close>, \<^verbatim>\<open>PatternArg\<close> and \<^verbatim>\<open>LogFromUiArgs\<close> hold one field.\<close>

datatype Command =
    AddTrack NewTrack
  | AddTracks "NewTrack list"
  | UpdateTrack UpdateTrackArgs
  | GetTracks GetTracksArgs
  | GetTracksWithSources GetTracksArgs
  | GetTracksFiltered GetTracksFilteredArgs
  | GetTrack BigintId
  | DeleteTrack BigintId
  | AddListen AddListenArgs
  | GetListensForTrack BigintId
  | AddListenedSeconds AddListenedSecondsArgs
  | AddTag string
  | EditTag EditTagArgs
  | DeleteTag BigintId
  | GetAllTags
  | GetTags string
  | AssignTag AssignTagArgs
  | AssignTags "TagAssignment list"
  | RemoveTag AssignTagArgs
  | GetTagsForTrack BigintId
  | AddMeta AddMetaArgs
  | UpdateMeta UpdateMetaArgs
  | DeleteMeta BigintId
  | GetMetaForTrack BigintId
  | AddTrackSource TrackSourceArgs
  | RemoveTrackSource TrackSourceArgs
  | EditTrackSource EditTrackSourceArgs
  | GetSourcesForTrack BigintId
  | GetHtmlBundle
  | LogFromUi string
  | ResetDatabase
  | PageSource string

section \<open>The world of one call\<close>

text \<open>
  What one call takes from outside: the engine, its answers to a \<open>get_tracks\<close> query, the date
  and the clock, the file \<^verbatim>\<open>SCRIPT_PATH\<close> names in base64 (\<open>None\<close> when the variable is not set
  or the file cannot be read), and the failure of opening a fresh database, if it fails.
\<close>

record world =
  wd_engine :: engine
  wd_query :: "string \<Rightarrow> BindVal list \<Rightarrow> database \<Rightarrow> sqlx_error + TrackRow list"
  wd_empty_any :: bool
  wd_today :: string
  wd_now :: nat
  wd_script :: "string option"
  wd_open_fault :: "sqlx_error option"

record exec_state =
  ex_repo :: database
  ex_guard :: ListenGuard
  ex_script :: "string option"

section \<open>Execution\<close>

definition to_val ::
  "engine \<Rightarrow> ('a \<Rightarrow> json) \<Rightarrow> (sqlx_error, 'a) rust \<Rightarrow> (string, json) rust" where
  "to_val E j r = map_ok j (map_err (eng_show_err E) r)"

definition on_repo ::
  "world \<Rightarrow> ('a \<Rightarrow> json) \<Rightarrow> (database \<Rightarrow> (sqlx_error, 'a) rust \<times> database) \<Rightarrow> exec_state
     \<Rightarrow> (string, json) rust \<times> exec_state" where
  "on_repo W j f s =
     (case f (ex_repo s) of (r, d) \<Rightarrow> (to_val (wd_engine W) j r, s\<lparr>ex_repo := d\<rparr>))"

text \<open>The arms that end in \<^verbatim>\<open>Value::Null\<close>.\<close>

definition null_val :: "unit \<Rightarrow> json" where "null_val u = JNull"

text \<open>\<^verbatim>\<open>id.to_i64()\<close> as an argument: it unwinds before the call is made.\<close>

definition with_id ::
  "BigintId \<Rightarrow> (int \<Rightarrow> 's \<Rightarrow> ('e, 'a) rust \<times> 's) \<Rightarrow> 's \<Rightarrow> ('e, 'a) rust \<times> 's" where
  "with_id b k s =
     (case to_i64 b of Ok n \<Rightarrow> k n s | Err e \<Rightarrow> (Err e, s) | Panic \<Rightarrow> (Panic, s))"

definition with_cursor ::
  "BigintId option \<Rightarrow> (int option \<Rightarrow> 's \<Rightarrow> ('e, 'a) rust \<times> 's) \<Rightarrow> 's \<Rightarrow> ('e, 'a) rust \<times> 's" where
  "with_cursor c k s =
     (case c of None \<Rightarrow> k None s | Some b \<Rightarrow> with_id b (\<lambda>n. k (Some n)) s)"

text \<open>\<^verbatim>\<open>SCRIPT_DATA.get_or_init\<close>: filled once; a failed initialisation unwinds and leaves it empty.\<close>

definition get_script_data ::
  "world \<Rightarrow> string option \<Rightarrow> ('e, string) rust \<times> string option" where
  "get_script_data W cached =
     (case cached of
        Some t \<Rightarrow> (Ok t, cached)
      | None \<Rightarrow> (case wd_script W of Some t \<Rightarrow> (Ok t, Some t) | None \<Rightarrow> (Panic, None)))"

definition reset_misrouted :: string where
  "reset_misrouted = ''ResetDatabase must be dispatched via dispatch_with_core''"

fun execute ::
  "world \<Rightarrow> Command \<Rightarrow> exec_state \<Rightarrow> (string, json) rust \<times> exec_state" where
  "execute W (AddTrack t) s = on_repo W JInt (add_track (wd_engine W) t) s"
| "execute W (AddTracks ts) s =
     on_repo W (\<lambda>ids. JArr (map JInt ids)) (add_tracks (wd_engine W) ts) s"
| "execute W (UpdateTrack a) s =
     with_id (up_id a) (\<lambda>n. on_repo W null_val (update_track (wd_engine W) n (up_update a))) s"
| "execute W (GetTracks a) s =
     with_cursor (gt_cursor a) (\<lambda>c. on_repo W (\<lambda>ts. JArr (map track_json ts))
       (get_tracks (wd_engine W) (wd_query W) c (gt_criteria a) (gt_limit a))) s"
| "execute W (GetTracksWithSources a) s =
     with_cursor (gt_cursor a) (\<lambda>c. on_repo W (\<lambda>ts. JArr (map track_with_sources_json ts))
       (get_tracks_with_sources (wd_engine W) (wd_query W) c (gt_criteria a) (gt_limit a))) s"
| "execute W (GetTracksFiltered a) s =
     with_cursor (gf_cursor a) (\<lambda>c. on_repo W (\<lambda>ts. JArr (map track_json ts))
       (get_tracks_filtered (wd_engine W) (wd_empty_any W) c (gf_criteria a) (gf_limit a))) s"
| "execute W (GetTrack b) s =
     with_id b (\<lambda>n. on_repo W track_json (get_track (wd_engine W) n)) s"
| "execute W (DeleteTrack b) s =
     with_id b (\<lambda>n. on_repo W null_val (delete_track (wd_engine W) n)) s"
| "execute W (AddListen a) s =
     with_id (al_track_id a)
       (\<lambda>n. on_repo W JInt (add_listen (wd_engine W) n (al_from a) (al_to a))) s"
| "execute W (GetListensForTrack b) s =
     with_id b (\<lambda>n. on_repo W (\<lambda>ls. JArr (map listen_json ls))
       (get_listens_for_track (wd_engine W) n)) s"
| "execute W (AddListenedSeconds a) s =
     (case should_record (wd_now W) (as_seconds a) (ex_guard s) of
        (Ok True, g) \<Rightarrow>
          with_id (as_track a) (\<lambda>n. on_repo W null_val
            (add_listened_seconds (wd_engine W) (wd_today W) n (as_seconds a)))
            (s\<lparr>ex_guard := g\<rparr>)
      | (Ok False, g) \<Rightarrow> (Ok JNull, s\<lparr>ex_guard := g\<rparr>)
      | (Err e, g) \<Rightarrow> (Err e, s\<lparr>ex_guard := g\<rparr>)
      | (Panic, g) \<Rightarrow> (Panic, s\<lparr>ex_guard := g\<rparr>))"
| "execute W (AddTag name) s = on_repo W JInt (add_tag (wd_engine W) name) s"
| "execute W (EditTag a) s =
     with_id (et_id a) (\<lambda>n. on_repo W null_val (edit_tag (wd_engine W) n (et_name a))) s"
| "execute W (DeleteTag b) s =
     with_id b (\<lambda>n. on_repo W null_val (delete_tag (wd_engine W) n)) s"
| "execute W GetAllTags s =
     on_repo W (\<lambda>ts. JArr (map tag_json ts)) (get_all_tags (wd_engine W)) s"
| "execute W (GetTags p) s =
     on_repo W (\<lambda>ts. JArr (map tag_json ts)) (get_tags (wd_engine W) p) s"
| "execute W (AssignTag a) s =
     with_id (at_track_id a) (\<lambda>n. with_id (at_tag_id a) (\<lambda>g.
       on_repo W null_val (assign_tag (wd_engine W) n g))) s"
| "execute W (AssignTags as) s = on_repo W null_val (assign_tags (wd_engine W) as) s"
| "execute W (RemoveTag a) s =
     with_id (at_track_id a) (\<lambda>n. with_id (at_tag_id a) (\<lambda>g.
       on_repo W null_val (remove_tag (wd_engine W) n g))) s"
| "execute W (GetTagsForTrack b) s =
     with_id b (\<lambda>n. on_repo W (\<lambda>ts. JArr (map tag_json ts))
       (get_tags_for_track (wd_engine W) n)) s"
| "execute W (AddMeta a) s =
     with_id (am_track_id a)
       (\<lambda>n. on_repo W JInt (add_meta (wd_engine W) n (am_key a) (am_value a))) s"
| "execute W (UpdateMeta a) s =
     with_id (um_id a) (\<lambda>n. on_repo W null_val (update_meta (wd_engine W) n (um_value a))) s"
| "execute W (DeleteMeta b) s =
     with_id b (\<lambda>n. on_repo W null_val (delete_meta (wd_engine W) n)) s"
| "execute W (GetMetaForTrack b) s =
     with_id b (\<lambda>n. on_repo W (\<lambda>ms. JArr (map meta_json ms))
       (get_meta_for_track (wd_engine W) n)) s"
| "execute W (AddTrackSource a) s =
     with_id (sa_track_id a) (\<lambda>n. on_repo W JInt (add_track_source (wd_engine W) n (sa_url a))) s"
| "execute W (RemoveTrackSource a) s =
     with_id (sa_track_id a)
       (\<lambda>n. on_repo W null_val (remove_track_source (wd_engine W) n (sa_url a))) s"
| "execute W (EditTrackSource a) s =
     with_id (es_track_id a) (\<lambda>n. on_repo W null_val
       (edit_track_source (wd_engine W) n (es_old_url a) (es_new_url a))) s"
| "execute W (GetSourcesForTrack b) s =
     with_id b (\<lambda>n. on_repo W (\<lambda>ss. JArr (map source_json ss))
       (get_sources_for_track (wd_engine W) n)) s"
| "execute W GetHtmlBundle s =
     (case get_script_data W (ex_script s) of
        (r, c) \<Rightarrow> (map_ok JStr r, s\<lparr>ex_script := c\<rparr>))"
| "execute W (LogFromUi m) s = (Ok JNull, s)"
| "execute W ResetDatabase s = (Err reset_misrouted, s)"
| "execute W (PageSource url) s = (Ok (JStr ''filler''), s)"

section \<open>The application core\<close>

record AppCore =
  ac_repo :: "database option"
  ac_guard :: ListenGuard
  ac_is_test :: bool
  ac_script :: "string option"

text \<open>
  \<^verbatim>\<open>commands::create_repo\<close> on a path no file has yet: the migrations run on an empty file.
\<close>

definition create_repo :: "world \<Rightarrow> string + database" where
  "create_repo W =
     (case wd_open_fault W of
        Some e \<Rightarrow> Inl (eng_show_err (wd_engine W) e)
      | None \<Rightarrow> Inr empty_db)"

definition reset_database :: "world \<Rightarrow> AppCore \<Rightarrow> (string + unit) \<times> AppCore" where
  "reset_database W c =
     (if \<not> ac_is_test c then (Inl ''reset_database is only allowed in test mode'', c)
      else
        (case create_repo W of
           Inl e \<Rightarrow> (Inl e, c)
         | Inr d \<Rightarrow> (Inr (), c\<lparr>ac_repo := Some d\<rparr>)))"

definition make_app_core :: "world \<Rightarrow> bool \<Rightarrow> database \<Rightarrow> string + AppCore" where
  "make_app_core W is_test existing =
     (case wd_open_fault W of
        Some e \<Rightarrow> Inl (eng_show_err (wd_engine W) e)
      | None \<Rightarrow>
          Inr \<lparr>ac_repo = Some existing, ac_guard = new_guard, ac_is_test = is_test,
               ac_script = None\<rparr>)"

definition database_resetting :: string where
  "database_resetting = ''database is resetting, try again shortly''"

definition dispatch_with_core ::
  "world \<Rightarrow> Command \<Rightarrow> AppCore \<Rightarrow> (string, json) rust \<times> AppCore" where
  "dispatch_with_core W cmd c =
     (if cmd = ResetDatabase then
        (case reset_database W c of
           (Inl e, c') \<Rightarrow> (Err e, c')
         | (Inr u, c') \<Rightarrow> (Ok JNull, c'))
      else
        (case ac_repo c of
           None \<Rightarrow> (Err database_resetting, c)
         | Some d \<Rightarrow>
             (case execute W cmd \<lparr>ex_repo = d, ex_guard = ac_guard c, ex_script = ac_script c\<rparr> of
                (r, s) \<Rightarrow>
                  (r, c\<lparr>ac_repo := Some (ex_repo s), ac_guard := ex_guard s,
                        ac_script := ex_script s\<rparr>))))"

section \<open>The Tauri command\<close>

definition app_dispatch ::
  "world \<Rightarrow> Command option \<Rightarrow> AppCore \<Rightarrow> (string, json) rust \<times> AppCore" where
  "app_dispatch W cmd c =
     (case cmd of
        None \<Rightarrow> (Ok (JObj [(''error'', JStr ''No command provided'')]), c)
      | Some k \<Rightarrow> dispatch_with_core W k c)"

text \<open>\<open>from_value\<close> is the derived deserialiser of \<^verbatim>\<open>{ kind, payload }\<close>.\<close>

definition dispatch ::
  "(json \<Rightarrow> string + Command) \<Rightarrow> world \<Rightarrow> string \<Rightarrow> json option \<Rightarrow> exec_state
     \<Rightarrow> (string, json) rust \<times> exec_state" where
  "dispatch from_value W kind payload s =
     (let p = (case payload of Some v \<Rightarrow> v | None \<Rightarrow> JNull) in
      case from_value (JObj [(''kind'', JStr kind), (''payload'', p)]) of
        Inl e \<Rightarrow> (Err e, s)
      | Inr cmd \<Rightarrow> execute W cmd s)"

section \<open>The WebSocket handler (defines.rs, app\_ws\_handler.rs, transport/ws\_server.rs)\<close>

record 't RemoteRequest =
  rq_id :: string
  rq_cmd :: 't

datatype RemoteResult = ROk json | RError string

record RemoteResponse =
  rs_id :: string
  rs_result :: RemoteResult

datatype 't DataTransportMessage = Request "'t RemoteRequest" | Response RemoteResponse

definition response_ok :: "string \<Rightarrow> json \<Rightarrow> RemoteResponse" where
  "response_ok rid v = \<lparr>rs_id = rid, rs_result = ROk v\<rparr>"

definition response_error :: "string \<Rightarrow> string \<Rightarrow> RemoteResponse" where
  "response_error rid m = \<lparr>rs_id = rid, rs_result = RError m\<rparr>"

fun result_json :: "RemoteResult \<Rightarrow> json" where
  "result_json (ROk v) = JObj [(''type'', JStr ''ok''), (''value'', v)]"
| "result_json (RError m) = JObj [(''type'', JStr ''error''), (''message'', JStr m)]"

definition response_json :: "RemoteResponse \<Rightarrow> json" where
  "response_json r =
     JObj [(''type'', JStr ''response''), (''id'', JStr (rs_id r)),
           (''result'', result_json (rs_result r))]"

definition error_message :: "engine \<Rightarrow> string \<Rightarrow> string \<Rightarrow> Message" where
  "error_message E rid e = Text (eng_show_json E (response_json (response_error rid e)))"

text \<open>\<open>parse\<close> is \<^verbatim>\<open>serde_json::from_str\<close> at \<^verbatim>\<open>DataTransportMessage<Command, String>\<close>.\<close>

definition handle ::
  "(string \<Rightarrow> string + Command DataTransportMessage) \<Rightarrow> world \<Rightarrow> Message \<Rightarrow> AppCore
     \<Rightarrow> ('e, Message) rust \<times> AppCore" where
  "handle parse W msg c =
     (case msg of
        Text t \<Rightarrow>
          (case parse t of
             Inl e \<Rightarrow> (Ok (error_message (wd_engine W) [] (e @ '': '' @ t)), c)
           | Inr (Response r) \<Rightarrow>
               (Ok (error_message (wd_engine W) [] ''unexpected_response_message''), c)
           | Inr (Request rq) \<Rightarrow>
               (case dispatch_with_core W (rq_cmd rq) c of
                  (Ok v, c') \<Rightarrow>
                    (Ok (Text (eng_show_json (wd_engine W)
                       (response_json (response_ok (rq_id rq) v)))), c')
                | (Err e, c') \<Rightarrow> (Ok (error_message (wd_engine W) (rq_id rq) e), c')
                | (Panic, c') \<Rightarrow> (Panic, c')))
      | _ \<Rightarrow> (Ok (Text ''{\"error\":\"unsupported_message_type\"}''), c))"

text \<open>
  \<^verbatim>\<open>handle_connection\<close>: one reply per message, until a read fails (\<open>None\<close>), a reply cannot be
  sent (its flag is false) or a handler unwinds.
\<close>

fun handle_connection ::
  "(string \<Rightarrow> string + Command DataTransportMessage) \<Rightarrow> (world \<times> Message option \<times> bool) list
     \<Rightarrow> AppCore \<Rightarrow> Message list \<times> AppCore" where
  "handle_connection parse [] c = ([], c)"
| "handle_connection parse ((W, None, sent) # evs) c = ([], c)"
| "handle_connection parse ((W, Some m, sent) # evs) c =
     (case (handle parse W m c :: (unit, Message) rust \<times> AppCore) of
        (Ok reply, c') \<Rightarrow>
          if sent then (case handle_connection parse evs c' of (rs, c'') \<Rightarrow> (reply # rs, c''))
          else ([], c')
      | (Err e, c') \<Rightarrow> ([], c')
      | (Panic, c') \<Rightarrow> ([], c'))"

end
