(* ===== verification/Dispatch_Safety.thy ===== *)
theory Dispatch_Safety
  imports Dispatch
begin

text \<open>
  The contract of a repository as its clients see it, a locale: a request keeps the data
  sound, and one that is not answered \<open>Ok\<close> leaves the data as it was. Sessions of requests
  are treated once, inside the locale; \<open>execute\<close> and \<open>dispatch_with_core\<close> are its
  instances, and step systems in the sense of the prelude.
\<close>

section \<open>The contract\<close>

locale repository_contract =
  fixes perform :: "'s \<Rightarrow> 'req \<Rightarrow> ('e, 'v) rust \<times> 's"
    and sound :: "'s \<Rightarrow> bool"
    and same :: "'s \<Rightarrow> 's \<Rightarrow> bool"
  assumes performs_sound: "sound s \<Longrightarrow> sound (snd (perform s q))"
    and failed_same: "sound s \<Longrightarrow> \<forall>v. fst (perform s q) \<noteq> Ok v \<Longrightarrow> same s (snd (perform s q))"
    and same_refl: "same s s"
    and same_trans: "same a b \<Longrightarrow> same b c \<Longrightarrow> same a c"
begin

fun session :: "'s \<Rightarrow> 'req list \<Rightarrow> ('e, 'v) rust list \<times> 's" where
  "session s [] = ([], s)"
| "session s (q # qs) =
     (case perform s q of (r, s1) \<Rightarrow> (case session s1 qs of (rs, s2) \<Rightarrow> (r # rs, s2)))"

lemma session_sound: "sound s \<Longrightarrow> sound (snd (session s qs))"
proof (induction qs arbitrary: s)
  case (Cons q qs)
  have "sound (snd (perform s q))" by (rule performs_sound) (rule Cons.prems)
  then have "sound (snd (session (snd (perform s q)) qs))" by (rule Cons.IH)
  then show ?case by (simp add: case_prod_unfold)
qed simp

lemma session_length: "length (fst (session s qs)) = length qs"
  by (induction qs arbitrary: s) (simp_all add: case_prod_unfold)

lemma failed_session_same:
  "sound s \<Longrightarrow> \<forall>r \<in> set (fst (session s qs)). \<forall>v. r \<noteq> Ok v \<Longrightarrow> same s (snd (session s qs))"
proof (induction qs arbitrary: s)
  case Nil
  then show ?case by (simp add: same_refl)
next
  case (Cons q qs)
  obtain r s1 where p: "perform s q = (r, s1)" by fastforce
  obtain rs s2 where ss: "session s1 qs = (rs, s2)" by fastforce
  have "sound s1" using performs_sound [OF Cons.prems(1), of q] p by simp
  moreover have "same s s1" using failed_same [OF Cons.prems(1), of q] Cons.prems(2) p ss by simp
  ultimately show ?case using Cons.IH [of s1] Cons.prems(2) p ss same_trans by simp
qed

end

sublocale repository_contract \<subseteq> client: step_system "\<lambda>s q. snd (perform s q)" sound
  by unfold_locales (rule performs_sound)

section \<open>Execution keeps the contract\<close>

definition safe_exec :: "(exec_state \<Rightarrow> (string, json) rust \<times> exec_state) \<Rightarrow> bool" where
  "safe_exec f \<longleftrightarrow>
     (\<forall>s r s'. db_ok (ex_repo s) \<longrightarrow> f s = (r, s') \<longrightarrow>
        db_ok (ex_repo s') \<and> ((\<forall>v. r \<noteq> Ok v) \<longrightarrow> same_data (ex_repo s) (ex_repo s')))"

lemma safe_execD:
  "safe_exec f \<Longrightarrow> f s = (r, s') \<Longrightarrow> db_ok (ex_repo s) \<Longrightarrow>
     db_ok (ex_repo s') \<and> ((\<forall>v. r \<noteq> Ok v) \<longrightarrow> same_data (ex_repo s) (ex_repo s'))"
  by (simp add: safe_exec_def)

lemma to_val_Ok_iff: "to_val E j r = Ok v \<longleftrightarrow> (\<exists>w. r = Ok w \<and> v = j w)"
  by (auto simp: to_val_def map_ok_iff map_err_iff)

lemma safe_exec_on_repo: "safe_op f \<Longrightarrow> safe_exec (on_repo W j f)"
  unfolding safe_exec_def
proof (intro allI impI)
  fix s r s'
  assume f: "safe_op f" and ok: "db_ok (ex_repo s)" and r: "on_repo W j f s = (r, s')"
  obtain r0 d where fd: "f (ex_repo s) = (r0, d)" by fastforce
  then have "r = to_val (wd_engine W) j r0" "s' = s\<lparr>ex_repo := d\<rparr>"
    using r by (simp_all add: on_repo_def)
  moreover have "db_ok d \<and> ((\<forall>v. r0 \<noteq> Ok v) \<longrightarrow> same_data (ex_repo s) d)"
    using f ok fd by (simp add: safe_op_def)
  ultimately show "db_ok (ex_repo s') \<and> ((\<forall>v. r \<noteq> Ok v) \<longrightarrow> same_data (ex_repo s) (ex_repo s'))"
    by (auto simp: to_val_Ok_iff)
qed

lemma safe_exec_with_id: "(\<And>n. safe_exec (k n)) \<Longrightarrow> safe_exec (with_id b k)"
  unfolding with_id_def [abs_def] by (cases "to_i64 b :: (string, int) rust") (simp_all add: safe_exec_def)

lemma safe_exec_with_cursor: "(\<And>c. safe_exec (k c)) \<Longrightarrow> safe_exec (with_cursor c k)"
  unfolding with_cursor_def [abs_def] by (cases c) (simp_all add: safe_exec_with_id)

lemmas safe_exec_intros = safe_exec_on_repo safe_exec_with_id safe_exec_with_cursor repo_safe

lemma execute_listened_safe: "safe_exec (execute W (AddListenedSeconds a))"
  unfolding safe_exec_def
proof (intro allI impI)
  fix s r s'
  assume ok: "db_ok (ex_repo s)" and r: "execute W (AddListenedSeconds a) s = (r, s')"
  obtain b g where sr: "should_record (wd_now W) (as_seconds a) (ex_guard s) = (b, g)"
    and b: "b = (b :: (string, bool) rust)" by fastforce
  let ?k = "\<lambda>n. on_repo W null_val
      (add_listened_seconds (wd_engine W) (wd_today W) n (as_seconds a))"
  have k: "safe_exec (with_id (as_track a) ?k)" by (intro safe_exec_intros)
  consider "b = Ok True" "with_id (as_track a) ?k (s\<lparr>ex_guard := g\<rparr>) = (r, s')"
    | "ex_repo s' = ex_repo s"
    using r sr by (cases b) (auto split: bool.splits if_splits)
  then show "db_ok (ex_repo s') \<and> ((\<forall>v. r \<noteq> Ok v) \<longrightarrow> same_data (ex_repo s) (ex_repo s'))"
  proof cases
    case 1
    then show ?thesis using safe_execD [OF k 1(2)] ok by simp
  next
    case 2
    then show ?thesis using ok by simp
  qed
qed

lemma execute_safe: "safe_exec (execute W cmd)"
proof (cases cmd)
  case (AddListenedSeconds a)
  then show ?thesis by (simp only: execute_listened_safe)
next
  case GetHtmlBundle
  then show ?thesis by (auto simp: safe_exec_def split: prod.splits)
next
  case (LogFromUi m)
  then show ?thesis by (simp add: safe_exec_def)
next
  case ResetDatabase
  then show ?thesis by (simp add: safe_exec_def)
next
  case (PageSource u)
  then show ?thesis by (simp add: safe_exec_def)
qed (simp_all add: execute.simps [abs_def] safe_exec_intros)

interpretation executor: repository_contract
  "\<lambda>s (W, cmd). execute W cmd s" "\<lambda>s. db_ok (ex_repo s)"
  "\<lambda>s s'. same_data (ex_repo s) (ex_repo s')"
proof unfold_locales
  fix s :: exec_state and q :: "world \<times> Command"
  obtain W cmd where q: "q = (W, cmd)" by fastforce
  assume ok: "db_ok (ex_repo s)"
  note safe = safe_execD [OF execute_safe [of W cmd] prod.collapse [symmetric] ok]
  show "db_ok (ex_repo (snd (case q of (W, cmd) \<Rightarrow> execute W cmd s)))"
    using safe q by simp
  show "\<forall>v. fst (case q of (W, cmd) \<Rightarrow> execute W cmd s) \<noteq> Ok v \<Longrightarrow>
      same_data (ex_repo s) (ex_repo (snd (case q of (W, cmd) \<Rightarrow> execute W cmd s)))"
    using safe q by simp
qed (auto intro: same_data_trans)

section \<open>The core keeps the contract\<close>

definition core_ok :: "AppCore \<Rightarrow> bool" where
  "core_ok c \<longleftrightarrow> (case ac_repo c of Some d \<Rightarrow> db_ok d | None \<Rightarrow> False)"

definition core_same :: "AppCore \<Rightarrow> AppCore \<Rightarrow> bool" where
  "core_same c c' \<longleftrightarrow>
     (case (ac_repo c, ac_repo c') of
        (Some d, Some d') \<Rightarrow> same_data d d'
      | (None, None) \<Rightarrow> True
      | _ \<Rightarrow> False)"

lemma core_okE: "core_ok c \<Longrightarrow> (\<And>d. ac_repo c = Some d \<Longrightarrow> db_ok d \<Longrightarrow> thesis) \<Longrightarrow> thesis"
  by (auto simp: core_ok_def split: option.splits)

lemma core_same_refl: "core_same c c"
  by (auto simp: core_same_def split: option.splits)

lemma core_same_trans: "core_same a b \<Longrightarrow> core_same b c \<Longrightarrow> core_same a c"
  by (auto simp: core_same_def split: option.splits intro: same_data_trans)

lemma dispatch_with_core_safe:
  assumes "core_ok c" and "dispatch_with_core W cmd c = (r, c')"
  shows "core_ok c' \<and> ((\<forall>v. r \<noteq> Ok v) \<longrightarrow> core_same c c')"
proof (cases "cmd = ResetDatabase")
  case True
  then show ?thesis
    using assms by (auto simp: dispatch_with_core_def reset_database_def create_repo_def core_ok_def
        db_ok_empty core_same_refl split: if_splits option.splits)
next
  case False
  from assms(1) obtain d where d: "ac_repo c = Some d" "db_ok d" by (rule core_okE)
  obtain s where ex: "execute W cmd
      \<lparr>ex_repo = d, ex_guard = ac_guard c, ex_script = ac_script c\<rparr> = (r, s)"
    and c': "ac_repo c' = Some (ex_repo s)"
    using False d assms(2) by (auto simp: dispatch_with_core_def split: prod.splits)
  show ?thesis
    using safe_execD [OF execute_safe ex] d c' by (simp add: core_ok_def core_same_def)
qed

interpretation core: repository_contract
  "\<lambda>c (W, cmd). dispatch_with_core W cmd c" core_ok core_same
proof unfold_locales
  fix c :: AppCore and q :: "world \<times> Command"
  obtain W cmd where q: "q = (W, cmd)" by fastforce
  assume ok: "core_ok c"
  note safe = dispatch_with_core_safe [OF ok prod.collapse [symmetric], of W cmd]
  show "core_ok (snd (case q of (W, cmd) \<Rightarrow> dispatch_with_core W cmd c))"
    using safe q by simp
  show "\<forall>v. fst (case q of (W, cmd) \<Rightarrow> dispatch_with_core W cmd c) \<noteq> Ok v \<Longrightarrow>
      core_same c (snd (case q of (W, cmd) \<Rightarrow> dispatch_with_core W cmd c))"
    using safe q by simp
qed (auto intro: core_same_refl core_same_trans)

lemma dispatch_never_resetting:
  "core_ok c \<Longrightarrow> cmd \<noteq> ResetDatabase \<Longrightarrow>
   (\<exists>d. ac_repo c = Some d \<and>
      fst (dispatch_with_core W cmd c)
        = fst (execute W cmd \<lparr>ex_repo = d, ex_guard = ac_guard c, ex_script = ac_script c\<rparr>))"
  by (erule core_okE) (simp add: dispatch_with_core_def split: prod.splits)

end
