(* ===== verification/Lossy_Fifo.thy ===== *)
theory Lossy_Fifo
  imports Vamp_Prelude "HOL-Library.Sublist"
begin

text \<open>
  What the code above a reconnecting connection may rely on, as an abstract machine: a bounded
  queue whose head is delivered, or lost with the connection it was written to. Both reconnecting
  components are shown to implement it, through the locale \<open>refinement\<close>.
\<close>

record 'm fifo =
  ff_accepted :: "'m list"
  ff_waiting :: "'m list"
  ff_delivered :: "'m list"
  ff_lost :: nat
  ff_connections :: nat

definition empty_fifo :: "'m fifo" where
  "empty_fifo =
     \<lparr>ff_accepted = [], ff_waiting = [], ff_delivered = [], ff_lost = 0, ff_connections = 0\<rparr>"

text \<open>
  \<open>room\<close> messages can wait. A connection can take one message down with it: no more are lost than
  connections have been opened.
\<close>

inductive fifo_step :: "nat \<Rightarrow> 'm fifo \<Rightarrow> 'm fifo \<Rightarrow> bool" for room where
  accept: "length (ff_waiting f) < room \<Longrightarrow>
    fifo_step room f (f\<lparr>ff_accepted := ff_accepted f @ [m], ff_waiting := ff_waiting f @ [m]\<rparr>)"
| reconnect: "fifo_step room f (f\<lparr>ff_connections := ff_connections f + 1\<rparr>)"
| deliver: "ff_waiting f = m # ms \<Longrightarrow>
    fifo_step room f (f\<lparr>ff_waiting := ms, ff_delivered := ff_delivered f @ [m]\<rparr>)"
| lose: "ff_waiting f = m # ms \<Longrightarrow> ff_lost f < ff_connections f \<Longrightarrow>
    fifo_step room f (f\<lparr>ff_waiting := ms, ff_lost := ff_lost f + 1\<rparr>)"

definition fifo_inv :: "nat \<Rightarrow> 'm fifo \<Rightarrow> bool" where
  "fifo_inv room f \<longleftrightarrow>
     subseq (ff_delivered f @ ff_waiting f) (ff_accepted f)
   \<and> length (ff_accepted f) = length (ff_delivered f) + ff_lost f + length (ff_waiting f)
   \<and> ff_lost f \<le> ff_connections f \<and> length (ff_waiting f) \<le> room"

lemma fifo_inv_empty: "fifo_inv room empty_fifo"
  by (simp add: fifo_inv_def empty_fifo_def)

lemma subseq_drop_middle: "subseq (xs @ m # ys) zs \<Longrightarrow> subseq (xs @ ys) zs"
proof -
  have "subseq (xs @ ys) (xs @ m # ys)" by (rule list_emb_append_mono) auto
  then show "subseq (xs @ m # ys) zs \<Longrightarrow> subseq (xs @ ys) zs" by (rule subseq_order.trans)
qed

lemma fifo_inv_step: "fifo_step room f f' \<Longrightarrow> fifo_inv room f \<Longrightarrow> fifo_inv room f'"
proof (induction rule: fifo_step.induct)
  case (accept f m)
  have "subseq ((ff_delivered f @ ff_waiting f) @ [m]) (ff_accepted f @ [m])"
    by (rule list_emb_append_mono) (use accept in \<open>simp_all add: fifo_inv_def\<close>)
  then show ?case using accept by (simp add: fifo_inv_def)
next
  case (lose f m ms)
  then show ?case using subseq_drop_middle [of "ff_delivered f" m ms] by (simp add: fifo_inv_def)
qed (simp_all add: fifo_inv_def)

interpretation lossy_fifo: transition_system "fifo_step room" "fifo_inv room" for room
  by unfold_locales (rule fifo_inv_step)

text \<open>Nothing is lost if nothing is: then the machine is a queue.\<close>

lemma fifo_without_losses:
  assumes "fifo_inv room f" and "ff_lost f = 0"
  shows "ff_accepted f = ff_delivered f @ ff_waiting f"
  using assms subseq_same_length [of "ff_delivered f @ ff_waiting f" "ff_accepted f"]
  by (simp add: fifo_inv_def)

end
