(* ===== verification/Ws_Node.thy ===== *)
theory Ws_Node
  imports Wire Lossy_Fifo
begin

text \<open>
  The reconnecting node of \<^verbatim>\<open>rtc/ws_node.rs\<close>: the run loop, and the sender and receiver task of
  the current connection, as a transition system with one rule per branch of a \<^verbatim>\<open>select!\<close>. The
  transport below it (connecting, writing, reading) chooses freely between success and failure.
\<close>

section \<open>Connecting\<close>

text \<open>
  \<^verbatim>\<open>WsConnector::connect\<close>: a fresh connection starts with the initial message, and one on which
  it cannot be sent is given up. The result is what has been written to the connection.
\<close>

definition ws_connect ::
  "string + unit \<Rightarrow> Message option \<Rightarrow> (Message \<Rightarrow> string + unit) \<Rightarrow> string + Message list" where
  "ws_connect opened initial_message send =
     (case opened of
        Inl e \<Rightarrow> Inl e
      | Inr u \<Rightarrow>
          (case initial_message of
             None \<Rightarrow> Inr []
           | Some m \<Rightarrow> (case send m of Inl e \<Rightarrow> Inl e | Inr u \<Rightarrow> Inr [m])))"

section \<open>State\<close>

text \<open>
  The sender task waits in its \<^verbatim>\<open>select!\<close>, is writing a message, or has returned (or unwound).
  Before the first connection both tasks count as over. The phases of the run loop: in the
  \<^verbatim>\<open>select!\<close> around \<^verbatim>\<open>connect\<close>, in the one around the sleep, in the one around the two tasks, and
  awaiting the task or tasks that are left.
\<close>

datatype 't sender_task = SendIdle | SendBusy 't | SendOver | SendPanicked

datatype receiver_task = RecvOpen | RecvOver | RecvPanicked

datatype run_phase = Dialing | Backoff | Serving | Stopping | SenderLeft | ReceiverLeft | Ended

text \<open>
  \<open>nd_accepted\<close> (everything ever queued), \<open>nd_log\<close> (every message taken from the queue, with
  whether it was written) and \<open>nd_connections\<close> record the past for the theorems.
\<close>

record 't node =
  nd_queue :: "'t list"
  nd_senders_gone :: bool
  nd_stopped :: bool
  nd_local_stopped :: bool
  nd_connected :: bool
  nd_end_notified :: bool
  nd_phase :: run_phase
  nd_sender :: "'t sender_task"
  nd_receiver :: receiver_task
  nd_handled :: "'t list"
  nd_accepted :: "'t list"
  nd_log :: "('t \<times> bool) list"
  nd_connections :: nat

definition queue_capacity :: nat where "queue_capacity = 64"

definition new_node :: "'t node" where
  "new_node =
     \<lparr>nd_queue = [], nd_senders_gone = False, nd_stopped = False, nd_local_stopped = False,
      nd_connected = False, nd_end_notified = False, nd_phase = Dialing, nd_sender = SendOver,
      nd_receiver = RecvOver, nd_handled = [], nd_accepted = [], nd_log = [],
      nd_connections = 0\<rparr>"

text \<open>
  The receiving half of the queue belongs to the run loop, or to the sender task while it runs;
  it is gone when its owner is.
\<close>

definition queue_open :: "'t node \<Rightarrow> bool" where
  "queue_open n =
     (case nd_sender n of
        SendIdle \<Rightarrow> True
      | SendBusy m \<Rightarrow> True
      | SendOver \<Rightarrow> nd_phase n \<noteq> Ended
      | SendPanicked \<Rightarrow> False)"

definition enqueue :: "'t \<Rightarrow> 't node \<Rightarrow> 't node" where
  "enqueue m n = n\<lparr>nd_queue := nd_queue n @ [m], nd_accepted := nd_accepted n @ [m]\<rparr>"

text \<open>\<^verbatim>\<open>WsNode::send\<close>; \<open>None\<close> is a call that waits for room in the queue.\<close>

definition node_send :: "'t \<Rightarrow> 't node \<Rightarrow> (string + unit) option \<times> 't node" where
  "node_send m n =
     (if \<not> nd_connected n then (Some (Inl ''not connected''), n)
      else if \<not> queue_open n then (Some (Inl ''send queue closed''), n)
      else if length (nd_queue n) < queue_capacity then (Some (Inr ()), enqueue m n)
      else (None, n))"

text \<open>The local token is a child of \<^verbatim>\<open>stopper\<close>.\<close>

definition task_cancelled :: "'t node \<Rightarrow> bool" where
  "task_cancelled n \<longleftrightarrow> nd_stopped n \<or> nd_local_stopped n"

text \<open>The end of \<^verbatim>\<open>run_loop\<close>, and the head of its \<^verbatim>\<open>while\<close>.\<close>

definition finish :: "'t node \<Rightarrow> 't node" where
  "finish n = n\<lparr>nd_phase := Ended, nd_connected := False, nd_end_notified := True\<rparr>"

definition next_round :: "'t node \<Rightarrow> 't node" where
  "next_round n = (if nd_stopped n then finish n else n\<lparr>nd_phase := Dialing\<rparr>)"

section \<open>Steps\<close>

inductive node_step :: "'t node \<Rightarrow> 't node \<Rightarrow> bool" where
  queued: "queue_open n \<Longrightarrow> length (nd_queue n) < queue_capacity \<Longrightarrow> node_step n (enqueue m n)"
| stop_called: "node_step n (n\<lparr>nd_stopped := True\<rparr>)"
| senders_dropped: "node_step n (n\<lparr>nd_senders_gone := True\<rparr>)"

| connected: "nd_phase n = Dialing \<Longrightarrow>
    node_step n (n\<lparr>nd_phase := Serving, nd_connected := True, nd_local_stopped := False,
      nd_sender := SendIdle, nd_receiver := RecvOpen, nd_connections := nd_connections n + 1\<rparr>)"
| connect_failed: "nd_phase n = Dialing \<Longrightarrow> node_step n (n\<lparr>nd_phase := Backoff\<rparr>)"
| dial_stopped: "nd_phase n = Dialing \<or> nd_phase n = Backoff \<Longrightarrow> nd_stopped n \<Longrightarrow>
    node_step n (finish n)"
| backoff_over: "nd_phase n = Backoff \<Longrightarrow> node_step n (next_round n)"

| message_taken: "nd_sender n = SendIdle \<Longrightarrow> nd_queue n = m # ms \<Longrightarrow>
    node_step n (n\<lparr>nd_sender := SendBusy m, nd_queue := ms\<rparr>)"
| message_sent: "nd_sender n = SendBusy m \<Longrightarrow>
    node_step n (n\<lparr>nd_sender := SendIdle, nd_log := nd_log n @ [(m, True)]\<rparr>)"
| send_failed: "nd_sender n = SendBusy m \<Longrightarrow>
    node_step n (n\<lparr>nd_sender := SendOver, nd_log := nd_log n @ [(m, False)]\<rparr>)"
| send_panicked: "nd_sender n = SendBusy m \<Longrightarrow>
    node_step n (n\<lparr>nd_sender := SendPanicked, nd_log := nd_log n @ [(m, False)]\<rparr>)"
| sender_cancelled: "nd_sender n = SendIdle \<Longrightarrow> task_cancelled n \<Longrightarrow>
    node_step n (n\<lparr>nd_sender := SendOver\<rparr>)"
| queue_closed: "nd_sender n = SendIdle \<Longrightarrow> nd_queue n = [] \<Longrightarrow> nd_senders_gone n \<Longrightarrow>
    node_step n (n\<lparr>nd_sender := SendOver\<rparr>)"

| message_handled: "nd_receiver n = RecvOpen \<Longrightarrow>
    node_step n (n\<lparr>nd_handled := nd_handled n @ [m]\<rparr>)"
| handler_panicked: "nd_receiver n = RecvOpen \<Longrightarrow> node_step n (n\<lparr>nd_receiver := RecvPanicked\<rparr>)"
| receive_ended: "nd_receiver n = RecvOpen \<Longrightarrow> node_step n (n\<lparr>nd_receiver := RecvOver\<rparr>)"
| receive_cancelled: "nd_receiver n = RecvOpen \<Longrightarrow> task_cancelled n \<Longrightarrow>
    node_step n (n\<lparr>nd_receiver := RecvOver\<rparr>)"

| stop_seen: "nd_phase n = Serving \<Longrightarrow> nd_stopped n \<Longrightarrow> node_step n (n\<lparr>nd_phase := Stopping\<rparr>)"
| receiver_first: "nd_phase n = Serving \<Longrightarrow> nd_receiver n = RecvOver \<Longrightarrow>
    node_step n (n\<lparr>nd_phase := SenderLeft, nd_local_stopped := True\<rparr>)"
| receiver_lost: "nd_phase n = Serving \<Longrightarrow> nd_receiver n = RecvPanicked \<Longrightarrow>
    node_step n (finish n)"
| sender_first: "nd_phase n = Serving \<Longrightarrow> nd_sender n = SendOver \<or> nd_sender n = SendPanicked \<Longrightarrow>
    node_step n (n\<lparr>nd_phase := ReceiverLeft, nd_local_stopped := True\<rparr>)"
| sender_joined: "nd_phase n = SenderLeft \<Longrightarrow> nd_sender n = SendOver \<Longrightarrow>
    node_step n (next_round n)"
| sender_lost: "nd_phase n = SenderLeft \<Longrightarrow> nd_sender n = SendPanicked \<Longrightarrow>
    node_step n (finish n)"
| receiver_joined: "nd_phase n = ReceiverLeft \<Longrightarrow> nd_receiver n = RecvOver \<Longrightarrow>
    nd_sender n = SendOver \<Longrightarrow> node_step n (next_round n)"
| one_lost: "nd_phase n = ReceiverLeft \<Longrightarrow> nd_receiver n \<noteq> RecvOpen \<Longrightarrow>
    nd_receiver n = RecvPanicked \<or> nd_sender n = SendPanicked \<Longrightarrow> node_step n (finish n)"
| both_joined: "nd_phase n = Stopping \<Longrightarrow> nd_receiver n \<noteq> RecvOpen \<Longrightarrow>
    nd_sender n = SendOver \<or> nd_sender n = SendPanicked \<Longrightarrow> node_step n (finish n)"

section \<open>The invariant\<close>

definition in_hand :: "'t node \<Rightarrow> 't list" where
  "in_hand n = (case nd_sender n of SendBusy m \<Rightarrow> [m] | _ \<Rightarrow> [])"

definition sender_alive :: "'t node \<Rightarrow> bool" where
  "sender_alive n \<longleftrightarrow> nd_sender n \<noteq> SendOver \<and> nd_sender n \<noteq> SendPanicked"

definition lost :: "'t node \<Rightarrow> nat" where
  "lost n = length (filter (\<lambda>e. \<not> snd e) (nd_log n))"

text \<open>Every message that was queued has been taken in turn, is being written, or still waits.\<close>

definition fifo_ok :: "'t node \<Rightarrow> bool" where
  "fifo_ok n \<longleftrightarrow>
     nd_accepted n = map fst (nd_log n) @ in_hand n @ nd_queue n
   \<and> length (nd_queue n) \<le> queue_capacity"

text \<open>A connection loses at most the message it breaks on.\<close>

definition losses_ok :: "'t node \<Rightarrow> bool" where
  "losses_ok n \<longleftrightarrow> lost n + (if sender_alive n then 1 else 0) \<le> nd_connections n"

text \<open>Which tasks can run in which phase.\<close>

definition tasks_ok :: "'t node \<Rightarrow> bool" where
  "tasks_ok n \<longleftrightarrow>
     (case nd_phase n of
        Dialing \<Rightarrow> nd_sender n = SendOver \<and> nd_receiver n = RecvOver
      | Backoff \<Rightarrow> nd_sender n = SendOver \<and> nd_receiver n = RecvOver
      | Serving \<Rightarrow> True
      | Stopping \<Rightarrow> nd_stopped n
      | SenderLeft \<Rightarrow> nd_receiver n = RecvOver \<and> nd_local_stopped n
      | ReceiverLeft \<Rightarrow> \<not> sender_alive n \<and> nd_local_stopped n
      | Ended \<Rightarrow> nd_receiver n \<noteq> RecvOpen \<and> (sender_alive n \<longrightarrow> nd_receiver n = RecvPanicked))"

text \<open>\<^verbatim>\<open>is_connected\<close> is set by the first connection and reset only at the end.\<close>

definition flags_ok :: "'t node \<Rightarrow> bool" where
  "flags_ok n \<longleftrightarrow>
     (nd_end_notified n \<longleftrightarrow> nd_phase n = Ended)
   \<and> (nd_connected n \<longleftrightarrow> 0 < nd_connections n \<and> nd_phase n \<noteq> Ended)
   \<and> (nd_phase n \<in> {Serving, Stopping, SenderLeft, ReceiverLeft} \<longrightarrow> 0 < nd_connections n)"

definition node_ok :: "'t node \<Rightarrow> bool" where
  "node_ok n \<longleftrightarrow> fifo_ok n \<and> losses_ok n \<and> tasks_ok n \<and> flags_ok n"

lemmas node_defs = enqueue_def finish_def next_round_def in_hand_def sender_alive_def lost_def

lemma node_ok_new: "node_ok new_node"
  by (simp add: node_ok_def fifo_ok_def losses_ok_def tasks_ok_def flags_ok_def new_node_def node_defs)

lemma fifo_ok_step: "node_step n n' \<Longrightarrow> tasks_ok n \<Longrightarrow> fifo_ok n \<Longrightarrow> fifo_ok n'"
  by (induction rule: node_step.induct) (auto simp: fifo_ok_def tasks_ok_def node_defs queue_capacity_def)

lemma tasks_step: "node_step n n' \<Longrightarrow> tasks_ok n \<Longrightarrow> tasks_ok n'"
  by (induction rule: node_step.induct)
    (auto simp: tasks_ok_def node_defs split: run_phase.splits)

lemma losses_step: "node_step n n' \<Longrightarrow> tasks_ok n \<Longrightarrow> losses_ok n \<Longrightarrow> losses_ok n'"
  by (induction rule: node_step.induct) (auto simp: losses_ok_def tasks_ok_def node_defs)

lemma flags_step: "node_step n n' \<Longrightarrow> flags_ok n \<Longrightarrow> flags_ok n'"
  by (induction rule: node_step.induct) (auto simp: flags_ok_def node_defs)

lemma node_ok_step: "node_step n n' \<Longrightarrow> node_ok n \<Longrightarrow> node_ok n'"
  by (auto simp: node_ok_def intro: fifo_ok_step tasks_step losses_step flags_step)

section \<open>The queue it implements\<close>

definition written :: "'t node \<Rightarrow> 't list" where
  "written n = map fst (filter snd (nd_log n))"

definition node_fifo :: "'t node \<Rightarrow> 't fifo" where
  "node_fifo n =
     \<lparr>ff_accepted = nd_accepted n, ff_waiting = in_hand n @ nd_queue n, ff_delivered = written n,
      ff_lost = lost n, ff_connections = nd_connections n\<rparr>"

lemma node_fifo_new: "node_fifo new_node = empty_fifo"
  by (simp add: node_fifo_def empty_fifo_def new_node_def in_hand_def written_def lost_def)

text \<open>What a step does to the view, if it does anything.\<close>

lemma node_fifo_step:
  assumes "node_step n n'" and "node_ok n"
  shows "node_fifo n' = node_fifo n \<or> fifo_step (queue_capacity + 1) (node_fifo n) (node_fifo n')"
  using assms
proof (induction rule: node_step.induct)
  case (queued n m)
  have "fifo_step (queue_capacity + 1) (node_fifo n)
      ((node_fifo n)\<lparr>ff_accepted := ff_accepted (node_fifo n) @ [m],
         ff_waiting := ff_waiting (node_fifo n) @ [m]\<rparr>)"
    by (rule accept) (use queued in \<open>auto simp: node_fifo_def in_hand_def split: sender_task.split\<close>)
  then show ?case by (simp add: node_fifo_def enqueue_def in_hand_def written_def lost_def)
next
  case (connected n)
  then have "in_hand n = []" by (simp add: node_ok_def tasks_ok_def in_hand_def)
  then show ?case
    using reconnect [of "queue_capacity + 1" "node_fifo n"]
    by (simp add: node_fifo_def in_hand_def written_def lost_def)
next
  case (message_sent n m)
  then show ?case
    using deliver [of "node_fifo n" m "nd_queue n" "queue_capacity + 1"]
    by (simp add: node_fifo_def in_hand_def written_def lost_def)
next
  case (send_failed n m)
  then have "lost n < nd_connections n" by (simp add: node_ok_def losses_ok_def sender_alive_def)
  then show ?case
    using send_failed.hyps lose [of "node_fifo n" m "nd_queue n" "queue_capacity + 1"]
    by (simp add: node_fifo_def in_hand_def written_def lost_def)
next
  case (send_panicked n m)
  then have "lost n < nd_connections n" by (simp add: node_ok_def losses_ok_def sender_alive_def)
  then show ?case
    using send_panicked.hyps lose [of "node_fifo n" m "nd_queue n" "queue_capacity + 1"]
    by (simp add: node_fifo_def in_hand_def written_def lost_def)
qed (simp_all add: node_fifo_def node_defs written_def)

interpretation ws_node: refinement node_step node_ok "fifo_step (queue_capacity + 1)" node_fifo
  by unfold_locales (rule node_ok_step node_fifo_step, assumption+)+

section \<open>Stopping\<close>

text \<open>The work that is left of a stopped node, if no message arrives meanwhile.\<close>

definition sender_work :: "'t sender_task \<Rightarrow> nat" where
  "sender_work s = (case s of SendIdle \<Rightarrow> 1 | SendBusy m \<Rightarrow> 2 | SendOver \<Rightarrow> 0 | SendPanicked \<Rightarrow> 0)"

definition work_left :: "'t node \<Rightarrow> nat" where
  "work_left n =
     (let tasks = sender_work (nd_sender n) + (if nd_receiver n = RecvOpen then 1 else 0) in
      case nd_phase n of
        Ended \<Rightarrow> 0 | Dialing \<Rightarrow> 1 | Backoff \<Rightarrow> 1 | Serving \<Rightarrow> 3 + tasks | _ \<Rightarrow> 2 + tasks)"

lemma next_round_stopped: "nd_stopped n \<Longrightarrow> next_round n = finish n"
  by (simp add: next_round_def)

text \<open>A calm step is one the node makes alone: nothing is queued, received or told to it.\<close>

definition calm_step :: "'t node \<Rightarrow> 't node \<Rightarrow> bool" where
  "calm_step n n' \<longleftrightarrow>
     node_step n n' \<and> nd_stopped n' = nd_stopped n \<and> nd_senders_gone n' = nd_senders_gone n
   \<and> nd_accepted n' = nd_accepted n \<and> nd_handled n' = nd_handled n"

interpretation calm_node: transition_system calm_step node_ok
  by unfold_locales (auto simp: calm_step_def intro: node_ok_step)

lemma calm_path: "calm_step\<^sup>*\<^sup>* n n' \<Longrightarrow> node_step\<^sup>*\<^sup>* n n'"
  by (erule mono_rtranclp [rule_format, rotated]) (simp add: calm_step_def)

text \<open>A stopped node whose tasks are over can end at once.\<close>

lemma join_step:
  assumes "tasks_ok n" and "nd_stopped n" and "nd_phase n \<in> {Stopping, SenderLeft, ReceiverLeft}"
    and "nd_receiver n \<noteq> RecvOpen" and "\<not> sender_alive n"
  shows "node_step n (finish n)"
  using assms(3)
proof (elim insertE emptyE)
  assume "nd_phase n = Stopping"
  then show ?thesis using assms(4,5) by (intro both_joined) (auto simp: sender_alive_def)
next
  assume p: "nd_phase n = SenderLeft"
  then show ?thesis
    using assms(5) sender_joined [OF p] sender_lost [OF p] next_round_stopped [OF assms(2)]
    by (auto simp: sender_alive_def)
next
  assume p: "nd_phase n = ReceiverLeft"
  show ?thesis
  proof (cases "nd_receiver n = RecvPanicked \<or> nd_sender n = SendPanicked")
    case True
    then show ?thesis using one_lost [OF p assms(4)] by simp
  next
    case False
    then have "nd_receiver n = RecvOver" "nd_sender n = SendOver"
      using assms(4,5) by (auto simp: sender_alive_def intro: receiver_task.exhaust)
    then show ?thesis using receiver_joined [OF p] next_round_stopped [OF assms(2)] by simp
  qed
qed

lemma progressI:
  "node_step n n' \<Longrightarrow> nd_stopped n' = nd_stopped n \<and> nd_senders_gone n' = nd_senders_gone n
     \<and> nd_accepted n' = nd_accepted n \<and> nd_handled n' = nd_handled n
     \<Longrightarrow> work_left n' < work_left n \<Longrightarrow> \<exists>n'. calm_step n n' \<and> work_left n' < work_left n"
  by (auto simp: calm_step_def)

text \<open>One of the tasks of a stopped node can always take a step towards its end.\<close>

lemma task_step:
  assumes "nd_stopped n" and "nd_receiver n = RecvOpen \<or> sender_alive n"
    and "nd_phase n \<in> {Stopping, SenderLeft, ReceiverLeft}"
  shows "\<exists>n'. calm_step n n' \<and> work_left n' < work_left n"
proof (cases "nd_receiver n = RecvOpen")
  case True
  show ?thesis by (rule progressI [OF receive_ended [OF True]]) (use assms True in \<open>auto simp: work_left_def\<close>)
next
  case False
  then consider "nd_sender n = SendIdle" | m where "nd_sender n = SendBusy m"
    using assms(2) by (cases "nd_sender n") (auto simp: sender_alive_def)
  then show ?thesis
  proof cases
    case 1
    have "task_cancelled n" using assms(1) by (simp add: task_cancelled_def)
    show ?thesis
      by (rule progressI [OF sender_cancelled [OF 1 \<open>task_cancelled n\<close>]])
        (use assms 1 in \<open>auto simp: work_left_def sender_work_def\<close>)
  next
    case 2
    show ?thesis
      by (rule progressI [OF message_sent [OF 2]])
        (use assms 2 in \<open>auto simp: work_left_def sender_work_def\<close>)
  qed
qed

lemma stopped_progress:
  assumes "node_ok n" and "nd_stopped n" and "nd_phase n \<noteq> Ended"
  shows "\<exists>n'. calm_step n n' \<and> work_left n' < work_left n"
proof -
  have ended: "\<exists>n'. calm_step n n' \<and> work_left n' < work_left n" if "node_step n (finish n)"
    by (rule progressI [OF that])
      (use assms(2,3) in \<open>auto simp: work_left_def finish_def split: run_phase.split\<close>)
  consider "nd_phase n = Dialing \<or> nd_phase n = Backoff" | "nd_phase n = Serving"
    | "nd_phase n \<in> {Stopping, SenderLeft, ReceiverLeft}"
    using assms(3) by (cases "nd_phase n") auto
  then show ?thesis
  proof cases
    case 1
    then show ?thesis using dial_stopped [OF 1 assms(2)] ended by blast
  next
    case 2
    show ?thesis
      by (rule progressI [OF stop_seen [OF 2 assms(2)]]) (use assms 2 in \<open>auto simp: work_left_def\<close>)
  next
    case 3
    have t: "tasks_ok n" using assms(1) by (simp add: node_ok_def)
    show ?thesis
    proof (cases "nd_receiver n = RecvOpen \<or> sender_alive n")
      case True
      then show ?thesis using task_step [OF assms(2)] 3 by blast
    next
      case False
      then show ?thesis using join_step [OF t assms(2) 3] ended by blast
    qed
  qed
qed

lemma stopped_ends:
  assumes "node_ok n" and "nd_stopped n"
  shows "\<exists>n'. calm_step\<^sup>*\<^sup>* n n' \<and> nd_stopped n' \<and> nd_phase n' = Ended"
  using assms by (rule calm_node.final_reached [where m = work_left and P = nd_stopped])
    (use stopped_progress in \<open>auto simp: calm_step_def\<close>)

end
