(* ===== verification/Debouncer.thy ===== *)
theory Debouncer
  imports Vamp_Prelude
begin

text \<open>
  \<^verbatim>\<open>rtc/debouncer.rs\<close>: the task that tells the connector when a negotiation has taken too long.
  It keeps the last event it took from its queue; a start that is followed by nothing for the
  timeout is notified. Time is counted in nanoseconds and only advances.
\<close>

section \<open>State and steps\<close>

definition DEBOUNCE_TIMEOUT :: nat where "DEBOUNCE_TIMEOUT = 60 * 10 ^ 9"

datatype DebounceEvent = Start | End

text \<open>
  \<open>db_since\<close> is the time at which the task entered its current \<^verbatim>\<open>select!\<close>, where the sleep begins
  anew. \<open>db_taken\<close> records the events taken and \<open>db_notified\<close> the notifications sent.
\<close>

record debouncer =
  db_now :: nat
  db_queue :: "DebounceEvent list"
  db_senders_gone :: bool
  db_stopped :: bool
  db_over :: bool
  db_state :: DebounceEvent
  db_since :: nat
  db_taken :: "(nat \<times> DebounceEvent) list"
  db_notified :: "nat list"

definition new_debouncer :: "nat \<Rightarrow> debouncer" where
  "new_debouncer now =
     \<lparr>db_now = now, db_queue = [], db_senders_gone = False, db_stopped = False, db_over = False,
      db_state = End, db_since = now, db_taken = [], db_notified = []\<rparr>"

text \<open>\<^verbatim>\<open>try_send\<close> on the queue of 64: a full queue, or one without its task, drops the event.\<close>

definition deb_push :: "DebounceEvent \<Rightarrow> debouncer \<Rightarrow> debouncer" where
  "deb_push e d =
     (if \<not> db_over d \<and> length (db_queue d) < 64 then d\<lparr>db_queue := db_queue d @ [e]\<rparr> else d)"

text \<open>
  One turn of the task: the biased \<^verbatim>\<open>select!\<close> looks at the stopper, then at the queue, and only
  after a start at the sleep. A turn in which nothing is ready changes nothing.
\<close>

definition deb_poll :: "debouncer \<Rightarrow> debouncer" where
  "deb_poll d =
     (if db_over d then d
      else if db_stopped d then d\<lparr>db_over := True\<rparr>
      else
        (case db_queue d of
           e # es \<Rightarrow>
             d\<lparr>db_queue := es, db_state := e, db_since := db_now d,
               db_taken := db_taken d @ [(db_now d, e)]\<rparr>
         | [] \<Rightarrow>
             if db_senders_gone d then d\<lparr>db_over := True\<rparr>
             else if db_state d = Start \<and> db_since d + DEBOUNCE_TIMEOUT \<le> db_now d then
               d\<lparr>db_state := End, db_since := db_now d, db_notified := db_notified d @ [db_now d]\<rparr>
             else d))"

datatype deb_call = StartCalled | EndCalled | StopCalled | SendersDropped | Polled

text \<open>An event of the run: some time passes, then one call, or one turn of the task.\<close>

definition wait_ns :: "nat \<Rightarrow> debouncer \<Rightarrow> debouncer" where
  "wait_ns dt d = d\<lparr>db_now := db_now d + dt\<rparr>"

fun deb_call_step :: "deb_call \<Rightarrow> debouncer \<Rightarrow> debouncer" where
  "deb_call_step StartCalled d = deb_push Start d"
| "deb_call_step EndCalled d = deb_push End d"
| "deb_call_step StopCalled d = d\<lparr>db_stopped := True\<rparr>"
| "deb_call_step SendersDropped d = d\<lparr>db_senders_gone := True\<rparr>"
| "deb_call_step Polled d = deb_poll d"

definition deb_step :: "debouncer \<Rightarrow> nat \<times> deb_call \<Rightarrow> debouncer" where
  "deb_step d ev = deb_call_step (snd ev) (wait_ns (fst ev) d)"

definition deb_run :: "debouncer \<Rightarrow> (nat \<times> deb_call) list \<Rightarrow> debouncer" where
  "deb_run d evs = foldl deb_step d evs"

lemma deb_run_simps [simp]:
  "deb_run d [] = d" "deb_run d (ev # evs) = deb_run (deb_step d ev) evs"
  "deb_run d (evs @ evs') = deb_run (deb_run d evs) evs'"
  by (simp_all add: deb_run_def)

section \<open>The invariant\<close>

definition starts :: "debouncer \<Rightarrow> nat" where
  "starts d = length (filter (\<lambda>e. snd e = Start) (db_taken d))"

text \<open>A notification at \<open>t\<close> answers a start after which nothing was taken for the timeout.\<close>

definition answers_quiet_start :: "(nat \<times> DebounceEvent) list \<Rightarrow> nat \<Rightarrow> bool" where
  "answers_quiet_start taken t \<longleftrightarrow>
     (\<exists>s. (s, Start) \<in> set taken \<and> s + DEBOUNCE_TIMEOUT \<le> t
        \<and> (\<forall>u \<in> set taken. fst u \<le> s \<or> t \<le> fst u))"

definition clock_ok :: "debouncer \<Rightarrow> bool" where
  "clock_ok d \<longleftrightarrow>
     db_since d \<le> db_now d \<and> (\<forall>u \<in> set (db_taken d). fst u \<le> db_since d)
   \<and> (\<forall>t \<in> set (db_notified d). t \<le> db_since d)
   \<and> (db_state d = Start \<longrightarrow> (db_since d, Start) \<in> set (db_taken d))"

definition count_ok :: "debouncer \<Rightarrow> bool" where
  "count_ok d \<longleftrightarrow>
     length (db_notified d) + (if db_state d = Start then 1 else 0) \<le> starts d
   \<and> length (db_queue d) \<le> 64"

definition notified_ok :: "debouncer \<Rightarrow> bool" where
  "notified_ok d \<longleftrightarrow>
     sorted_wrt (\<lambda>a b. a + DEBOUNCE_TIMEOUT \<le> b) (db_notified d)
   \<and> (\<forall>t \<in> set (db_notified d). answers_quiet_start (db_taken d) t)"

definition deb_ok :: "debouncer \<Rightarrow> bool" where
  "deb_ok d \<longleftrightarrow> clock_ok d \<and> count_ok d \<and> notified_ok d"

lemma deb_ok_new: "deb_ok (new_debouncer now)"
  by (simp add: deb_ok_def clock_ok_def count_ok_def notified_ok_def starts_def new_debouncer_def)

lemma deb_ok_wait: "deb_ok d \<Longrightarrow> deb_ok (wait_ns dt d)"
  by (auto simp: deb_ok_def clock_ok_def count_ok_def notified_ok_def starts_def wait_ns_def)

lemma deb_ok_push: "deb_ok d \<Longrightarrow> deb_ok (deb_push e d)"
  by (auto simp: deb_ok_def clock_ok_def count_ok_def notified_ok_def starts_def deb_push_def)

lemma answers_later:
  "answers_quiet_start taken t \<Longrightarrow> t \<le> now \<Longrightarrow> answers_quiet_start (taken @ [(now, e)]) t"
  unfolding answers_quiet_start_def by fastforce

text \<open>The three things one turn can do: end, take an event, notify.\<close>

lemma deb_poll_cases:
  obtains (idle) "deb_poll d = d"
  | (over) "deb_poll d = d\<lparr>db_over := True\<rparr>"
  | (took) e es where "db_queue d = e # es"
      "deb_poll d = d\<lparr>db_queue := es, db_state := e, db_since := db_now d,
         db_taken := db_taken d @ [(db_now d, e)]\<rparr>"
  | (notify) "db_state d = Start" "db_since d + DEBOUNCE_TIMEOUT \<le> db_now d" "db_queue d = []"
      "deb_poll d = d\<lparr>db_state := End, db_since := db_now d,
         db_notified := db_notified d @ [db_now d]\<rparr>"
proof (cases "db_over d \<or> db_stopped d")
  case True
  show ?thesis
  proof (cases "db_over d")
    case True
    show ?thesis by (rule idle) (simp add: deb_poll_def True)
  next
    case over_not: False
    show ?thesis by (rule over) (use True over_not in \<open>simp add: deb_poll_def\<close>)
  qed
next
  case False
  show ?thesis
  proof (cases "db_queue d")
    case Nil
    consider "db_senders_gone d"
      | "\<not> db_senders_gone d" "db_state d = Start" "db_since d + DEBOUNCE_TIMEOUT \<le> db_now d"
      | "\<not> db_senders_gone d" "\<not> (db_state d = Start \<and> db_since d + DEBOUNCE_TIMEOUT \<le> db_now d)"
      by blast
    then show ?thesis
    proof cases
      case 1
      show ?thesis by (rule over) (use False Nil 1 in \<open>simp add: deb_poll_def\<close>)
    next
      case 2
      show ?thesis by (rule notify) (use False Nil 2 in \<open>simp_all add: deb_poll_def\<close>)
    next
      case 3
      show ?thesis by (rule idle) (use False Nil 3 in \<open>auto simp: deb_poll_def\<close>)
    qed
  next
    case (Cons e es)
    show ?thesis by (rule took [OF Cons]) (use False Cons in \<open>simp add: deb_poll_def\<close>)
  qed
qed

lemma deb_ok_poll:
  assumes "deb_ok d"
  shows "deb_ok (deb_poll d)"
proof (cases d rule: deb_poll_cases)
  case idle
  then show ?thesis using assms by simp
next
  case over
  then show ?thesis
    using assms by (simp add: deb_ok_def clock_ok_def count_ok_def notified_ok_def starts_def)
next
  case (took e es)
  have late: "\<forall>t \<in> set (db_notified d). t \<le> db_now d"
    using assms by (auto simp: deb_ok_def clock_ok_def intro: le_trans)
  have "clock_ok (deb_poll d)"
    using assms took(2) late by (auto simp: deb_ok_def clock_ok_def intro: le_trans)
  moreover have "count_ok (deb_poll d)"
    using assms took by (auto simp: deb_ok_def count_ok_def starts_def)
  moreover have "notified_ok (deb_poll d)"
    using assms took(2) late by (auto simp: deb_ok_def notified_ok_def intro: answers_later)
  ultimately show ?thesis by (simp add: deb_ok_def)
next
  case notify
  have "answers_quiet_start (db_taken d) (db_now d)"
    using assms notify(1,2) unfolding answers_quiet_start_def deb_ok_def clock_ok_def by blast
  moreover have "\<forall>t \<in> set (db_notified d). t + DEBOUNCE_TIMEOUT \<le> db_now d"
    using assms notify(2) by (force simp: deb_ok_def clock_ok_def)
  ultimately have "notified_ok (deb_poll d)"
    using assms notify(4) by (auto simp: deb_ok_def notified_ok_def sorted_wrt_append)
  moreover have "clock_ok (deb_poll d)" "count_ok (deb_poll d)"
    using assms notify by (auto simp: deb_ok_def clock_ok_def count_ok_def starts_def intro: le_trans)
  ultimately show ?thesis by (simp add: deb_ok_def)
qed

lemma deb_ok_call: "deb_ok d \<Longrightarrow> deb_ok (deb_call_step c d)"
  by (cases c)
    (simp_all add: deb_ok_push deb_ok_poll, simp_all add: deb_ok_def clock_ok_def count_ok_def
      notified_ok_def starts_def)

interpretation debouncer: step_system deb_step deb_ok
  by unfold_locales (simp add: deb_step_def deb_ok_call deb_ok_wait)

lemma deb_run_ok: "deb_ok (deb_run (new_debouncer now) evs)"
  unfolding deb_run_def by (rule debouncer.run_inv) (rule deb_ok_new)

section \<open>What cancels and what postpones\<close>

text \<open>The task waits after a start it took at \<open>db_since\<close>, with nothing else to do.\<close>

definition waiting :: "debouncer \<Rightarrow> bool" where
  "waiting d \<longleftrightarrow> db_state d = Start \<and> db_queue d = [] \<and> \<not> db_over d \<and> \<not> db_stopped d
     \<and> \<not> db_senders_gone d \<and> db_since d \<le> db_now d"

lemma waiting_poll:
  "waiting d \<Longrightarrow>
   deb_poll d = (if db_since d + DEBOUNCE_TIMEOUT \<le> db_now d
     then d\<lparr>db_state := End, db_since := db_now d, db_notified := db_notified d @ [db_now d]\<rparr>
     else d)"
  by (auto simp: waiting_def deb_poll_def)

lemma waiting_restart:
  assumes "waiting d"
  shows "let d' = deb_run d [(dt, StartCalled), (0, Polled)] in
    waiting d' \<and> db_since d' = db_now d + dt \<and> db_notified d' = db_notified d"
  using assms by (simp add: waiting_def deb_step_def wait_ns_def deb_push_def deb_poll_def)

lemma restarts_postpone:
  "waiting d \<Longrightarrow>
   let d' = deb_run d (concat (map (\<lambda>dt. [(dt, StartCalled), (0, Polled)]) dts)) in
     waiting d' \<and> db_notified d' = db_notified d"
proof (induction dts arbitrary: d)
  case (Cons dt dts)
  have "waiting (deb_run d [(dt, StartCalled), (0, Polled)])"
    and "db_notified (deb_run d [(dt, StartCalled), (0, Polled)]) = db_notified d"
    using waiting_restart [OF Cons.prems, of dt] by (simp_all add: Let_def del: deb_run_simps(2))
  then show ?case using Cons.IH by (simp add: Let_def)
qed simp

end
