(* ===== verification/Rtc_Connector.thy ===== *)
theory Rtc_Connector
  imports Wire Debouncer "HOL-Library.Sublist"
begin

text \<open>
  \<^verbatim>\<open>rtc/rtc_connector.rs\<close>: the answering side of a WebRTC connection. One task owns the peer
  connection, the current offer and the current negotiation; callbacks of the \<^verbatim>\<open>webrtc\<close> crate and of
  the signalling connection run beside it and reach it through two queues, the table of data
  channels and the debouncer. The crate's own calls are free to succeed or to fail.
\<close>

section \<open>Signals\<close>

datatype SignalKind = Offer | Answer | IceCandidate | LocalCandidate

record SignalMsg =
  sg_kind :: SignalKind
  sg_sdp :: string
  sg_neg_id :: string

text \<open>\<open>decode\<close> is serde at \<^verbatim>\<open>WireMsg<SignalMsg>\<close>, \<open>encode\<close> its serialiser.\<close>

definition from_wire_msg ::
  "(string \<Rightarrow> SignalMsg WireMsg option) \<Rightarrow> string \<Rightarrow> SignalMsg TransportMsg option" where
  "from_wire_msg decode raw = (case decode raw of Some w \<Rightarrow> wm_message w | None \<Rightarrow> None)"

definition to_wire_msg ::
  "('t WireMsg \<Rightarrow> string + string) \<Rightarrow> string \<Rightarrow> 't TransportMsg option \<Rightarrow> string + Message" where
  "to_wire_msg encode rtt msg =
     (case encode \<lparr>wm_tag = rtt, wm_message = msg\<rparr> of Inl e \<Rightarrow> Inl e | Inr s \<Rightarrow> Inr (Text s))"

text \<open>The decoder the connector gives to its transport handler.\<close>

definition signal_decoder ::
  "(string \<Rightarrow> SignalMsg WireMsg option) \<Rightarrow> Message \<Rightarrow> string + SignalMsg TransportMsg" where
  "signal_decoder decode msg =
     (case msg of
        Text raw \<Rightarrow>
          (case from_wire_msg decode raw of
             Some m \<Rightarrow> Inr m
           | None \<Rightarrow> Inl (''invalid signalling message: '' @ raw))
      | Binary b \<Rightarrow> Inl ''expected text signalling message: binary''
      | Ping b \<Rightarrow> Inl ''expected text signalling message: ping''
      | Pong b \<Rightarrow> Inl ''expected text signalling message: pong''
      | Close \<Rightarrow> Inl ''expected text signalling message: close'')"

section \<open>State\<close>

text \<open>
  A peer connection is a number, in order of creation; a data channel is an index into the store
  of channels, with the control of its transport handler once it has an owner. The phases of the
  task: the head of its loop, its \<^verbatim>\<open>select!\<close>, inside \<^verbatim>\<open>handle_offer\<close>, inside \<^verbatim>\<open>send_default\<close>.
\<close>

record channel =
  ch_label :: string
  ch_peer :: nat
  ch_closed :: bool
  ch_owner :: "nat option"

datatype rtc_phase = LoopHead | Selecting | Answering SignalMsg | SendingOut SignalMsg | RunOver

record rtc =
  rc_phase :: rtc_phase
  rc_restart :: bool
  rc_peer :: "nat option"
  rc_next_peer :: nat
  rc_current_offer :: "SignalMsg option"
  rc_negotiation :: "string option"
  rc_offers :: "SignalMsg list"
  rc_signals :: "SignalMsg list"
  rc_handler_gone :: bool
  rc_cancelled :: bool
  rc_map :: "string \<Rightarrow> nat option"
  rc_store :: "channel list"
  rc_claims :: "nat list"
  rc_next_control :: nat
  rc_cancelled_controls :: "nat set"
  rc_connected :: "nat set"
  rc_closed_peers :: "nat set"
  rc_debouncer :: debouncer
  rc_seen :: nat
  rc_taken :: "SignalMsg list"
  rc_sent :: "SignalMsg list"
  rc_applied :: "(nat \<times> string) list"
  rc_gathered :: "(nat \<times> string) list"

definition new_rtc :: "nat \<Rightarrow> rtc" where
  "new_rtc now =
     \<lparr>rc_phase = LoopHead, rc_restart = True, rc_peer = None, rc_next_peer = 0,
      rc_current_offer = None, rc_negotiation = None, rc_offers = [], rc_signals = [],
      rc_handler_gone = False, rc_cancelled = False, rc_map = (\<lambda>_. None), rc_store = [],
      rc_claims = [], rc_next_control = 0, rc_cancelled_controls = {}, rc_connected = {},
      rc_closed_peers = {}, rc_debouncer = new_debouncer now, rc_seen = 0, rc_taken = [],
      rc_sent = [], rc_applied = [], rc_gathered = []\<rparr>"

section \<open>Callbacks\<close>

definition signal_capacity :: nat where "signal_capacity = 8"

definition push_signal :: "SignalMsg \<Rightarrow> SignalMsg list \<Rightarrow> SignalMsg list" where
  "push_signal m q = (if length q < signal_capacity then q @ [m] else q)"

text \<open>The message handler of the signalling connection; \<^verbatim>\<open>try_send\<close> drops on a full queue.\<close>

definition on_signal :: "SignalMsg \<Rightarrow> rtc \<Rightarrow> rtc" where
  "on_signal m r =
     (let r1 = (if sg_kind m = Offer then r\<lparr>rc_offers := push_signal m (rc_offers r)\<rparr> else r) in
      r1\<lparr>rc_signals := push_signal m (rc_signals r1)\<rparr>)"

datatype peer_state = New | Connecting | Connected | Disconnected | Failed | Closed

definition on_debouncer :: "nat \<times> deb_call \<Rightarrow> rtc \<Rightarrow> rtc" where
  "on_debouncer ev r = r\<lparr>rc_debouncer := deb_step (rc_debouncer r) ev\<rparr>"

text \<open>\<^verbatim>\<open>on_peer_connection_state_change\<close>.\<close>

definition on_state_change :: "nat \<Rightarrow> peer_state \<Rightarrow> rtc \<Rightarrow> rtc" where
  "on_state_change p st r =
     (case st of
        Connected \<Rightarrow> on_debouncer (0, EndCalled) (r\<lparr>rc_connected := insert p (rc_connected r)\<rparr>)
      | Disconnected \<Rightarrow> on_debouncer (0, StartCalled) (r\<lparr>rc_connected := rc_connected r - {p}\<rparr>)
      | Failed \<Rightarrow> on_debouncer (0, StartCalled) (r\<lparr>rc_connected := rc_connected r - {p}\<rparr>)
      | Closed \<Rightarrow> r\<lparr>rc_connected := rc_connected r - {p}\<rparr>
      | New \<Rightarrow> r
      | Connecting \<Rightarrow> r)"

text \<open>Cancel the owner of a channel, if it has one, and close the channel.\<close>

definition drop_channel :: "nat \<Rightarrow> rtc \<Rightarrow> rtc" where
  "drop_channel k r =
     (let c = rc_store r ! k in
      r\<lparr>rc_store := (rc_store r)[k := c\<lparr>ch_closed := True, ch_owner := None\<rparr>],
        rc_cancelled_controls :=
          (case ch_owner c of Some t \<Rightarrow> insert t (rc_cancelled_controls r)
                            | None \<Rightarrow> rc_cancelled_controls r)\<rparr>)"

text \<open>\<^verbatim>\<open>on_data_channel\<close>: the new channel takes the place of one with the same label.\<close>

definition on_data_channel :: "nat \<Rightarrow> string \<Rightarrow> rtc \<Rightarrow> rtc" where
  "on_data_channel p label r =
     (let k = length (rc_store r);
          c = \<lparr>ch_label = label, ch_peer = p, ch_closed = False, ch_owner = None\<rparr>;
          r1 = r\<lparr>rc_store := rc_store r @ [c], rc_map := (rc_map r)(label := Some k)\<rparr> in
      case rc_map r label of Some old \<Rightarrow> drop_channel old r1 | None \<Rightarrow> r1)"

text \<open>\<^verbatim>\<open>on_ice_candidate\<close>: a candidate waits for room in the queue, its negotiation id empty.\<close>

definition local_candidate :: "string \<Rightarrow> SignalMsg" where
  "local_candidate sdp = \<lparr>sg_kind = LocalCandidate, sg_sdp = sdp, sg_neg_id = []\<rparr>"

definition on_ice_candidate :: "nat \<Rightarrow> string \<Rightarrow> rtc \<Rightarrow> rtc" where
  "on_ice_candidate p sdp r =
     r\<lparr>rc_signals := rc_signals r @ [local_candidate sdp], rc_gathered := rc_gathered r @ [(p, sdp)]\<rparr>"

section \<open>Claiming a data channel\<close>

text \<open>
  \<^verbatim>\<open>wait_for_a_data_channel_connector\<close>: it looks the channel up under the lock of the table, and
  becomes its owner under the lock of the channel, unless there is one.
\<close>

definition claim_lookup :: "rtc \<Rightarrow> nat option" where
  "claim_lookup r = rc_map r ''default''"

definition claim_own :: "nat \<Rightarrow> rtc \<Rightarrow> (string + nat) \<times> rtc" where
  "claim_own k r =
     (let c = rc_store r ! k in
      case ch_owner c of
        Some t \<Rightarrow> (Inl ''transport handler already has an owner'', r)
      | None \<Rightarrow>
          (Inr (rc_next_control r),
           r\<lparr>rc_store := (rc_store r)[k := c\<lparr>ch_owner := Some (rc_next_control r)\<rparr>],
             rc_next_control := rc_next_control r + 1\<rparr>))"

section \<open>The task\<close>

text \<open>\<^verbatim>\<open>close_data_channels\<close> drains the table: a channel is in it under its label or not at all.\<close>

definition in_table :: "rtc \<Rightarrow> nat \<Rightarrow> bool" where
  "in_table r k \<longleftrightarrow> rc_map r (ch_label (rc_store r ! k)) = Some k"

definition close_data_channels :: "rtc \<Rightarrow> rtc" where
  "close_data_channels r =
     (foldr drop_channel (filter (in_table r) [0..<length (rc_store r)]) r)
       \<lparr>rc_map := (\<lambda>_. None)\<rparr>"

definition loop_head :: "rtc \<Rightarrow> rtc" where
  "loop_head r =
     (let r1 =
        (if rc_restart r then
           (let r2 =
              (case rc_peer r of
                 Some p \<Rightarrow>
                   (close_data_channels r)
                     \<lparr>rc_closed_peers := insert p (rc_closed_peers r), rc_current_offer := None,
                      rc_negotiation := None\<rparr>
               | None \<Rightarrow> r) in
            r2\<lparr>rc_restart := False, rc_peer := Some (rc_next_peer r2),
               rc_next_peer := rc_next_peer r2 + 1\<rparr>)
         else r) in
      r1\<lparr>rc_phase := Selecting\<rparr>)"

text \<open>\<^verbatim>\<open>is_some_and(|id| !id.is_empty())\<close>.\<close>

definition negotiating :: "rtc \<Rightarrow> bool" where
  "negotiating r \<longleftrightarrow> (case rc_negotiation r of Some i \<Rightarrow> i \<noteq> [] | None \<Rightarrow> False)"

text \<open>
  The broadcast receiver holds the last 64 notifications; a reader further behind is told so and
  goes on from the oldest it can still have.
\<close>

definition on_debounce :: "rtc \<Rightarrow> rtc" where
  "on_debounce r =
     (let n = length (db_notified (rc_debouncer r)) in
      if n - rc_seen r > 64 then r\<lparr>rc_seen := n - 64, rc_phase := LoopHead\<rparr>
      else r\<lparr>rc_seen := rc_seen r + 1, rc_restart := True, rc_phase := LoopHead\<rparr>)"

definition on_offer :: "SignalMsg \<Rightarrow> rtc \<Rightarrow> rtc" where
  "on_offer m r =
     r\<lparr>rc_current_offer := Some m, rc_negotiation := Some (sg_neg_id m), rc_taken := rc_taken r @ [m],
       rc_phase := LoopHead\<rparr>"

text \<open>One signal, by its kind and its negotiation id; \<open>added\<close> is whether a candidate was applied.\<close>

definition on_signal_msg :: "bool \<Rightarrow> SignalMsg \<Rightarrow> rtc \<Rightarrow> rtc" where
  "on_signal_msg added m r =
     (case rc_negotiation r of
        None \<Rightarrow> r\<lparr>rc_phase := LoopHead\<rparr>
      | Some i \<Rightarrow>
          if sg_kind m = LocalCandidate then
            r\<lparr>rc_phase := SendingOut (m\<lparr>sg_kind := IceCandidate, sg_neg_id := i\<rparr>)\<rparr>
          else if sg_neg_id m \<noteq> i then r\<lparr>rc_phase := LoopHead\<rparr>
          else if sg_kind m = IceCandidate then
            (case rc_peer r of
               Some p \<Rightarrow>
                 r\<lparr>rc_phase := LoopHead,
                   rc_applied := rc_applied r @ (if added then [(p, sg_sdp m)] else [])\<rparr>
             | None \<Rightarrow> r\<lparr>rc_phase := LoopHead\<rparr>)
          else r\<lparr>rc_phase := LoopHead\<rparr>)"

definition answer_to :: "SignalMsg \<Rightarrow> string \<Rightarrow> SignalMsg" where
  "answer_to offer sdp = \<lparr>sg_kind = Answer, sg_sdp = sdp, sg_neg_id = sg_neg_id offer\<rparr>"

section \<open>Steps\<close>

inductive rtc_step :: "rtc \<Rightarrow> rtc \<Rightarrow> bool" where
  signal_arrives: "\<not> rc_handler_gone r \<Longrightarrow> rtc_step r (on_signal m r)"
| handler_dropped: "rtc_step r (r\<lparr>rc_handler_gone := True\<rparr>)"
| state_changes: "p < rc_next_peer r \<Longrightarrow> rtc_step r (on_state_change p st r)"
| channel_opens: "p < rc_next_peer r \<Longrightarrow> rtc_step r (on_data_channel p label r)"
| candidate_gathered: "p < rc_next_peer r \<Longrightarrow> length (rc_signals r) < signal_capacity \<Longrightarrow>
    rtc_step r (on_ice_candidate p sdp r)"
| debouncer_turn: "rtc_step r (on_debouncer (dt, Polled) r)"
| claim_found: "claim_lookup r = Some k \<Longrightarrow> rtc_step r (r\<lparr>rc_claims := k # rc_claims r\<rparr>)"
| claim_settled: "k \<in> set (rc_claims r) \<Longrightarrow>
    rtc_step r ((snd (claim_own k r))\<lparr>rc_claims := remove1 k (rc_claims r)\<rparr>)"
| cancel_called: "rtc_step r (r\<lparr>rc_cancelled := True\<rparr>)"

| head: "rc_phase r = LoopHead \<Longrightarrow> rtc_step r (loop_head r)"
| cancelled: "rc_phase r = Selecting \<Longrightarrow> rc_cancelled r \<Longrightarrow> rtc_step r (r\<lparr>rc_phase := RunOver\<rparr>)"
| debounced: "rc_phase r = Selecting \<Longrightarrow> rc_seen r < length (db_notified (rc_debouncer r)) \<Longrightarrow>
    rtc_step r (on_debounce r)"
| offer_taken: "rc_phase r = Selecting \<Longrightarrow> rc_offers r = m # ms \<Longrightarrow>
    rtc_step r (on_offer m (r\<lparr>rc_offers := ms\<rparr>))"
| offers_closed: "rc_phase r = Selecting \<Longrightarrow> rc_offers r = [] \<Longrightarrow> rc_handler_gone r \<Longrightarrow>
    rtc_step r (r\<lparr>rc_phase := RunOver\<rparr>)"
| answer_begun: "rc_phase r = Selecting \<Longrightarrow> negotiating r \<Longrightarrow> rc_current_offer r = Some m \<Longrightarrow>
    rtc_step r (r\<lparr>rc_current_offer := None, rc_phase := Answering m\<rparr>)"
| answer_failed: "rc_phase r = Answering m \<Longrightarrow> rtc_step r (r\<lparr>rc_phase := LoopHead\<rparr>)"
| answer_made: "rc_phase r = Answering m \<Longrightarrow>
    rtc_step r (r\<lparr>rc_phase := SendingOut (answer_to m sdp)\<rparr>)"
| signal_taken: "rc_phase r = Selecting \<Longrightarrow> negotiating r \<Longrightarrow> rc_signals r = m # ms \<Longrightarrow>
    rtc_step r (on_signal_msg added m (r\<lparr>rc_signals := ms\<rparr>))"
| sent: "rc_phase r = SendingOut m \<Longrightarrow>
    rtc_step r (r\<lparr>rc_phase := LoopHead, rc_sent := rc_sent r @ [m]\<rparr>)"
| not_encoded: "rc_phase r = SendingOut m \<Longrightarrow> rtc_step r (r\<lparr>rc_phase := LoopHead\<rparr>)"

end
