(* ===== verification/Rtc_Safety.thy ===== *)
theory Rtc_Safety
  imports Rtc_Connector
begin

text \<open>
  The invariant of the connector: the table and the store of data channels agree, every control
  that was handed out is in its channel or cancelled, answers follow the offers, what is sent
  belongs to a negotiation, and peer connections are replaced one by one, each time because the
  debouncer said so.
\<close>

section \<open>Two views of the store\<close>

text \<open>The label of a channel that is not closed, and the control of a channel with an owner.\<close>

definition live_at :: "rtc \<Rightarrow> nat \<Rightarrow> string option" where
  "live_at r k =
     (if k < length (rc_store r) \<and> \<not> ch_closed (rc_store r ! k)
      then Some (ch_label (rc_store r ! k)) else None)"

definition owner_at :: "rtc \<Rightarrow> nat \<Rightarrow> nat option" where
  "owner_at r k = (if k < length (rc_store r) then ch_owner (rc_store r ! k) else None)"

text \<open>A new channel, before the one it replaces is dropped.\<close>

definition with_channel :: "nat \<Rightarrow> string \<Rightarrow> rtc \<Rightarrow> rtc" where
  "with_channel p label r =
     r\<lparr>rc_store := rc_store r @ [\<lparr>ch_label = label, ch_peer = p, ch_closed = False, ch_owner = None\<rparr>],
       rc_map := (rc_map r)(label := Some (length (rc_store r)))\<rparr>"

lemma on_data_channel_eq:
  "on_data_channel p label r =
     (case rc_map r label of
        Some old \<Rightarrow> drop_channel old (with_channel p label r)
      | None \<Rightarrow> with_channel p label r)"
  unfolding on_data_channel_def with_channel_def Let_def ..

lemma views_frame:
  "rc_store r' = rc_store r \<Longrightarrow> live_at r' = live_at r"
  "rc_store r' = rc_store r \<Longrightarrow> owner_at r' = owner_at r"
  by (simp_all add: live_at_def owner_at_def fun_eq_iff)

lemma with_channel_views:
  "live_at (with_channel p label r) = (live_at r)(length (rc_store r) \<mapsto> label)"
  "owner_at (with_channel p label r) = owner_at r"
  by (auto simp: live_at_def owner_at_def with_channel_def nth_append fun_eq_iff less_Suc_eq)

lemma drop_channel_eq:
  "drop_channel k r = r
     \<lparr>rc_store := (rc_store r)[k := (rc_store r ! k)\<lparr>ch_closed := True, ch_owner := None\<rparr>],
      rc_cancelled_controls :=
        rc_cancelled_controls r \<union> set_option (ch_owner (rc_store r ! k))\<rparr>"
  by (simp add: drop_channel_def Let_def split: option.splits)

lemma drop_channel_views:
  "live_at (drop_channel k r) = (live_at r)(k := None)"
  "owner_at (drop_channel k r) = (owner_at r)(k := None)"
  by (auto simp: live_at_def owner_at_def drop_channel_eq nth_list_update fun_eq_iff)

lemma drop_channel_fields:
  "rc_map (drop_channel k r) = rc_map r" "length (rc_store (drop_channel k r)) = length (rc_store r)"
  "rc_next_control (drop_channel k r) = rc_next_control r"
  "rc_claims (drop_channel k r) = rc_claims r"
  "k < length (rc_store r) \<Longrightarrow>
   rc_cancelled_controls (drop_channel k r) = rc_cancelled_controls r \<union> set_option (owner_at r k)"
  by (simp_all add: drop_channel_eq owner_at_def)

section \<open>Channels and controls\<close>

text \<open>The table maps a label to the channel that is not closed and has that label.\<close>

definition table_of :: "(string \<Rightarrow> nat option) \<Rightarrow> (nat \<Rightarrow> string option) \<Rightarrow> bool" where
  "table_of m live \<longleftrightarrow> (\<forall>label k. m label = Some k \<longleftrightarrow> live k = Some label)"

text \<open>The first \<open>n\<close> controls have been handed out: each is cancelled or has its channel.\<close>

definition handed_out :: "nat \<Rightarrow> nat set \<Rightarrow> (nat \<Rightarrow> nat option) \<Rightarrow> bool" where
  "handed_out n gone owner \<longleftrightarrow>
     {..<n} = gone \<union> ran owner \<and> gone \<inter> ran owner = {}
   \<and> (\<forall>i j t. owner i = Some t \<longrightarrow> owner j = Some t \<longrightarrow> i = j)"

lemma table_of_new:
  "table_of m live \<Longrightarrow> live k = None \<Longrightarrow> m label = None \<Longrightarrow> table_of (m(label \<mapsto> k)) (live(k \<mapsto> label))"
  by (auto simp: table_of_def) (metis option.distinct(1))

lemma table_of_replace:
  assumes "table_of m live" and "live k = None" and "m label = Some old"
  shows "table_of (m(label \<mapsto> k)) ((live(k \<mapsto> label))(old := None))"
  unfolding table_of_def
proof (intro allI)
  fix l j
  have iff: "m l = Some j \<longleftrightarrow> live j = Some l" for l j using assms(1) by (simp add: table_of_def)
  have "live old = Some label" using iff assms(3) by blast
  then have old: "old \<noteq> k" using assms(2) by auto
  show "(m(label \<mapsto> k)) l = Some j \<longleftrightarrow> ((live(k \<mapsto> label))(old := None)) j = Some l"
    using iff [of l j] assms(2,3) old iff [of label j] \<open>live old = Some label\<close> by auto
qed

lemma handed_out_drop:
  assumes "handed_out n gone owner"
  shows "handed_out n (gone \<union> set_option (owner k)) (owner(k := None))"
proof (cases "owner k")
  case None
  then have "owner(k := None) = owner" by auto
  then show ?thesis using assms None by simp
next
  case (Some t)
  have given: "{..<n} = gone \<union> ran owner" and apart: "gone \<inter> ran owner = {}"
    and one: "\<And>i j t. owner i = Some t \<Longrightarrow> owner j = Some t \<Longrightarrow> i = j"
    using assms unfolding handed_out_def by simp_all
  have "i = k" if "owner i = Some t" for i by (rule one [OF that Some])
  then have iff: "owner i = Some t \<longleftrightarrow> i = k" for i using Some by blast
  have r: "ran (owner(k := None)) = ran owner - {t}"
  proof (rule set_eqI)
    fix x
    have "x \<in> ran (owner(k := None)) \<longleftrightarrow> (\<exists>i. i \<noteq> k \<and> owner i = Some x)" by (auto simp: ran_def)
    also have "\<dots> \<longleftrightarrow> x \<in> ran owner - {t}" using iff Some by (simp add: ran_def) (metis option.inject)
    finally show "x \<in> ran (owner(k := None)) \<longleftrightarrow> x \<in> ran owner - {t}" .
  qed
  have t: "t \<in> ran owner" using Some by (auto simp: ran_def)
  show ?thesis
    unfolding handed_out_def
  proof (intro conjI allI impI)
    show "{..<n} = gone \<union> set_option (owner k) \<union> ran (owner(k := None))"
      unfolding given r Some using t by auto
    show "(gone \<union> set_option (owner k)) \<inter> ran (owner(k := None)) = {}"
      unfolding r Some using apart by auto
    show "i = j" if "(owner(k := None)) i = Some u" "(owner(k := None)) j = Some u" for i j u
    proof (rule one)
      show "owner i = Some u" "owner j = Some u" using that by (simp_all split: if_splits)
    qed
  qed
qed

lemma handed_out_claim:
  assumes "handed_out n gone owner" and "owner k = None"
  shows "handed_out (n + 1) gone (owner(k \<mapsto> n))"
proof -
  have n: "n \<notin> gone" "n \<notin> ran owner" using assms(1) unfolding handed_out_def by blast+
  have r: "ran (owner(k \<mapsto> n)) = insert n (ran owner)" using assms(2) by (rule ran_map_upd)
  have "{..<n + 1} = insert n {..<n}" by auto
  moreover have "\<forall>i. owner i \<noteq> Some n" using n(2) by (auto simp: ran_def)
  ultimately show ?thesis using assms(1) n r unfolding handed_out_def by auto
qed

definition channels_ok :: "rtc \<Rightarrow> bool" where
  "channels_ok r \<longleftrightarrow>
     table_of (rc_map r) (live_at r)
   \<and> handed_out (rc_next_control r) (rc_cancelled_controls r) (owner_at r)
   \<and> (\<forall>k \<in> set (rc_claims r). k < length (rc_store r))"

lemma channels_ok_frame:
  assumes "rc_map r' = rc_map r" and "rc_store r' = rc_store r"
    and "rc_next_control r' = rc_next_control r"
    and "rc_cancelled_controls r' = rc_cancelled_controls r"
    and "set (rc_claims r') \<subseteq> set (rc_claims r)"
    and "channels_ok r"
  shows "channels_ok r'"
  using assms views_frame [OF assms(2)] unfolding channels_ok_def by auto

lemma mapped_in_store: "channels_ok r \<Longrightarrow> rc_map r label = Some k \<Longrightarrow> k < length (rc_store r)"
  unfolding channels_ok_def table_of_def live_at_def by (metis option.distinct(1))

lemma channels_ok_opens:
  assumes "channels_ok r"
  shows "channels_ok (on_data_channel p label r)"
proof -
  let ?k = "length (rc_store r)"
  have new: "live_at r ?k = None" by (simp add: live_at_def)
  have w: "rc_map (with_channel p label r) = (rc_map r)(label \<mapsto> ?k)"
    "rc_next_control (with_channel p label r) = rc_next_control r"
    "rc_cancelled_controls (with_channel p label r) = rc_cancelled_controls r"
    "rc_claims (with_channel p label r) = rc_claims r"
    "length (rc_store (with_channel p label r)) = ?k + 1"
    by (simp_all add: with_channel_def)
  show ?thesis
  proof (cases "rc_map r label")
    case None
    then show ?thesis
      using assms table_of_new [where live = "live_at r" and m = "rc_map r", OF _ new None] w
      by (auto simp: on_data_channel_eq channels_ok_def with_channel_views)
  next
    case (Some old)
    have old: "old < ?k + 1" using mapped_in_store [OF assms Some] by simp
    have "table_of ((rc_map r)(label \<mapsto> ?k)) (((live_at r)(?k \<mapsto> label))(old := None))"
      by (rule table_of_replace [where live = "live_at r" and m = "rc_map r", OF _ new Some]) (use assms in \<open>simp add: channels_ok_def\<close>)
    moreover have "handed_out (rc_next_control r)
        (rc_cancelled_controls r \<union> set_option (owner_at r old)) ((owner_at r)(old := None))"
      by (rule handed_out_drop) (use assms in \<open>simp add: channels_ok_def\<close>)
    ultimately show ?thesis
      using assms w old
      by (simp add: on_data_channel_eq Some channels_ok_def with_channel_views drop_channel_views
          drop_channel_fields(1-4) drop_channel_fields(5) [where r = "with_channel p label r"])
        (blast intro: less_SucI)
  qed
qed

lemma channels_ok_claim:
  assumes "channels_ok r" and "k < length (rc_store r)"
  shows "channels_ok (snd (claim_own k r))"
proof (cases "ch_owner (rc_store r ! k)")
  case (Some t)
  then show ?thesis using assms by (simp add: claim_own_def Let_def)
next
  case None
  let ?r = "snd (claim_own k r)"
  have r': "?r = r\<lparr>rc_store := (rc_store r)[k := (rc_store r ! k)\<lparr>ch_owner := Some (rc_next_control r)\<rparr>],
      rc_next_control := rc_next_control r + 1\<rparr>"
    using None by (simp add: claim_own_def Let_def)
  have "live_at ?r j = live_at r j" for j
    using assms(2) by (cases "j = k") (simp_all add: r' live_at_def)
  then have "live_at ?r = live_at r" by blast
  moreover have "owner_at ?r = (owner_at r)(k \<mapsto> rc_next_control r)"
    using assms(2) by (auto simp: r' owner_at_def nth_list_update fun_eq_iff)
  moreover have "owner_at r k = None" using None by (simp add: owner_at_def)
  ultimately show ?thesis
    using assms(1) handed_out_claim by (auto simp: channels_ok_def r')
qed

lemma foldr_drop:
  assumes "set ks \<subseteq> {..<length (rc_store r)}"
    and "handed_out (rc_next_control r) (rc_cancelled_controls r) (owner_at r)"
  shows "let r' = foldr drop_channel ks r in
     live_at r' = live_at r |` (- set ks) \<and> length (rc_store r') = length (rc_store r)
   \<and> rc_claims r' = rc_claims r \<and> rc_next_control r' = rc_next_control r
   \<and> handed_out (rc_next_control r) (rc_cancelled_controls r') (owner_at r')"
  using assms(1)
proof (induction ks)
  case Nil
  then show ?case using assms(2) by (simp add: restrict_map_def)
next
  case (Cons k ks)
  let ?r = "foldr drop_channel ks r"
  have IH: "live_at ?r = live_at r |` (- set ks)" "length (rc_store ?r) = length (rc_store r)"
    "rc_claims ?r = rc_claims r" "rc_next_control ?r = rc_next_control r"
    "handed_out (rc_next_control r) (rc_cancelled_controls ?r) (owner_at ?r)"
    using Cons by (simp_all add: Let_def)
  have k: "k < length (rc_store ?r)" using Cons.prems IH(2) by simp
  show ?case
    using IH handed_out_drop [OF IH(5), of k]
    by (simp add: Let_def drop_channel_views drop_channel_fields(1-4) drop_channel_fields(5) [OF k])
      (auto simp: restrict_map_def fun_eq_iff)
qed

lemma channels_ok_close:
  assumes "channels_ok r"
  shows "channels_ok (close_data_channels r)"
proof -
  let ?ks = "filter (in_table r) [0..<length (rc_store r)]"
  let ?r = "foldr drop_channel ?ks r"
  have t: "table_of (rc_map r) (live_at r)"
    and h: "handed_out (rc_next_control r) (rc_cancelled_controls r) (owner_at r)"
    using assms by (simp_all add: channels_ok_def)
  have f: "live_at ?r = live_at r |` (- set ?ks)" "length (rc_store ?r) = length (rc_store r)"
    "rc_claims ?r = rc_claims r" "rc_next_control ?r = rc_next_control r"
    "handed_out (rc_next_control r) (rc_cancelled_controls ?r) (owner_at ?r)"
    using foldr_drop [OF _ h, of ?ks] by (auto simp: Let_def)
  have "live_at ?r k = None" for k
  proof (cases "live_at r k")
    case None
    then show ?thesis by (simp add: f(1) restrict_map_def)
  next
    case (Some label)
    then have "rc_map r label = Some k" using t by (simp add: table_of_def)
    moreover have "ch_label (rc_store r ! k) = label"
      using Some by (simp add: live_at_def split: if_splits)
    ultimately have "k \<in> set ?ks" using mapped_in_store [OF assms] by (simp add: in_table_def)
    then show ?thesis by (simp add: f(1))
  qed
  then have "table_of (\<lambda>_. None) (live_at ?r)" by (simp add: table_of_def)
  moreover have "live_at (?r\<lparr>rc_map := (\<lambda>_. None)\<rparr>) = live_at ?r"
    "owner_at (?r\<lparr>rc_map := (\<lambda>_. None)\<rparr>) = owner_at ?r"
    by (rule views_frame, simp)+
  ultimately show ?thesis using assms f by (simp add: close_data_channels_def channels_ok_def)
qed

section \<open>Negotiations\<close>

definition ids :: "SignalMsg list \<Rightarrow> string list" where
  "ids ms = map sg_neg_id ms"

text \<open>The negotiations that have been answered, and those whose answer is on its way.\<close>

definition answered :: "rtc \<Rightarrow> string list" where
  "answered r = ids (filter (\<lambda>m. sg_kind m = Answer) (rc_sent r))"

definition pending :: "rtc \<Rightarrow> string list" where
  "pending r =
     (case rc_phase r of
        Answering m \<Rightarrow> [sg_neg_id m]
      | SendingOut m \<Rightarrow> if sg_kind m = Answer then [sg_neg_id m] else []
      | _ \<Rightarrow> [])
     @ (case rc_current_offer r of Some m \<Rightarrow> [sg_neg_id m] | None \<Rightarrow> [])"

definition answers_ok :: "rtc \<Rightarrow> bool" where
  "answers_ok r \<longleftrightarrow> subseq (answered r @ pending r) (ids (rc_taken r))"

definition offer_ok :: "rtc \<Rightarrow> bool" where
  "offer_ok r \<longleftrightarrow>
     (\<forall>m. rc_current_offer r = Some m \<longrightarrow> rc_negotiation r = Some (sg_neg_id m))
   \<and> (\<forall>i. rc_negotiation r = Some i \<longrightarrow> i \<in> set (ids (rc_taken r)))"

text \<open>What the connector may send: an answer or a candidate of a negotiation that was offered.\<close>

definition negotiated :: "rtc \<Rightarrow> SignalMsg \<Rightarrow> bool" where
  "negotiated r m \<longleftrightarrow>
     sg_kind m \<in> {Answer, IceCandidate} \<and> sg_neg_id m \<noteq> [] \<and> sg_neg_id m \<in> set (ids (rc_taken r))"

definition sent_ok :: "rtc \<Rightarrow> bool" where
  "sent_ok r \<longleftrightarrow>
     (\<forall>m \<in> set (rc_sent r). negotiated r m)
   \<and> (\<forall>m. rc_phase r = SendingOut m \<longrightarrow> negotiated r m)
   \<and> (\<forall>m. rc_phase r = Answering m \<longrightarrow> sg_neg_id m \<noteq> [] \<and> sg_neg_id m \<in> set (ids (rc_taken r)))"

section \<open>Peer connections\<close>

text \<open>
  Peer connections are made one at a time, the first at the start and each other one for a
  notification of the debouncer that was read; all but the current one are closed.
\<close>

definition peers_ok :: "rtc \<Rightarrow> bool" where
  "peers_ok r \<longleftrightarrow>
     rc_next_peer r + (if rc_restart r then 1 else 0) \<le> rc_seen r + 1
   \<and> (rc_phase r \<noteq> LoopHead \<longrightarrow> \<not> rc_restart r)
   \<and> (\<forall>p < rc_next_peer r. p \<in> rc_closed_peers r \<or> rc_peer r = Some p)
   \<and> (\<forall>p \<in> rc_closed_peers r. p < rc_next_peer r \<and> rc_peer r \<noteq> Some p)
   \<and> (\<forall>p. rc_peer r = Some p \<longrightarrow> p + 1 = rc_next_peer r)"

definition notices_ok :: "rtc \<Rightarrow> bool" where
  "notices_ok r \<longleftrightarrow> rc_seen r \<le> length (db_notified (rc_debouncer r)) \<and> deb_ok (rc_debouncer r)"

definition queues_ok :: "rtc \<Rightarrow> bool" where
  "queues_ok r \<longleftrightarrow> length (rc_offers r) \<le> signal_capacity \<and> length (rc_signals r) \<le> signal_capacity"

definition rest_ok :: "rtc \<Rightarrow> bool" where
  "rest_ok r \<longleftrightarrow> answers_ok r \<and> offer_ok r \<and> sent_ok r \<and> peers_ok r \<and> notices_ok r \<and> queues_ok r"

definition rtc_ok :: "rtc \<Rightarrow> bool" where
  "rtc_ok r \<longleftrightarrow> channels_ok r \<and> rest_ok r"

lemmas rest_defs = answers_ok_def offer_ok_def sent_ok_def peers_ok_def notices_ok_def queues_ok_def
  answered_def pending_def negotiated_def ids_def

lemma rest_ok_frame [simp]:
  "rest_ok (r\<lparr>rc_store := st\<rparr>) = rest_ok r"
  "rest_ok (r\<lparr>rc_map := m\<rparr>) = rest_ok r"
  "rest_ok (r\<lparr>rc_cancelled_controls := c\<rparr>) = rest_ok r"
  "rest_ok (r\<lparr>rc_next_control := n\<rparr>) = rest_ok r"
  "rest_ok (r\<lparr>rc_claims := cs\<rparr>) = rest_ok r"
  "rest_ok (r\<lparr>rc_handler_gone := b\<rparr>) = rest_ok r"
  "rest_ok (r\<lparr>rc_cancelled := b\<rparr>) = rest_ok r"
  "rest_ok (r\<lparr>rc_connected := ps\<rparr>) = rest_ok r"
  "rest_ok (r\<lparr>rc_gathered := gs\<rparr>) = rest_ok r"
  by (simp_all add: rest_ok_def rest_defs)

lemma drop_channel_rest: "rest_ok r \<Longrightarrow> rest_ok (drop_channel k r)"
  by (simp add: drop_channel_def Let_def rest_ok_def rest_defs)

lemma on_data_channel_rest: "rest_ok r \<Longrightarrow> rest_ok (on_data_channel p label r)"
  by (auto simp: on_data_channel_def Let_def rest_ok_def rest_defs drop_channel_eq
      split: option.splits)

lemma claim_own_rest: "rest_ok (snd (claim_own k r)) = rest_ok r"
  by (simp add: claim_own_def Let_def rest_ok_def rest_defs split: option.splits)

text \<open>Closing the channels leaves everything but the channels alone.\<close>

lemma close_data_channels_eq:
  "\<exists>st c. close_data_channels r = r\<lparr>rc_store := st, rc_cancelled_controls := c, rc_map := (\<lambda>_. None)\<rparr>"
proof -
  have "\<exists>st c. foldr drop_channel ks r = r\<lparr>rc_store := st, rc_cancelled_controls := c\<rparr>" for ks
  proof (induction ks)
    case Nil
    have "r = r\<lparr>rc_store := rc_store r, rc_cancelled_controls := rc_cancelled_controls r\<rparr>" by simp
    then show ?case by (metis foldr_Nil id_apply)
  next
    case (Cons k ks)
    then obtain st c where "foldr drop_channel ks r = r\<lparr>rc_store := st, rc_cancelled_controls := c\<rparr>"
      by blast
    then have "foldr drop_channel (k # ks) r = drop_channel k (r\<lparr>rc_store := st, rc_cancelled_controls := c\<rparr>)"
      by simp
    moreover obtain st' c' where "drop_channel k (r\<lparr>rc_store := st, rc_cancelled_controls := c\<rparr>)
        = r\<lparr>rc_store := st, rc_cancelled_controls := c\<rparr>\<lparr>rc_store := st', rc_cancelled_controls := c'\<rparr>"
      unfolding drop_channel_eq by blast
    ultimately have "foldr drop_channel (k # ks) r = r\<lparr>rc_store := st', rc_cancelled_controls := c'\<rparr>"
      by simp
    then show ?case by blast
  qed
  then obtain st c where
    "foldr drop_channel (filter (in_table r) [0..<length (rc_store r)]) r
     = r\<lparr>rc_store := st, rc_cancelled_controls := c\<rparr>" by blast
  then have "close_data_channels r = r\<lparr>rc_store := st, rc_cancelled_controls := c, rc_map := (\<lambda>_. None)\<rparr>"
    unfolding close_data_channels_def by simp
  then show ?thesis by blast
qed

lemma rtc_ok_new: "rtc_ok (new_rtc now)"
proof -
  have "live_at (new_rtc now) = (\<lambda>_. None)" "owner_at (new_rtc now) = (\<lambda>_. None)"
    by (simp_all add: live_at_def owner_at_def new_rtc_def fun_eq_iff)
  then have "channels_ok (new_rtc now)"
    by (simp add: channels_ok_def table_of_def handed_out_def new_rtc_def)
  moreover have "rest_ok (new_rtc now)"
    using deb_ok_new
    by (simp add: rest_ok_def rest_defs new_rtc_def)
  ultimately show ?thesis by (simp add: rtc_ok_def)
qed

section \<open>The steps\<close>

lemma deb_step_grows: "length (db_notified d) \<le> length (db_notified (deb_step d ev))"
proof -
  have push: "db_notified (deb_push e d) = db_notified d" for e d by (simp add: deb_push_def)
  have poll: "length (db_notified d) \<le> length (db_notified (deb_poll d))" for d
    by (cases d rule: deb_poll_cases) simp_all
  show ?thesis
    using poll [of "wait_ns (fst ev) d"]
    by (cases "snd ev") (simp_all add: deb_step_def push, simp_all add: wait_ns_def)
qed

lemma on_debouncer_rest: "rest_ok r \<Longrightarrow> rest_ok (on_debouncer ev r)"
  using deb_step_grows [of "rc_debouncer r" ev] debouncer.step_inv [of "rc_debouncer r" ev]
  by (simp add: rest_ok_def on_debouncer_def rest_defs)

lemma on_state_change_rest: "rest_ok r \<Longrightarrow> rest_ok (on_state_change p st r)"
  by (cases st) (simp_all add: on_state_change_def on_debouncer_rest)

lemma push_signal_length: "length q \<le> signal_capacity \<Longrightarrow> length (push_signal m q) \<le> signal_capacity"
  by (simp add: push_signal_def)

lemma on_signal_rest: "rest_ok r \<Longrightarrow> rest_ok (on_signal m r)"
  by (simp add: rest_ok_def on_signal_def Let_def rest_defs push_signal_length)

lemma on_ice_candidate_rest:
  "rest_ok r \<Longrightarrow> length (rc_signals r) < signal_capacity \<Longrightarrow> rest_ok (on_ice_candidate p sdp r)"
  by (simp add: rest_ok_def on_ice_candidate_def rest_defs)

text \<open>An answer that is given up leaves fewer answers to come.\<close>

lemma answers_ok_less:
  assumes "answers_ok r" and "answered r' = answered r" and "rc_taken r' = rc_taken r"
    and "subseq (pending r') (pending r)"
  shows "answers_ok r'"
proof -
  have "subseq (answered r @ pending r') (answered r @ pending r)"
    by (rule list_emb_append_mono) (use assms(4) in simp_all)
  then show ?thesis using assms(1-3) unfolding answers_ok_def by (metis subseq_order.trans)
qed

lemma phase_left:
  assumes "rest_ok r" and "ph = LoopHead \<or> ph = Selecting \<or> ph = RunOver" and "\<not> rc_restart r"
  shows "rest_ok (r\<lparr>rc_phase := ph\<rparr>)"
proof -
  have "answers_ok (r\<lparr>rc_phase := ph\<rparr>)"
    by (rule answers_ok_less [of r])
      (use assms in \<open>auto simp: rest_ok_def answered_def pending_def ids_def split: rtc_phase.splits option.splits\<close>)
  then show ?thesis using assms by (auto simp: rest_ok_def rest_defs)
qed

lemma not_restarting: "rest_ok r \<Longrightarrow> rc_phase r \<noteq> LoopHead \<Longrightarrow> \<not> rc_restart r"
  by (simp add: rest_ok_def peers_ok_def)

lemma loop_head_rest:
  assumes "rest_ok r" and "rc_phase r = LoopHead"
  shows "rest_ok (loop_head r)"
proof -
  obtain st c where
    close: "close_data_channels r = r\<lparr>rc_store := st, rc_cancelled_controls := c, rc_map := (\<lambda>_. None)\<rparr>"
    using close_data_channels_eq by blast
  have answers: "answers_ok (loop_head r)"
    by (rule answers_ok_less [of r])
      (use assms in \<open>auto simp: loop_head_def Let_def close rest_ok_def answered_def pending_def ids_def
         split: option.splits\<close>)
  have peers: "peers_ok (loop_head r)"
    using assms by (auto simp: loop_head_def Let_def close rest_ok_def peers_ok_def less_Suc_eq
        split: option.splits)
  have "offer_ok (loop_head r) \<and> sent_ok (loop_head r) \<and> notices_ok (loop_head r) \<and> queues_ok (loop_head r)"
    using assms by (auto simp: loop_head_def Let_def close rest_ok_def rest_defs split: option.splits)
  then show ?thesis using answers peers by (simp add: rest_ok_def)
qed

lemma on_debounce_rest:
  assumes "rest_ok r" and "rc_phase r = Selecting" and "rc_seen r < length (db_notified (rc_debouncer r))"
  shows "rest_ok (on_debounce r)"
proof -
  have "answers_ok (on_debounce r)"
    by (rule answers_ok_less [of r])
      (use assms in \<open>auto simp: on_debounce_def Let_def rest_ok_def answered_def pending_def\<close>)
  then show ?thesis
    using assms not_restarting [OF assms(1)]
    by (auto simp: rest_ok_def on_debounce_def Let_def offer_ok_def sent_ok_def peers_ok_def
        notices_ok_def queues_ok_def negotiated_def)
qed

lemma on_offer_rest:
  assumes "rest_ok r" and "rc_phase r = Selecting" and "rc_offers r = m # ms"
  shows "rest_ok (on_offer m (r\<lparr>rc_offers := ms\<rparr>))"
proof -
  have "subseq (answered r) (answered r @ pending r)" by (rule prefix_imp_subseq) simp
  then have "subseq (answered r) (ids (rc_taken r))"
    using assms(1) unfolding rest_ok_def answers_ok_def by (metis subseq_order.trans)
  then have "subseq (answered r @ [sg_neg_id m]) (ids (rc_taken r) @ [sg_neg_id m])"
    by (rule list_emb_append_mono) simp
  then have "answers_ok (on_offer m (r\<lparr>rc_offers := ms\<rparr>))"
    by (simp add: answers_ok_def on_offer_def answered_def pending_def ids_def)
  then show ?thesis
    using assms not_restarting [OF assms(1)]
    by (auto simp: rest_ok_def on_offer_def offer_ok_def sent_ok_def peers_ok_def notices_ok_def
        queues_ok_def negotiated_def ids_def)
qed

lemma answer_begun_rest:
  assumes "rest_ok r" and "rc_phase r = Selecting" and "negotiating r" and "rc_current_offer r = Some m"
  shows "rest_ok (r\<lparr>rc_current_offer := None, rc_phase := Answering m\<rparr>)"
  using assms by (auto simp: rest_ok_def rest_defs negotiating_def)

lemma answer_made_rest:
  "rest_ok r \<Longrightarrow> rc_phase r = Answering m \<Longrightarrow> rest_ok (r\<lparr>rc_phase := SendingOut (answer_to m sdp)\<rparr>)"
  by (auto simp: rest_ok_def rest_defs answer_to_def)

lemma sent_rest:
  "rest_ok r \<Longrightarrow> rc_phase r = SendingOut m \<Longrightarrow>
   rest_ok (r\<lparr>rc_phase := LoopHead, rc_sent := rc_sent r @ [m]\<rparr>)"
  by (auto simp: rest_ok_def rest_defs)

lemma on_signal_msg_rest:
  assumes "rest_ok r" and "rc_phase r = Selecting" and "negotiating r" and "rc_signals r = m # ms"
  shows "rest_ok (on_signal_msg added m (r\<lparr>rc_signals := ms\<rparr>))"
proof -
  obtain i where i: "rc_negotiation r = Some i" "i \<noteq> []"
    using assms(3) by (auto simp: negotiating_def split: option.splits)
  let ?r = "r\<lparr>rc_signals := ms\<rparr>"
  have base: "rest_ok ?r" using assms(1,4) by (simp add: rest_ok_def rest_defs)
  have known: "i \<in> set (ids (rc_taken r))" using assms(1) i by (simp add: rest_ok_def offer_ok_def)
  have again: "rest_ok (?r\<lparr>rc_phase := LoopHead\<rparr>)"
    by (rule phase_left) (use base not_restarting [OF base] assms(2) in simp_all)
  have applied: "rest_ok (q\<lparr>rc_applied := a\<rparr>) = rest_ok q" for q a
    by (simp add: rest_ok_def rest_defs)
  show ?thesis
  proof (cases "sg_kind m = LocalCandidate")
    case True
    let ?m = "m\<lparr>sg_kind := IceCandidate, sg_neg_id := i\<rparr>"
    have "answers_ok (?r\<lparr>rc_phase := SendingOut ?m\<rparr>)"
      by (rule answers_ok_less [of r])
        (use assms(1,2) in \<open>simp_all add: rest_ok_def answered_def pending_def\<close>)
    then have "rest_ok (?r\<lparr>rc_phase := SendingOut ?m\<rparr>)"
      using base not_restarting [OF base] assms(2) i known
      by (simp add: rest_ok_def offer_ok_def sent_ok_def peers_ok_def notices_ok_def queues_ok_def
          negotiated_def)
    then show ?thesis using True i by (simp add: on_signal_msg_def)
  next
    case False
    then show ?thesis
      using again applied [where q = "?r\<lparr>rc_phase := LoopHead\<rparr>"] i
      by (simp add: on_signal_msg_def split: option.split)
  qed
qed

lemma rest_step: "rtc_step r r' \<Longrightarrow> rest_ok r \<Longrightarrow> rest_ok r'"
  by (induction rule: rtc_step.induct)
    (simp_all add: on_signal_rest on_state_change_rest on_data_channel_rest on_ice_candidate_rest
      on_debouncer_rest claim_own_rest loop_head_rest phase_left not_restarting on_debounce_rest
      on_offer_rest answer_begun_rest answer_made_rest sent_rest on_signal_msg_rest)

lemma channels_ok_update:
  "channels_ok r \<Longrightarrow> channels_ok (on_signal m r)"
  "channels_ok r \<Longrightarrow> channels_ok (on_state_change p st r)"
  "channels_ok r \<Longrightarrow> channels_ok (on_ice_candidate p sdp r)"
  "channels_ok r \<Longrightarrow> channels_ok (on_debouncer ev r)"
  "channels_ok r \<Longrightarrow> channels_ok (on_debounce r)"
  "channels_ok r \<Longrightarrow> channels_ok (on_offer m r)"
  "channels_ok r \<Longrightarrow> channels_ok (on_signal_msg added m r)"
proof -
  assume ok: "channels_ok r"
  note frame = channels_ok_frame [OF _ _ _ _ _ ok]
  show "channels_ok (on_signal m r)" by (rule frame) (simp_all add: on_signal_def Let_def)
  show "channels_ok (on_state_change p st r)"
    by (rule frame; cases st) (simp_all add: on_state_change_def on_debouncer_def)
  show "channels_ok (on_ice_candidate p sdp r)" by (rule frame) (simp_all add: on_ice_candidate_def)
  show "channels_ok (on_debouncer ev r)" by (rule frame) (simp_all add: on_debouncer_def)
  show "channels_ok (on_debounce r)" by (rule frame) (simp_all add: on_debounce_def Let_def)
  show "channels_ok (on_offer m r)" by (rule frame) (simp_all add: on_offer_def)
  show "channels_ok (on_signal_msg added m r)"
    by (rule frame) (simp_all add: on_signal_msg_def split: option.split)
qed

lemma channels_ok_head:
  assumes "channels_ok r"
  shows "channels_ok (loop_head r)"
proof (cases "rc_restart r \<and> rc_peer r \<noteq> None")
  case True
  then obtain p where "rc_restart r" "rc_peer r = Some p" by blast
  then show ?thesis
    by (intro channels_ok_frame [OF _ _ _ _ _ channels_ok_close [OF assms]])
      (simp_all add: loop_head_def Let_def)
next
  case False
  then show ?thesis
    by (intro channels_ok_frame [OF _ _ _ _ _ assms]) (auto simp: loop_head_def Let_def)
qed

lemma channels_step: "rtc_step r r' \<Longrightarrow> channels_ok r \<Longrightarrow> channels_ok r'"
proof (induction rule: rtc_step.induct)
  case (claim_found r k)
  then show ?case
    using mapped_in_store [OF claim_found.prems] views_frame [of "r\<lparr>rc_claims := k # rc_claims r\<rparr>" r]
    by (simp add: channels_ok_def claim_lookup_def)
next
  case (claim_settled k r)
  have own: "channels_ok (snd (claim_own k r))"
    by (rule channels_ok_claim) (use claim_settled in \<open>simp_all add: channels_ok_def\<close>)
  have claims: "rc_claims (snd (claim_own k r)) = rc_claims r"
    by (simp add: claim_own_def Let_def split: option.split)
  show ?case
    by (rule channels_ok_frame [OF _ _ _ _ _ own]) (simp_all add: claims set_remove1_subset)
next
  case (channel_opens p r label)
  then show ?case by (simp add: channels_ok_opens)
next
  case (head r)
  then show ?case by (simp add: channels_ok_head)
next
  case (offer_taken r m ms)
  then show ?case by (intro channels_ok_update(6)) (rule channels_ok_frame [of _ r], simp_all)
next
  case (signal_taken r m ms added)
  then show ?case by (intro channels_ok_update(7)) (rule channels_ok_frame [of _ r], simp_all)
qed (simp_all add: channels_ok_update, (rule channels_ok_frame; simp; fail)+)

interpretation rtc: transition_system rtc_step rtc_ok
  by unfold_locales (auto simp: rtc_ok_def rest_step channels_step)

lemma rtc_reached: "rtc_step\<^sup>*\<^sup>* (new_rtc now) r \<Longrightarrow> rtc_ok r"
  by (rule rtc.reached_inv [OF _ rtc_ok_new])

end
