(* ===== verification/Node_Properties.thy ===== *)
theory Node_Properties
  imports Ws_Node Rtc_Safety
begin

text \<open>
  The properties of the reconnecting node, the debouncer and the connector, each over every run
  of their steps from the initial state.
\<close>

section \<open>The reconnecting node\<close>

lemma node_reached: "node_step\<^sup>*\<^sup>* new_node n \<Longrightarrow> node_ok n"
  by (rule ws_node.reached_inv [OF _ node_ok_new])

text \<open>What \<open>send\<close> accepts is written in that order over all connections of the node; a
  connection loses at most the one message it breaks on, and at most 64 wait.\<close>

theorem node_writes_in_order:
  assumes "node_step\<^sup>*\<^sup>* new_node n"
  shows "nd_accepted n = map fst (nd_log n) @ in_hand n @ nd_queue n
       \<and> subseq (written n) (nd_accepted n)
       \<and> length (nd_log n) \<le> length (written n) + nd_connections n
       \<and> length (nd_queue n) \<le> 64"
proof -
  have ok: "fifo_ok n" "losses_ok n" using node_reached [OF assms] by (simp_all add: node_ok_def)
  have "subseq (written n) (map fst (nd_log n))"
    unfolding written_def by (rule subseq_map) (rule subseq_filter_left)
  then have "subseq (written n @ []) (map fst (nd_log n) @ in_hand n @ nd_queue n)"
    by (rule list_emb_append_mono) simp
  moreover have "length (nd_log n) = length (written n) + lost n"
    unfolding written_def lost_def by (simp add: sum_length_filter_compl)
  ultimately show ?thesis
    using ok by (simp add: fifo_ok_def losses_ok_def queue_capacity_def split: if_splits)
qed


lemma node_trace:
  assumes "node_step\<^sup>*\<^sup>* n0 n" and "node_step n n'"
  shows "node_step\<^sup>*\<^sup>* n0 n'"
  using assms by (rule rtranclp.rtrancl_into_rtrancl)

text \<open>A node that connected once, lost the connection and dials again.\<close>

definition dialing_again :: "'t node" where
  "dialing_again = new_node\<lparr>nd_connected := True, nd_local_stopped := True, nd_connections := 1\<rparr>"

lemma dialing_again_reached: "node_step\<^sup>*\<^sup>* new_node dialing_again"
proof -
  let ?n1 = "new_node\<lparr>nd_phase := Serving, nd_connected := True, nd_local_stopped := False,
      nd_sender := SendIdle, nd_receiver := RecvOpen, nd_connections := 1\<rparr>"
  let ?n2 = "?n1\<lparr>nd_receiver := RecvOver\<rparr>"
  let ?n3 = "?n2\<lparr>nd_phase := SenderLeft, nd_local_stopped := True\<rparr>"
  let ?n4 = "?n3\<lparr>nd_sender := SendOver\<rparr>"
  have "node_step new_node ?n1" using connected [of new_node] by (simp add: new_node_def)
  moreover have "node_step ?n1 ?n2" by (rule receive_ended) simp
  moreover have "node_step ?n2 ?n3" by (rule receiver_first) simp_all
  moreover have "node_step ?n3 ?n4" by (rule sender_cancelled) (simp_all add: task_cancelled_def)
  moreover have "node_step ?n4 dialing_again"
    using sender_joined [of ?n4] by (simp add: next_round_def dialing_again_def new_node_def)
  ultimately show ?thesis by (meson rtranclp.rtrancl_refl node_trace)
qed

text \<open>C27: \<^verbatim>\<open>is_connected\<close> is not reset while the node reconnects: after the first connection and
  until the end \<open>send\<close> accepts messages, whether or not there is a connection, while there is
  room in the queue and its receiving half is alive.\<close>

theorem send_does_not_wait_for_a_connection:
  assumes "node_step\<^sup>*\<^sup>* new_node n" and "length (nd_queue n) < 64"
    and "nd_sender n \<noteq> SendPanicked"
  shows "fst (node_send m n) =
     Some (if 0 < nd_connections n \<and> nd_phase n \<noteq> Ended then Inr () else Inl ''not connected'')"
proof -
  have "nd_connected n \<longleftrightarrow> 0 < nd_connections n \<and> nd_phase n \<noteq> Ended"
    using node_reached [OF assms(1)] by (simp add: node_ok_def flags_ok_def)
  then show ?thesis
    using assms(2,3)
    by (cases "nd_sender n") (auto simp: node_send_def queue_open_def queue_capacity_def)
qed

theorem send_does_not_wait_for_a_connection_witness:
  "fst (node_send (1::nat) dialing_again) = Some (Inr ())"
  using send_does_not_wait_for_a_connection [OF dialing_again_reached, of "1::nat"]
  by (simp add: dialing_again_def new_node_def)


theorem node_writes_in_order_witness:
  "nd_accepted (dialing_again :: nat node) = []"
  using node_writes_in_order [OF dialing_again_reached]
  by (simp add: dialing_again_def new_node_def in_hand_def)



lemma ended_step:
  "node_step n n' \<Longrightarrow> nd_phase n = Ended \<Longrightarrow> tasks_ok n \<Longrightarrow>
   nd_phase n' = Ended \<and> nd_handled n' = nd_handled n \<and> nd_connections n' = nd_connections n"
  by (induction rule: node_step.induct) (auto simp: tasks_ok_def node_defs)

text \<open>The end of the run loop is final: nothing is handled and no connection is opened
  afterwards, and every \<open>send\<close> is refused. A panic of the handler ends it this way.\<close>

theorem ended_is_final:
  assumes "node_step\<^sup>*\<^sup>* new_node n" and "nd_phase n = Ended" and "node_step\<^sup>*\<^sup>* n n'"
  shows "nd_phase n' = Ended \<and> nd_handled n' = nd_handled n \<and> nd_connections n' = nd_connections n
       \<and> node_send m n' = (Some (Inl ''not connected''), n')"
proof -
  have "node_ok n' \<and> nd_phase n' = Ended \<and> nd_handled n' = nd_handled n
      \<and> nd_connections n' = nd_connections n"
    using assms(3)
  proof (induction rule: rtranclp_induct)
    case base
    then show ?case using node_reached [OF assms(1)] assms(2) by simp
  next
    case (step y z)
    then show ?case using ended_step [of y z] ws_node.keeps [of y z] by (simp add: node_ok_def)
  qed
  then show ?thesis by (simp add: node_ok_def flags_ok_def node_send_def)
qed

text \<open>After a panic of the handler the sender task lives on and takes what was queued.\<close>

definition after_panic :: "'t node" where
  "after_panic = finish (new_node\<lparr>nd_sender := SendIdle, nd_receiver := RecvPanicked, nd_connections := 1\<rparr>)"

lemma after_panic_reached: "node_step\<^sup>*\<^sup>* new_node after_panic"
proof -
  let ?n1 = "new_node\<lparr>nd_phase := Serving, nd_connected := True, nd_local_stopped := False,
      nd_sender := SendIdle, nd_receiver := RecvOpen, nd_connections := 1\<rparr>"
  let ?n2 = "?n1\<lparr>nd_receiver := RecvPanicked\<rparr>"
  have "node_step new_node ?n1" using connected [of new_node] by (simp add: new_node_def)
  moreover have "node_step ?n1 ?n2" by (rule handler_panicked) simp
  moreover have "node_step ?n2 after_panic"
    using receiver_lost [of ?n2] by (simp add: after_panic_def finish_def new_node_def)
  ultimately show ?thesis by (meson rtranclp.rtrancl_refl node_trace)
qed

theorem ended_is_final_witness:
  "sender_alive (after_panic :: nat node)
   \<and> node_send (1::nat) after_panic = (Some (Inl ''not connected''), after_panic)"
  using ended_is_final [OF after_panic_reached _ rtranclp.rtrancl_refl, of "1::nat"]
  by (simp add: after_panic_def finish_def new_node_def sender_alive_def)

end
