(* ===== verification/Rtc_Properties.thy ===== *)
theory Rtc_Properties
  imports Rtc_Safety
begin

text \<open>
  The properties of the debouncer and of the WebRTC connector, each over every run of their steps
  from the initial state, with the runs that show the two places where a comment promises more.
\<close>

section \<open>The debouncer\<close>

text \<open>C27: Every notification answers a start after which no event was taken for sixty seconds;
  notifications are at least sixty seconds apart and no more than the starts that were taken.\<close>

theorem notices_answer_quiet_starts:
  "let d = deb_run (new_debouncer now) evs in
     list_all (answers_quiet_start (db_taken d)) (db_notified d)
   \<and> sorted_wrt (\<lambda>a b. a + DEBOUNCE_TIMEOUT \<le> b) (db_notified d)
   \<and> length (db_notified d) \<le> starts d"
  using deb_run_ok [of now evs]
  by (simp add: Let_def deb_ok_def notified_ok_def count_ok_def list_all_iff split: if_splits)

lemma minute_later:
  assumes "waiting d" and "DEBOUNCE_TIMEOUT \<le> t"
  shows "db_notified (deb_step d (t, Polled)) = db_notified d @ [db_now d + t]"
proof -
  have "waiting (wait_ns t d)" using assms(1) by (simp add: waiting_def wait_ns_def)
  then show ?thesis
    using assms by (simp add: deb_step_def waiting_poll) (simp add: wait_ns_def waiting_def)
qed

text \<open>Starts that keep coming, each before the last has been quiet for a minute or after,
  postpone the notification for as long as they do; the first quiet minute brings it.\<close>

theorem restarts_postpone_the_notice:
  assumes "waiting d" and "DEBOUNCE_TIMEOUT \<le> t"
  shows "let d' = deb_run d (concat (map (\<lambda>dt. [(dt, StartCalled), (0, Polled)]) dts)) in
     db_notified d' = db_notified d
   \<and> db_notified (deb_step d' (t, Polled)) = db_notified d @ [db_now d' + t]"
  using restarts_postpone [OF assms(1), of dts] minute_later [OF _ assms(2)]
  by (simp add: Let_def)

definition started_debouncer :: debouncer where
  "started_debouncer = deb_run (new_debouncer 0) [(0, StartCalled), (0, Polled)]"

lemma started_debouncer_waits: "waiting started_debouncer"
  by (simp add: started_debouncer_def deb_step_def wait_ns_def deb_push_def deb_poll_def
      new_debouncer_def waiting_def)

theorem restarts_postpone_the_notice_witness:
  "let d' = deb_run started_debouncer
       (concat (map (\<lambda>dt. [(dt, StartCalled), (0, Polled)]) [50 * 10 ^ 9, 59 * 10 ^ 9])) in
     db_notified (deb_step d' (60 * 10 ^ 9, Polled)) = db_notified started_debouncer @ [db_now d' + 60 * 10 ^ 9]"
  using restarts_postpone_the_notice [OF started_debouncer_waits, of "60 * 10 ^ 9"
      "[50 * 10 ^ 9, 59 * 10 ^ 9]"]
  by (simp only: DEBOUNCE_TIMEOUT_def Let_def order_refl simp_thms)

section \<open>Negotiations\<close>

text \<open>C19: The negotiations that are answered, are being answered or wait for their answer are a
  subsequence of the offers that were taken; whatever is sent is an answer or a candidate of a
  negotiation that was offered.\<close>

theorem answers_follow_offers:
  assumes "rtc_step\<^sup>*\<^sup>* (new_rtc now) r"
  shows "subseq (answered r @ pending r) (ids (rc_taken r))
       \<and> list_all (negotiated r) (rc_sent r)"
  using rtc_reached [OF assms]
  by (simp add: rtc_ok_def rest_ok_def answers_ok_def sent_ok_def list_all_iff)

text \<open>C26: Peer connections are replaced one at a time, never more often than the debouncer took a
  start; every one but the current is closed.\<close>

theorem peers_are_replaced_one_by_one:
  assumes "rtc_step\<^sup>*\<^sup>* (new_rtc now) r"
  shows "rc_next_peer r \<le> 1 + starts (rc_debouncer r)
       \<and> {..<rc_next_peer r} = rc_closed_peers r \<union> set_option (rc_peer r)
       \<and> rc_closed_peers r \<inter> set_option (rc_peer r) = {}"
proof -
  have ok: "peers_ok r" "notices_ok r"
    using rtc_reached [OF assms] by (simp_all add: rtc_ok_def rest_ok_def)
  have "length (db_notified (rc_debouncer r)) \<le> starts (rc_debouncer r)"
    using ok(2) by (simp add: notices_ok_def deb_ok_def count_ok_def split: if_splits)
  moreover have "rc_next_peer r \<le> rc_seen r + 1" using ok(1) by (simp add: peers_ok_def split: if_splits)
  moreover have "rc_seen r \<le> length (db_notified (rc_debouncer r))"
    using ok(2) by (simp add: notices_ok_def)
  moreover have "{..<rc_next_peer r} = rc_closed_peers r \<union> set_option (rc_peer r)"
    using ok(1) by (auto simp: peers_ok_def)
  moreover have "rc_closed_peers r \<inter> set_option (rc_peer r) = {}"
    using ok(1) by (auto simp: peers_ok_def)
  ultimately show ?thesis by simp
qed

section \<open>Data channels\<close>

text \<open>C18: The table holds exactly the channels the connector has not closed, one for each label;
  every control that was handed out is cancelled or belongs to one channel.\<close>

theorem one_live_channel_per_label:
  assumes "rtc_step\<^sup>*\<^sup>* (new_rtc now) r"
  shows "table_of (rc_map r) (live_at r)
       \<and> handed_out (rc_next_control r) (rc_cancelled_controls r) (owner_at r)"
  using rtc_reached [OF assms] by (simp add: rtc_ok_def channels_ok_def)

text \<open>A channel that was closed before its claim settled keeps its owner.\<close>

definition orphan :: "nat \<Rightarrow> nat \<Rightarrow> rtc \<Rightarrow> bool" where
  "orphan k t r \<longleftrightarrow>
     k < length (rc_store r) \<and> ch_closed (rc_store r ! k) \<and> ch_owner (rc_store r ! k) = Some t"

lemma orphan_frame: "rc_store r' = rc_store r \<Longrightarrow> orphan k t r' = orphan k t r"
  by (simp add: orphan_def)

lemma orphan_drop: "orphan k t r \<Longrightarrow> i \<noteq> k \<Longrightarrow> orphan k t (drop_channel i r)"
  by (simp add: orphan_def drop_channel_eq)

lemma orphan_foldr: "orphan k t r \<Longrightarrow> k \<notin> set ks \<Longrightarrow> orphan k t (foldr drop_channel ks r)"
  by (induction ks) (auto intro: orphan_drop)

lemma orphan_unmapped:
  assumes "orphan k t r" and "channels_ok r"
  shows "rc_map r label \<noteq> Some k"
proof
  assume "rc_map r label = Some k"
  then have "live_at r k = Some label" using assms(2) by (simp add: channels_ok_def table_of_def)
  then show False using assms(1) by (simp add: orphan_def live_at_def)
qed

lemma orphan_close:
  assumes "orphan k t r" and "channels_ok r"
  shows "orphan k t (close_data_channels r)"
proof -
  have "\<not> in_table r k" using orphan_unmapped [OF assms] by (simp add: in_table_def)
  then have "orphan k t (foldr drop_channel (filter (in_table r) [0..<length (rc_store r)]) r)"
    by (intro orphan_foldr [OF assms(1)]) simp
  then show ?thesis by (simp add: close_data_channels_def orphan_def)
qed

lemma orphan_head: "orphan k t r \<Longrightarrow> channels_ok r \<Longrightarrow> orphan k t (loop_head r)"
  using orphan_close [of k t r] by (simp add: loop_head_def Let_def orphan_def split: option.split)

lemma orphan_opens:
  assumes "orphan k t r" and "channels_ok r"
  shows "orphan k t (on_data_channel p label r)"
proof -
  have w: "orphan k t (with_channel p label r)"
    using assms(1) by (simp add: orphan_def with_channel_def nth_append)
  show ?thesis
  proof (cases "rc_map r label")
    case None
    then show ?thesis using w by (simp add: on_data_channel_eq)
  next
    case (Some old)
    then have "old \<noteq> k" using orphan_unmapped [OF assms, of label] by auto
    then show ?thesis using orphan_drop [OF w] Some by (simp add: on_data_channel_eq)
  qed
qed

lemma orphan_claim: "orphan k t r \<Longrightarrow> orphan k t (snd (claim_own i r))"
  by (cases "i = k") (auto simp: orphan_def claim_own_def Let_def split: option.split)

lemma orphan_step: "rtc_step r r' \<Longrightarrow> channels_ok r \<Longrightarrow> orphan k t r \<Longrightarrow> orphan k t r'"
proof (induction rule: rtc_step.induct)
  case (head r)
  then show ?case by (simp add: orphan_head)
next
  case (channel_opens p r label)
  then show ?case by (simp add: orphan_opens)
next
  case (claim_settled i r)
  then show ?case using orphan_claim [of k t r i] by (simp add: orphan_def)
next
  case (state_changes p r st)
  then show ?case by (cases st) (simp_all add: on_state_change_def on_debouncer_def orphan_def)
next
  case (signal_taken r m ms added)
  then show ?case by (simp add: on_signal_msg_def orphan_def split: option.split)
qed (simp_all add: orphan_def on_signal_def Let_def on_ice_candidate_def on_debouncer_def
    on_debounce_def on_offer_def)

text \<open>A claim that settles after its channel was closed makes an owner that nothing will ever
  cancel: in every later state the channel still has it and it is not cancelled.\<close>

theorem owner_of_a_closed_channel_is_kept:
  assumes "rtc_step\<^sup>*\<^sup>* (new_rtc now) r" and "orphan k t r" and "rtc_step\<^sup>*\<^sup>* r r'"
  shows "orphan k t r' \<and> t \<notin> rc_cancelled_controls r'"
proof -
  have "rtc_ok r' \<and> orphan k t r'"
    using assms(3)
  proof (induction rule: rtranclp_induct)
    case base
    then show ?case using rtc_reached [OF assms(1)] assms(2) by simp
  next
    case (step y z)
    then show ?case using orphan_step [of y z] rtc.keeps [of y z] by (simp add: rtc_ok_def)
  qed
  moreover from this have "t \<in> ran (owner_at r')" by (auto simp: orphan_def owner_at_def intro: ranI)
  ultimately show ?thesis by (auto simp: rtc_ok_def channels_ok_def handed_out_def)
qed

section \<open>Runs\<close>

text \<open>A schedule names the step that is taken; one whose condition does not hold stops the run.\<close>

datatype rtc_act = DoSignal SignalMsg | DoState nat peer_state | DoOpen nat string
  | DoCandidate nat string | DoPoll nat | DoFind | DoSettle nat | DoHead | DoDebounce | DoOffer
  | DoBegin | DoAnswer string | DoTake bool | DoSend

fun rtc_do :: "rtc_act \<Rightarrow> rtc \<Rightarrow> rtc option" where
  "rtc_do (DoSignal m) r = (if rc_handler_gone r then None else Some (on_signal m r))"
| "rtc_do (DoState p st) r = (if p < rc_next_peer r then Some (on_state_change p st r) else None)"
| "rtc_do (DoOpen p l) r = (if p < rc_next_peer r then Some (on_data_channel p l r) else None)"
| "rtc_do (DoCandidate p sdp) r =
     (if p < rc_next_peer r \<and> length (rc_signals r) < signal_capacity
      then Some (on_ice_candidate p sdp r) else None)"
| "rtc_do (DoPoll dt) r = Some (on_debouncer (dt, Polled) r)"
| "rtc_do DoFind r =
     (case claim_lookup r of Some k \<Rightarrow> Some (r\<lparr>rc_claims := k # rc_claims r\<rparr>) | None \<Rightarrow> None)"
| "rtc_do (DoSettle k) r =
     (if k \<in> set (rc_claims r)
      then Some ((snd (claim_own k r))\<lparr>rc_claims := remove1 k (rc_claims r)\<rparr>) else None)"
| "rtc_do DoHead r = (case rc_phase r of LoopHead \<Rightarrow> Some (loop_head r) | _ \<Rightarrow> None)"
| "rtc_do DoDebounce r =
     (if rc_phase r = Selecting \<and> rc_seen r < length (db_notified (rc_debouncer r))
      then Some (on_debounce r) else None)"
| "rtc_do DoOffer r =
     (case rc_offers r of
        m # ms \<Rightarrow> if rc_phase r = Selecting then Some (on_offer m (r\<lparr>rc_offers := ms\<rparr>)) else None
      | [] \<Rightarrow> None)"
| "rtc_do DoBegin r =
     (case rc_current_offer r of
        Some m \<Rightarrow>
          if rc_phase r = Selecting \<and> negotiating r
          then Some (r\<lparr>rc_current_offer := None, rc_phase := Answering m\<rparr>) else None
      | None \<Rightarrow> None)"
| "rtc_do (DoAnswer sdp) r =
     (case rc_phase r of
        Answering m \<Rightarrow> Some (r\<lparr>rc_phase := SendingOut (answer_to m sdp)\<rparr>) | _ \<Rightarrow> None)"
| "rtc_do (DoTake added) r =
     (case rc_signals r of
        m # ms \<Rightarrow>
          if rc_phase r = Selecting \<and> negotiating r
          then Some (on_signal_msg added m (r\<lparr>rc_signals := ms\<rparr>)) else None
      | [] \<Rightarrow> None)"
| "rtc_do DoSend r =
     (case rc_phase r of
        SendingOut m \<Rightarrow> Some (r\<lparr>rc_phase := LoopHead, rc_sent := rc_sent r @ [m]\<rparr>) | _ \<Rightarrow> None)"

fun rtc_run :: "rtc_act list \<Rightarrow> rtc \<Rightarrow> rtc option" where
  "rtc_run [] r = Some r"
| "rtc_run (a # acts) r = (case rtc_do a r of Some r' \<Rightarrow> rtc_run acts r' | None \<Rightarrow> None)"

lemma rtc_do_step: "rtc_do a r = Some r' \<Longrightarrow> rtc_step r r'"
  by (cases a)
    (auto intro: rtc_step.intros split: if_splits option.splits list.splits rtc_phase.splits)

lemma rtc_run_reached: "rtc_run acts r = Some r' \<Longrightarrow> rtc_step\<^sup>*\<^sup>* r r'"
proof (induction acts arbitrary: r)
  case (Cons a acts)
  then obtain q where "rtc_do a r = Some q" "rtc_run acts q = Some r'"
    by (auto split: option.splits)
  then show ?case using Cons.IH rtc_do_step by (meson converse_rtranclp_into_rtranclp)
qed simp

text \<open>A second channel with the same label opens while the first is being claimed.\<close>

definition claim_race :: "rtc_act list" where
  "claim_race = [DoHead, DoOpen 0 ''default'', DoFind, DoOpen 0 ''default'', DoSettle 0]"

text \<open>A candidate of the first peer connection, which is then replaced: it is still in the queue
  when the offer to the second one arrives.\<close>

definition signal_of :: "SignalKind \<Rightarrow> string \<Rightarrow> string \<Rightarrow> SignalMsg" where
  "signal_of k sdp i = \<lparr>sg_kind = k, sg_sdp = sdp, sg_neg_id = i\<rparr>"

definition late_candidate :: "rtc_act list" where
  "late_candidate =
     [DoHead, DoSignal (signal_of Offer ''o1'' ''a''), DoOffer, DoHead, DoBegin, DoAnswer ''s1'',
      DoSend, DoHead, DoTake True, DoHead, DoCandidate 0 ''c'', DoState 0 Disconnected, DoPoll 0,
      DoPoll 60000000000, DoDebounce, DoHead, DoSignal (signal_of Offer ''o2'' ''b''), DoOffer,
      DoHead, DoTake True, DoSend]"

lemmas rtc_eval = new_rtc_def new_debouncer_def loop_head_def close_data_channels_def on_signal_def
  push_signal_def signal_capacity_def on_offer_def negotiating_def answer_to_def on_signal_msg_def
  on_ice_candidate_def local_candidate_def on_state_change_def on_debouncer_def deb_step_def
  wait_ns_def deb_push_def deb_poll_def DEBOUNCE_TIMEOUT_def on_debounce_def on_data_channel_def
  drop_channel_def claim_lookup_def claim_own_def signal_of_def Let_def

lemma claim_race_runs:
  "\<exists>r. rtc_run claim_race (new_rtc 0) = Some r \<and> orphan 0 0 r"
  unfolding claim_race_def by (simp add: rtc_eval orphan_def)

lemma late_candidate_runs:
  "\<exists>r. rtc_run late_candidate (new_rtc 0) = Some r
     \<and> rc_sent r = [signal_of Answer ''s1'' ''a'', signal_of IceCandidate ''c'' ''b'']
     \<and> rc_peer r = Some 1 \<and> rc_gathered r = [(0, ''c'')]"
  unfolding late_candidate_def by (simp add: rtc_eval)

lemma late_candidate_next:
  "\<exists>r. rtc_run late_candidate (new_rtc 0) = Some r \<and> rc_peer r = Some 1 \<and> rc_next_peer r = 2"
  unfolding late_candidate_def by (simp add: rtc_eval)

section \<open>Witnesses and runs of the properties\<close>

theorem owner_of_a_closed_channel_is_kept_witness:
  "\<exists>r. rtc_step\<^sup>*\<^sup>* (new_rtc 0) r \<and> orphan 0 0 r \<and> 0 \<notin> rc_cancelled_controls r"
proof -
  obtain r where r: "rtc_run claim_race (new_rtc 0) = Some r" "orphan 0 0 r"
    using claim_race_runs by blast
  have reach: "rtc_step\<^sup>*\<^sup>* (new_rtc 0) r" by (rule rtc_run_reached [OF r(1)])
  show ?thesis
    using owner_of_a_closed_channel_is_kept [OF reach r(2) rtranclp.rtrancl_refl] reach r(2) by blast
qed

theorem answers_follow_offers_witness:
  "\<exists>r :: rtc. rc_peer r = Some 1 \<and> subseq [''a''] (ids (rc_taken r))"
proof -
  obtain r where r: "rtc_run late_candidate (new_rtc 0) = Some r" "rc_peer r = Some 1"
    "rc_sent r = [signal_of Answer ''s1'' ''a'', signal_of IceCandidate ''c'' ''b'']"
    using late_candidate_runs by blast
  have "subseq (answered r @ pending r) (ids (rc_taken r))"
    using answers_follow_offers [OF rtc_run_reached [OF r(1)]] by blast
  moreover have "answered r = [''a'']" by (simp add: answered_def r(3) ids_def signal_of_def)
  ultimately have "subseq [''a''] (ids (rc_taken r))"
    by (metis list_emb_append_mono prefix_imp_subseq prefixI subseq_order.trans)
  then show ?thesis using r(2) by blast
qed

theorem peers_are_replaced_one_by_one_witness:
  "\<exists>r :: rtc. rc_peer r = Some 1 \<and> rc_closed_peers r = {0}"
proof -
  obtain r where r: "rtc_run late_candidate (new_rtc 0) = Some r" "rc_peer r = Some 1"
    "rc_next_peer r = 2"
    using late_candidate_next by blast
  have "{..<2} = rc_closed_peers r \<union> {1}" "rc_closed_peers r \<inter> {1} = {}"
    using peers_are_replaced_one_by_one [OF rtc_run_reached [OF r(1)]] r(2,3) by simp_all
  then have "rc_closed_peers r = {..<2} - {1}" by blast
  also have "\<dots> = {0::nat}" by auto
  finally show ?thesis using r(2) by blast
qed

theorem one_live_channel_per_label_witness:
  "\<exists>r :: rtc. orphan 0 0 r \<and> table_of (rc_map r) (live_at r)"
proof -
  obtain r where r: "rtc_run claim_race (new_rtc 0) = Some r" "orphan 0 0 r"
    using claim_race_runs by blast
  show ?thesis using one_live_channel_per_label [OF rtc_run_reached [OF r(1)]] r(2) by blast
qed

text \<open>A local candidate is labelled when it is sent, not when it is gathered: a candidate of
  a peer connection that has been replaced is sent under the negotiation of its successor.\<close>

theorem candidate_of_a_replaced_peer_is_sent:
  "\<exists>r. rtc_step\<^sup>*\<^sup>* (new_rtc 0) r \<and> rc_peer r = Some 1 \<and> rc_gathered r = [(0, ''c'')]
     \<and> signal_of IceCandidate ''c'' ''b'' \<in> set (rc_sent r)"
proof -
  obtain r where r: "rtc_run late_candidate (new_rtc 0) = Some r" "rc_peer r = Some 1"
    "rc_gathered r = [(0, ''c'')]"
    "rc_sent r = [signal_of Answer ''s1'' ''a'', signal_of IceCandidate ''c'' ''b'']"
    using late_candidate_runs by blast
  have "rtc_step\<^sup>*\<^sup>* (new_rtc 0) r" by (rule rtc_run_reached [OF r(1)])
  then show ?thesis using r(2-4) by auto
qed

text \<open>While an answer or a candidate is being sent nothing interrupts the connector: whatever
  step is taken, cancellation, notifications and offers included, the peer connection and the
  negotiation stay, until the send has returned.\<close>

theorem sending_blocks_the_connector:
  assumes "rc_phase r = SendingOut m" and "rtc_step r r'"
  shows "rc_peer r' = rc_peer r \<and> rc_negotiation r' = rc_negotiation r
       \<and> rc_closed_peers r' = rc_closed_peers r
       \<and> (rc_phase r' = SendingOut m
          \<or> rc_phase r' = LoopHead \<and> rc_sent r' \<in> {rc_sent r, rc_sent r @ [m]})"
  using assms(2,1)
  by (cases rule: rtc_step.cases)
    (auto simp: on_signal_def Let_def on_ice_candidate_def on_debouncer_def on_state_change_def
      on_data_channel_def drop_channel_eq claim_own_def split: option.split peer_state.split)

theorem sending_blocks_the_connector_witness:
  "rc_peer ((new_rtc 0)\<lparr>rc_phase := SendingOut (local_candidate ''c''), rc_cancelled := True\<rparr>) = None"
  using sending_blocks_the_connector
    [OF _ cancel_called [of "(new_rtc 0)\<lparr>rc_phase := SendingOut (local_candidate ''c'')\<rparr>"]]
  by (simp add: new_rtc_def)

end
