(* ===== verification/Data_Channel.thy ===== *)
theory Data_Channel
  imports Rtc_Connector
begin

text \<open>
  The data channel of \<^verbatim>\<open>rtc/rtc_connector.rs\<close> as its owner sees it: sending, receiving, and the two
  loops that look for something, and, when it is not there, wait to be notified. A notification
  reaches only a caller that already waits.
\<close>

section \<open>Sending and receiving\<close>

definition rtc_send ::
  "bool \<Rightarrow> bool \<Rightarrow> (string \<Rightarrow> string + unit) \<Rightarrow> string \<Rightarrow> string + unit" where
  "rtc_send is_connected is_open send_text msg =
     (if \<not> is_connected \<or> \<not> is_open then Inl ''rtc sender not ready'' else send_text msg)"

definition rtc_channel_capacity :: nat where "rtc_channel_capacity = 16"

text \<open>The handler of the channel's messages: text goes into the queue while there is room.\<close>

definition on_dc_message :: "bool \<Rightarrow> string \<Rightarrow> string list \<Rightarrow> string list" where
  "on_dc_message is_string data q =
     (if is_string \<and> length q < rtc_channel_capacity then q @ [data] else q)"

text \<open>
  \<^verbatim>\<open>RtcReceiver::recv\<close>: \<open>None\<close> is a call that waits. The sending half belongs to the handler above.
\<close>

definition rtc_recv :: "bool \<Rightarrow> string list \<Rightarrow> (string + string option) option \<times> string list" where
  "rtc_recv handler_gone q =
     (case q of
        m # ms \<Rightarrow> (Some (Inr (Some m)), ms)
      | [] \<Rightarrow> ((if handler_gone then Some (Inl ''rtc receiver channel closed'') else None), []))"

section \<open>Looking and waiting\<close>

datatype wait_phase = Looking | NotThere | Waiting | Notified | Found

record 's wait_loop =
  wt_shared :: 's
  wt_phase :: wait_phase
  wt_notices :: nat

definition start_waiting :: "'s \<Rightarrow> 's wait_loop" where
  "start_waiting s = \<lparr>wt_shared = s, wt_phase = Looking, wt_notices = 0\<rparr>"

text \<open>
  The caller looks (\<open>there\<close>), asks to be notified, waits, looks again. \<open>env s notifies s'\<close> is what the
  other tasks do to the shared state, and whether they call \<^verbatim>\<open>notify_waiters\<close> with it.
\<close>

inductive wait_step ::
  "('s \<Rightarrow> bool) \<Rightarrow> ('s \<Rightarrow> bool \<Rightarrow> 's \<Rightarrow> bool) \<Rightarrow> 's wait_loop \<Rightarrow> 's wait_loop \<Rightarrow> bool"
  for there env where
  looks: "wt_phase w = Looking \<Longrightarrow>
    wait_step there env w (w\<lparr>wt_phase := (if there (wt_shared w) then Found else NotThere)\<rparr>)"
| waits: "wt_phase w = NotThere \<Longrightarrow> wait_step there env w (w\<lparr>wt_phase := Waiting\<rparr>)"
| wakes: "wt_phase w = Notified \<Longrightarrow> wait_step there env w (w\<lparr>wt_phase := Looking\<rparr>)"
| changes: "env (wt_shared w) False s \<Longrightarrow> wait_step there env w (w\<lparr>wt_shared := s\<rparr>)"
| notifies: "env (wt_shared w) True s \<Longrightarrow>
    wait_step there env w
      (w\<lparr>wt_shared := s, wt_notices := wt_notices w + 1,
         wt_phase := (if wt_phase w = Waiting then Notified else wt_phase w)\<rparr>)"

lemma notices_grow: "wait_step there env w w' \<Longrightarrow> wt_notices w \<le> wt_notices w'"
  by (induction rule: wait_step.induct) simp_all

lemma waiting_stays:
  assumes "(wait_step there env)\<^sup>*\<^sup>* w w'" and "wt_phase w = Waiting"
  shows "wt_notices w \<le> wt_notices w'
       \<and> (wt_notices w' = wt_notices w \<longrightarrow> wt_phase w' = Waiting)"
  using assms(1)
proof (induction rule: rtranclp_induct)
  case base
  then show ?case using assms(2) by simp
next
  case (step y z)
  from step.hyps(2) show ?case
    using step.IH notices_grow [OF step.hyps(2)] by cases auto
qed

lemma wait_trace:
  "(wait_step there env)\<^sup>*\<^sup>* w0 w \<Longrightarrow> wait_step there env w w' \<Longrightarrow> (wait_step there env)\<^sup>*\<^sup>* w0 w'"
  by (rule rtranclp.rtrancl_into_rtrancl)

text \<open>What is found is there when it is found.\<close>

lemma found_is_there:
  "wait_step there env w w' \<Longrightarrow> wt_phase w' = Found \<Longrightarrow> wt_phase w \<noteq> Found \<Longrightarrow>
   there (wt_shared w) \<and> wt_shared w' = wt_shared w"
  by (induction rule: wait_step.induct) (auto split: if_splits)

section \<open>Waiting for the connection\<close>

text \<open>\<^verbatim>\<open>wait_for_connected\<close>: the flag of the peer connection, and the state of the channel.\<close>

record dc_state =
  ds_connected :: bool
  ds_open :: bool

definition ready_to_send :: "dc_state \<Rightarrow> bool" where
  "ready_to_send s \<longleftrightarrow> ds_connected s \<and> ds_open s"

text \<open>Only the peer connection's change to \<open>Connected\<close> notifies; the channel's opening does not.\<close>

inductive dc_env :: "dc_state \<Rightarrow> bool \<Rightarrow> dc_state \<Rightarrow> bool" where
  peer_connected: "dc_env s True (s\<lparr>ds_connected := True\<rparr>)"
| peer_lost: "dc_env s False (s\<lparr>ds_connected := False\<rparr>)"
| channel_opened: "dc_env s False (s\<lparr>ds_open := True\<rparr>)"
| channel_closed: "dc_env s False (s\<lparr>ds_open := False\<rparr>)"

abbreviation connect_wait :: "dc_state wait_loop \<Rightarrow> dc_state wait_loop \<Rightarrow> bool" where
  "connect_wait \<equiv> wait_step ready_to_send dc_env"

section \<open>Waiting for a channel\<close>

text \<open>\<^verbatim>\<open>wait_for_a_data_channel_connector\<close> looks for the label \<^verbatim>\<open>default\<close> in the table.\<close>

definition default_there :: "rtc \<Rightarrow> bool" where
  "default_there r \<longleftrightarrow> claim_lookup r \<noteq> None"

text \<open>A channel that opens is entered and notified; no other step of the connector notifies.\<close>

definition table_env :: "rtc \<Rightarrow> bool \<Rightarrow> rtc \<Rightarrow> bool" where
  "table_env r notifies r' \<longleftrightarrow>
     (if notifies then \<exists>p label. p < rc_next_peer r \<and> r' = on_data_channel p label r
      else rtc_step r r' \<and> (\<forall>p label. r' \<noteq> on_data_channel p label r))"

abbreviation channel_wait :: "rtc wait_loop \<Rightarrow> rtc wait_loop \<Rightarrow> bool" where
  "channel_wait \<equiv> wait_step default_there table_env"

section \<open>Missed notifications\<close>

text \<open>A caller of \<open>wait_for_connected\<close> that waits is woken by nothing but a further change of the
  peer connection to \<open>Connected\<close>: if the channel opens after that change, which notifies nobody, the
  caller waits although connection and channel are both ready, for as long as the connection is
  up.\<close>

theorem opening_the_channel_wakes_nobody:
  assumes "connect_wait\<^sup>*\<^sup>* w w'" and "wt_phase w = Waiting" and "wt_notices w' = wt_notices w"
  shows "wt_phase w' = Waiting"
  using waiting_stays [OF assms(1,2)] assms(3) by blast

definition closed_channel :: dc_state where
  "closed_channel = \<lparr>ds_connected = True, ds_open = False\<rparr>"

theorem opening_the_channel_wakes_nobody_witness:
  "\<exists>w. connect_wait\<^sup>*\<^sup>* (start_waiting closed_channel) w \<and> ready_to_send (wt_shared w)
     \<and> wt_phase w = Waiting"
proof -
  let ?w1 = "(start_waiting closed_channel)\<lparr>wt_phase := NotThere\<rparr>"
  let ?w2 = "?w1\<lparr>wt_phase := Waiting\<rparr>"
  let ?w3 = "?w2\<lparr>wt_shared := closed_channel\<lparr>ds_open := True\<rparr>\<rparr>"
  have "connect_wait (start_waiting closed_channel) ?w1"
    using looks [of "start_waiting closed_channel" ready_to_send dc_env]
    by (simp add: start_waiting_def ready_to_send_def closed_channel_def)
  moreover have "connect_wait ?w1 ?w2"
    using waits [of ?w1 ready_to_send dc_env] by simp
  ultimately have run: "connect_wait\<^sup>*\<^sup>* (start_waiting closed_channel) ?w2"
    by (meson rtranclp.rtrancl_refl wait_trace)
  have "connect_wait ?w2 ?w3"
    by (rule changes) (simp add: start_waiting_def channel_opened)
  then have "connect_wait\<^sup>*\<^sup>* ?w2 ?w3" by (rule wait_trace [OF rtranclp.rtrancl_refl])
  moreover from this have "wt_phase ?w3 = Waiting"
    by (rule opening_the_channel_wakes_nobody) (simp_all add: start_waiting_def)
  moreover have "ready_to_send (wt_shared ?w3)" by (simp add: ready_to_send_def closed_channel_def)
  ultimately show ?thesis using run by (meson rtranclp_trans)
qed

text \<open>The same race without a second condition: a channel that opens between the look into the
  table and the wait is there, its notification is missed, and the caller waits for another one.\<close>

theorem channel_opened_before_the_wait_is_missed:
  "\<exists>w. channel_wait\<^sup>*\<^sup>* (start_waiting (loop_head (new_rtc 0))) w \<and> default_there (wt_shared w)
     \<and> wt_phase w = Waiting \<and> wt_notices w = 1"
proof -
  let ?r = "loop_head (new_rtc 0)"
  let ?w1 = "(start_waiting ?r)\<lparr>wt_phase := NotThere\<rparr>"
  let ?w2 = "?w1\<lparr>wt_shared := on_data_channel 0 ''default'' ?r, wt_notices := 1\<rparr>"
  let ?w3 = "?w2\<lparr>wt_phase := Waiting\<rparr>"
  have empty: "rc_map ?r = (\<lambda>_. None)" "rc_next_peer ?r = 1"
    by (simp_all add: loop_head_def new_rtc_def Let_def)
  have "channel_wait (start_waiting ?r) ?w1"
    using looks [of "start_waiting ?r" default_there table_env]
    by (simp add: start_waiting_def default_there_def claim_lookup_def empty)
  moreover have "channel_wait ?w1 ?w2"
    using notifies [of table_env ?w1 "on_data_channel 0 ''default'' ?r" default_there]
    by (simp add: start_waiting_def table_env_def empty) blast
  moreover have "channel_wait ?w2 ?w3"
    using waits [of ?w2 default_there table_env] by simp
  ultimately have "channel_wait\<^sup>*\<^sup>* (start_waiting ?r) ?w3"
    by (meson rtranclp.rtrancl_refl wait_trace)
  moreover have "default_there (wt_shared ?w3)"
    by (simp add: default_there_def claim_lookup_def on_data_channel_def empty Let_def)
  ultimately show ?thesis by (intro exI [of _ ?w3]) simp
qed

end
