(* ===== verification/Commands.thy ===== *)
theory Commands
  imports Dispatch
begin



section \<open>Track commands\<close>








section \<open>Listen-history commands\<close>




section \<open>Tag commands\<close>










section \<open>Track-metadata commands\<close>





section \<open>The same commands, dispatched\<close>










section \<open>The database file\<close>

record DbConfig =
  cf_db_path :: string
  cf_db_filename :: string
  cf_is_test :: bool

datatype LaunchMode = TestMode | DbFolderDefined | DefaultDb

text \<open>
  The two variables are \<open>None\<close> when they are not set or not Unicode; \<open>now_text\<close> is the local time
  in the format \<^verbatim>\<open>%Y%m%d_%H%M%S\<close> and \<open>data_dir\<close> the directory the \<^verbatim>\<open>dirs\<close> crate finds. A missing
  one unwinds.
\<close>

definition launch_mode :: "string option \<Rightarrow> string option \<Rightarrow> LaunchMode" where
  "launch_mode test_dir app_dir =
     (let m1 = (if app_dir \<noteq> None then DbFolderDefined else DefaultDb) in
      if test_dir \<noteq> None then TestMode else m1)"

definition unwrap_dir :: "string option \<Rightarrow> ('e, string) rust" where
  "unwrap_dir d = (case d of Some p \<Rightarrow> Ok p | None \<Rightarrow> Panic)"

definition create_db_config ::
  "string option \<Rightarrow> string option \<Rightarrow> string \<Rightarrow> string option \<Rightarrow> ('e, DbConfig) rust" where
  "create_db_config test_dir app_dir now_text data_dir =
     (case launch_mode test_dir app_dir of
        TestMode \<Rightarrow>
          map_ok (\<lambda>p. \<lparr>cf_db_path = p, cf_db_filename = now_text @ ''_test.db'', cf_is_test = True\<rparr>)
            (unwrap_dir test_dir)
      | DbFolderDefined \<Rightarrow>
          map_ok (\<lambda>p. \<lparr>cf_db_path = p, cf_db_filename = ''vampa.db'', cf_is_test = False\<rparr>)
            (unwrap_dir app_dir)
      | DefaultDb \<Rightarrow>
          map_ok (\<lambda>p. \<lparr>cf_db_path = p, cf_db_filename = ''vampagent3.db'', cf_is_test = False\<rparr>)
            (unwrap_dir data_dir))"

end
