(* ===== verification/Client.thy ===== *)
theory Client
  imports Wire
begin

text \<open>
  The clients of the first signalling server: the loop of \<^verbatim>\<open>signalling-server/src/wsclient.rs\<close>, which
  waits for one offer and answers it, and the reconnecting link of \<^verbatim>\<open>rtc/client.rs\<close>. The loop may run
  for ever, so it is a partial function: \<open>None\<close> is a call that does not return.
\<close>

section \<open>Frames and offers\<close>

record WsMsg =
  wf_src :: string
  wf_dst :: string
  wf_payload :: string

definition make_register_msg :: "string \<Rightarrow> WsMsg" where
  "make_register_msg session_id = \<lparr>wf_src = session_id, wf_dst = session_id, wf_payload = []\<rparr>"

datatype SdpAttributeType = IceUfrag | IcePwd | Fingerprint | Setup | OtherAttribute string

datatype SdpMediaValue = Audio | Video | Application

record SdpMedia =
  sd_type :: SdpMediaValue
  sd_media_attributes :: "SdpAttributeType list"

record SdpSession =
  sd_attributes :: "SdpAttributeType list"
  sd_media :: "SdpMedia list"

definition required :: "SdpAttributeType list" where
  "required = [IceUfrag, IcePwd, Fingerprint, Setup]"

text \<open>\<open>parse_sdp\<close> is the grammar check of the \<^verbatim>\<open>webrtc-sdp\<close> crate.\<close>

definition validate_offer :: "(string \<Rightarrow> string + SdpSession) \<Rightarrow> string \<Rightarrow> bool" where
  "validate_offer parse_sdp sdp =
     (case parse_sdp sdp of
        Inl e \<Rightarrow> False
      | Inr session \<Rightarrow>
          (case find (\<lambda>m. sd_type m = Application) (sd_media session) of
             None \<Rightarrow> False
           | Some app \<Rightarrow>
               list_all (\<lambda>attr. attr \<in> set (sd_attributes session) \<or> attr \<in> set (sd_media_attributes app))
                 required))"

section \<open>Waiting for an offer\<close>

text \<open>
  What \<^verbatim>\<open>nextMsg\<close> returns, call by call: a frame, or an error once the task of the link has ended.
  The loop passes over everything that is not a frame with a valid offer.
\<close>

fun await_offer ::
  "(string \<Rightarrow> string + WsMsg) \<Rightarrow> (string \<Rightarrow> bool) \<Rightarrow> (string + Message) list
     \<Rightarrow> (string + WsMsg) option" where
  "await_offer parse valid [] = None"
| "await_offer parse valid (Inl e # evs) = Some (Inl e)"
| "await_offer parse valid (Inr m # evs) =
     (case m of
        Text raw \<Rightarrow>
          (case parse raw of
             Inl e \<Rightarrow> await_offer parse valid evs
           | Inr w \<Rightarrow> if valid (wf_payload w) then Some (Inr w) else await_offer parse valid evs)
      | _ \<Rightarrow> await_offer parse valid evs)"

section \<open>The loop of \<open>run_client\<close>\<close>

text \<open>
  What \<^verbatim>\<open>read.next()\<close> yields before the end of the stream: a frame or an error; after it, \<^verbatim>\<open>None\<close> on
  every call. \<open>flag\<close> is set when the first frame has been taken for an offer. The result is the
  list of the offers for which a negotiation was started, each with the sender it answers to.
\<close>

partial_function (option) client_loop ::
  "(string \<Rightarrow> string + WsMsg) \<Rightarrow> (string + Message) list \<Rightarrow> bool \<Rightarrow> (string \<times> string) list
     \<Rightarrow> (string \<times> string) list option" where
  "client_loop parse evs flag started =
     (case evs of
        [] \<Rightarrow> if flag then client_loop parse [] flag started else Some started
      | ev # rest \<Rightarrow>
          if flag then client_loop parse rest flag started
          else
            (case ev of
               Inr (Text raw) \<Rightarrow>
                 (case parse raw of
                    Inr w \<Rightarrow> client_loop parse rest True (started @ [(wf_payload w, wf_src w)])
                  | Inl e \<Rightarrow> client_loop parse rest flag started)
             | Inr m \<Rightarrow> client_loop parse rest flag started
             | Inl e \<Rightarrow> Some started))"

text \<open>The registration frame is written first; a connection that fails ends the call before.\<close>

definition run_client ::
  "(string \<Rightarrow> string + WsMsg) \<Rightarrow> string + (string + Message) list \<Rightarrow> string
     \<Rightarrow> (WsMsg list \<times> (string \<times> string) list) option" where
  "run_client parse opened src_addr =
     (case opened of
        Inl e \<Rightarrow> Some ([], [])
      | Inr evs \<Rightarrow>
          map_option (Pair [make_register_msg src_addr]) (client_loop parse evs False []))"

text \<open>The answer that a negotiation delivers.\<close>

definition answer_frame :: "string \<Rightarrow> string \<times> string \<Rightarrow> string \<Rightarrow> WsMsg" where
  "answer_frame my_addr started answer =
     \<lparr>wf_src = my_addr, wf_dst = snd started, wf_payload = answer\<rparr>"

text \<open>Whether a frame is taken for an offer, and whether one comes before the stream fails.\<close>

definition offer_frame :: "(string \<Rightarrow> string + WsMsg) \<Rightarrow> Message \<Rightarrow> bool" where
  "offer_frame parse m = (case m of Text raw \<Rightarrow> \<not> isl (parse raw) | _ \<Rightarrow> False)"

fun offered :: "(string \<Rightarrow> string + WsMsg) \<Rightarrow> (string + Message) list \<Rightarrow> bool" where
  "offered parse [] = False"
| "offered parse (Inl e # evs) = False"
| "offered parse (Inr m # evs) = (offer_frame parse m \<or> offered parse evs)"

lemma client_loop_returns:
  assumes returned: "client_loop parse evs flag started = Some r"
  shows "\<not> flag \<and> \<not> offered parse evs \<and> r = started"
proof (rule client_loop.raw_induct [where
      P = "\<lambda>parse evs flag started r. \<not> flag \<and> \<not> offered parse evs \<and> r = started",
      OF _ returned])
  fix f parse evs flag started r
  assume IH: "\<And>parse evs flag started r. f parse evs flag started = Some r \<Longrightarrow>
      \<not> flag \<and> \<not> offered parse evs \<and> r = started"
    and body: "(case evs of
        [] \<Rightarrow> if flag then f parse [] flag started else Some started
      | ev # rest \<Rightarrow>
          if flag then f parse rest flag started
          else
            (case ev of
               Inr (Text raw) \<Rightarrow>
                 (case parse raw of
                    Inr w \<Rightarrow> f parse rest True (started @ [(wf_payload w, wf_src w)])
                  | Inl e \<Rightarrow> f parse rest flag started)
             | Inr m \<Rightarrow> f parse rest flag started
             | Inl e \<Rightarrow> Some started)) = Some r"
  show "\<not> flag \<and> \<not> offered parse evs \<and> r = started"
  proof (cases evs)
    case Nil
    then show ?thesis using body IH [of parse "[]" flag started r] by (cases flag) auto
  next
    case (Cons ev rest)
    have "\<not> flag" using body Cons IH [of parse rest flag started r] by auto
    then show ?thesis
      using body Cons IH [of parse rest False started r]
        IH [of parse rest True "started @ [p]" r for p]
      by (auto simp: offer_frame_def split: sum.splits Message.splits)
  qed
qed

lemma client_loop_before_offers:
  "\<not> offered parse evs \<Longrightarrow> client_loop parse evs False started = Some started"
proof (induction evs)
  case Nil
  show ?case by (subst client_loop.simps) simp
next
  case (Cons ev evs)
  then show ?case
    by (subst client_loop.simps)
      (cases ev; auto simp: offer_frame_def split: Message.splits sum.splits)
qed

lemma client_loop_iff:
  "client_loop parse evs False started = (if offered parse evs then None else Some started)"
  using client_loop_before_offers [of parse evs started] client_loop_returns [of parse evs False started]
  by (cases "client_loop parse evs False started") auto

text \<open>C34: \<open>run_client\<close> returns exactly if no frame of its stream is a message of the protocol before
  the stream fails or ends; after the first such frame it takes every later one, and the end of
  the stream, without effect and for ever. It never returns with a negotiation started.\<close>

theorem run_client_returns_iff_no_offer:
  "run_client parse (Inr evs) src_addr =
     (if offered parse evs then None else Some ([make_register_msg src_addr], []))"
  by (simp add: run_client_def client_loop_iff)

text \<open>\<open>await_offer\<close> returns the first frame that is a message with a valid offer, whatever comes
  before it as long as the link lives; it never returns an invalid one.\<close>

definition valid_frame ::
  "(string \<Rightarrow> string + WsMsg) \<Rightarrow> (string \<Rightarrow> string + SdpSession) \<Rightarrow> string + Message \<Rightarrow> bool" where
  "valid_frame parse parse_sdp ev =
     (case ev of
        Inr (Text raw) \<Rightarrow>
          (case parse raw of Inr w \<Rightarrow> validate_offer parse_sdp (wf_payload w) | Inl e \<Rightarrow> False)
      | _ \<Rightarrow> False)"

lemma valid_frame_simps:
  "valid_frame parse parse_sdp (Inr (Text raw)) \<longleftrightarrow>
     (\<exists>w. parse raw = Inr w \<and> validate_offer parse_sdp (wf_payload w))"
  "\<not> valid_frame parse parse_sdp (Inr (Binary b))" "\<not> valid_frame parse parse_sdp (Inr (Ping b))"
  "\<not> valid_frame parse parse_sdp (Inr (Pong b))" "\<not> valid_frame parse parse_sdp (Inr Close)"
  by (simp_all add: valid_frame_def split: sum.split)

theorem await_offer_finds_the_first_valid:
  "await_offer parse (validate_offer parse_sdp) evs =
     (case dropWhile (\<lambda>ev. \<not> isl ev \<and> \<not> valid_frame parse parse_sdp ev) evs of
        [] \<Rightarrow> None
      | Inl e # rest \<Rightarrow> Some (Inl e)
      | Inr m # rest \<Rightarrow> (case m of Text raw \<Rightarrow> Some (parse raw) | _ \<Rightarrow> None))"
proof (induction evs)
  case (Cons ev evs)
  show ?case
  proof (cases ev)
    case (Inr m)
    show ?thesis
    proof (cases m)
      case (Text raw)
      then show ?thesis using Cons Inr by (cases "parse raw") (simp_all add: valid_frame_simps)
    qed (use Cons Inr in \<open>simp_all add: valid_frame_simps\<close>)
  qed simp
qed simp

end
