(* ===== verification/Ws_Link.thy ===== *)
theory Ws_Link
  imports Client Lossy_Fifo
begin

text \<open>
  The reconnecting link of \<^verbatim>\<open>rtc/client.rs\<close>: \<^verbatim>\<open>connect_to_ws\<close> with its read loop and the send loop it
  spawns for each connection, one rule per branch of a \<^verbatim>\<open>select!\<close>. Both loops are told to end by
  \<^verbatim>\<open>notify_waiters\<close>, which reaches only a task that waits in its \<^verbatim>\<open>select!\<close> at that moment and
  is forgotten when the \<^verbatim>\<open>select!\<close> takes another branch.
\<close>

section \<open>State\<close>

datatype send_loop = WsIdle | WsBusy Message | WsReturned

datatype link_phase = Dialling | Sleeping | Reading | Joining | Finished

text \<open>\<open>wl_aborted\<close> and \<open>wl_told\<close>: the pending notification of the read loop and of the send loop.\<close>

record ws_link =
  wl_phase :: link_phase
  wl_keep_reconnecting :: bool
  wl_aborted :: bool
  wl_sender :: send_loop
  wl_told :: bool
  wl_egress :: "Message list"
  wl_putter_gone :: bool
  wl_ingress :: "Message list"
  wl_accepted :: "Message list"
  wl_log :: "(Message \<times> bool) list"
  wl_connections :: nat

definition link_capacity :: nat where "link_capacity = 100"

definition connect_to_ws :: ws_link where
  "connect_to_ws =
     \<lparr>wl_phase = Dialling, wl_keep_reconnecting = True, wl_aborted = False,
      wl_sender = WsReturned, wl_told = False, wl_egress = [], wl_putter_gone = False,
      wl_ingress = [], wl_accepted = [], wl_log = [], wl_connections = 0\<rparr>"

section \<open>The handle\<close>

text \<open>\<^verbatim>\<open>WsHandle::send\<close>, with the messages of \<^verbatim>\<open>try_send\<close>; the queue is closed once the task is over.\<close>

definition link_send :: "Message \<Rightarrow> ws_link \<Rightarrow> (string + unit) \<times> ws_link" where
  "link_send m l =
     (if wl_phase l = Finished then (Inl ''channel closed'', l)
      else if length (wl_egress l) < link_capacity
      then (Inr (), l\<lparr>wl_egress := wl_egress l @ [m], wl_accepted := wl_accepted l @ [m]\<rparr>)
      else (Inl ''no available capacity'', l))"

text \<open>\<^verbatim>\<open>WsHandle::close\<close>.\<close>

definition link_close :: "ws_link \<Rightarrow> ws_link" where
  "link_close l =
     (if wl_phase l = Reading \<or> wl_phase l = Sleeping then l\<lparr>wl_aborted := True\<rparr> else l)"

text \<open>
  \<^verbatim>\<open>WsHandle::nextMsg\<close>: the \<^verbatim>\<open>select!\<close> polls its branches in a random order; \<open>task_first\<close> is the one in
  which the task's end is looked at first. \<open>None\<close> is a call that waits. The sending half of the
  queue ends with the task.
\<close>

definition nextMsg :: "bool \<Rightarrow> ws_link \<Rightarrow> (string + Message) option \<times> ws_link" where
  "nextMsg task_first l =
     (if wl_phase l = Finished \<and> task_first then (Some (Inl ''WebSocket task ended''), l)
      else
        (case wl_ingress l of
           m # ms \<Rightarrow> (Some (Inr m), l\<lparr>wl_ingress := ms\<rparr>)
         | [] \<Rightarrow> (if wl_phase l = Finished then Some (Inl ''WebSocket connection closed'') else None, l)))"

text \<open>\<^verbatim>\<open>ingress_out.try_send(data).ok()\<close>.\<close>

definition push_ingress :: "Message \<Rightarrow> ws_link \<Rightarrow> ws_link" where
  "push_ingress m l =
     (if length (wl_ingress l) < link_capacity then l\<lparr>wl_ingress := wl_ingress l @ [m]\<rparr> else l)"

text \<open>The end of \<^verbatim>\<open>ws_receive_loop\<close>: its result, and \<^verbatim>\<open>abort_send.notify_waiters()\<close>.\<close>

definition reading_over :: "bool \<Rightarrow> ws_link \<Rightarrow> ws_link" where
  "reading_over keep l =
     l\<lparr>wl_phase := Joining, wl_keep_reconnecting := keep, wl_told := (wl_sender l = WsIdle)\<rparr>"

section \<open>Steps\<close>

inductive ws_link_step :: "ws_link \<Rightarrow> ws_link \<Rightarrow> bool" where
  send_called: "ws_link_step l (snd (link_send m l))"
| close_called: "ws_link_step l (link_close l)"
| handle_dropped: "ws_link_step l (l\<lparr>wl_putter_gone := True\<rparr>)"
| consumed: "wl_ingress l = m # ms \<Longrightarrow> ws_link_step l (l\<lparr>wl_ingress := ms\<rparr>)"

| connected_ws: "wl_phase l = Dialling \<Longrightarrow>
    ws_link_step l (l\<lparr>wl_phase := Reading, wl_aborted := False, wl_sender := WsIdle, wl_told := False,
      wl_connections := wl_connections l + 1\<rparr>)"
| connect_failed: "wl_phase l = Dialling \<Longrightarrow>
    ws_link_step l (l\<lparr>wl_phase := Sleeping, wl_aborted := False\<rparr>)"
| slept: "wl_phase l = Sleeping \<Longrightarrow> ws_link_step l (l\<lparr>wl_phase := Dialling\<rparr>)"
| sleep_aborted: "wl_phase l = Sleeping \<Longrightarrow> wl_aborted l \<Longrightarrow> ws_link_step l (l\<lparr>wl_phase := Finished\<rparr>)"

| frame_read: "wl_phase l = Reading \<Longrightarrow> ws_link_step l ((push_ingress m l)\<lparr>wl_aborted := False\<rparr>)"
| read_failed: "wl_phase l = Reading \<Longrightarrow> ws_link_step l (reading_over True l)"
| read_aborted: "wl_phase l = Reading \<Longrightarrow> wl_aborted l \<Longrightarrow> ws_link_step l (reading_over False l)"

| egress_taken: "wl_sender l = WsIdle \<Longrightarrow> wl_egress l = m # ms \<Longrightarrow>
    ws_link_step l (l\<lparr>wl_sender := WsBusy m, wl_egress := ms, wl_told := False\<rparr>)"
| egress_written: "wl_sender l = WsBusy m \<Longrightarrow>
    ws_link_step l (l\<lparr>wl_sender := WsIdle, wl_log := wl_log l @ [(m, True)]\<rparr>)"
| write_failed: "wl_sender l = WsBusy m \<Longrightarrow>
    ws_link_step l (l\<lparr>wl_sender := WsReturned, wl_log := wl_log l @ [(m, False)]\<rparr>)"
| told_to_end: "wl_sender l = WsIdle \<Longrightarrow> wl_told l \<Longrightarrow> ws_link_step l (l\<lparr>wl_sender := WsReturned\<rparr>)"
| egress_closed: "wl_sender l = WsIdle \<Longrightarrow> wl_egress l = [] \<Longrightarrow> wl_putter_gone l \<Longrightarrow>
    ws_link_step l (l\<lparr>wl_sender := WsReturned\<rparr>)"

| send_joined: "wl_phase l = Joining \<Longrightarrow> wl_sender l = WsReturned \<Longrightarrow>
    ws_link_step l (l\<lparr>wl_phase := (if wl_keep_reconnecting l then Dialling else Finished)\<rparr>)"

section \<open>The invariant\<close>

definition writing :: "ws_link \<Rightarrow> Message list" where
  "writing l = (case wl_sender l of WsBusy m \<Rightarrow> [m] | _ \<Rightarrow> [])"

definition unwritten :: "ws_link \<Rightarrow> nat" where
  "unwritten l = length (filter (\<lambda>e. \<not> snd e) (wl_log l))"

definition link_ok :: "ws_link \<Rightarrow> bool" where
  "link_ok l \<longleftrightarrow>
     wl_accepted l = map fst (wl_log l) @ writing l @ wl_egress l
   \<and> length (wl_egress l) \<le> link_capacity \<and> length (wl_ingress l) \<le> link_capacity
   \<and> (wl_phase l \<in> {Dialling, Sleeping, Finished} \<longrightarrow> wl_sender l = WsReturned)
   \<and> (wl_phase l \<noteq> Joining \<and> wl_phase l \<noteq> Finished \<longrightarrow> wl_keep_reconnecting l)
   \<and> unwritten l + (if wl_sender l = WsReturned then 0 else 1) \<le> wl_connections l"

lemmas link_defs = link_send_def link_close_def push_ingress_def reading_over_def writing_def
  unwritten_def link_capacity_def

lemma link_ok_start: "link_ok connect_to_ws"
  by (simp add: link_ok_def connect_to_ws_def link_defs)

lemma link_ok_step: "ws_link_step l l' \<Longrightarrow> link_ok l \<Longrightarrow> link_ok l'"
  by (induction rule: ws_link_step.induct) (auto simp: link_ok_def link_defs)

section \<open>The queue it implements\<close>

definition link_fifo :: "ws_link \<Rightarrow> Message fifo" where
  "link_fifo l =
     \<lparr>ff_accepted = wl_accepted l, ff_waiting = writing l @ wl_egress l,
      ff_delivered = map fst (filter snd (wl_log l)), ff_lost = unwritten l,
      ff_connections = wl_connections l\<rparr>"

lemma link_fifo_start: "link_fifo connect_to_ws = empty_fifo"
  by (simp add: link_fifo_def empty_fifo_def connect_to_ws_def link_defs)

lemma link_fifo_step:
  assumes "ws_link_step l l'" and "link_ok l"
  shows "link_fifo l' = link_fifo l \<or> fifo_step (link_capacity + 1) (link_fifo l) (link_fifo l')"
  using assms
proof (induction rule: ws_link_step.induct)
  case (send_called l m)
  show ?case
  proof (cases "wl_phase l \<noteq> Finished \<and> length (wl_egress l) < link_capacity")
    case True
    have "fifo_step (link_capacity + 1) (link_fifo l)
        ((link_fifo l)\<lparr>ff_accepted := ff_accepted (link_fifo l) @ [m],
           ff_waiting := ff_waiting (link_fifo l) @ [m]\<rparr>)"
      by (rule accept) (use True in \<open>auto simp: link_fifo_def writing_def split: send_loop.split\<close>)
    then show ?thesis using True by (simp add: link_fifo_def link_send_def writing_def unwritten_def)
  next
    case False
    then show ?thesis by (auto simp: link_fifo_def link_send_def)
  qed
next
  case (connected_ws l)
  then have "writing l = []" by (simp add: link_ok_def writing_def)
  then show ?case
    using reconnect [of "link_capacity + 1" "link_fifo l"]
    by (simp add: link_fifo_def writing_def unwritten_def)
next
  case (egress_written l m)
  then show ?case
    using deliver [of "link_fifo l" m "wl_egress l" "link_capacity + 1"]
    by (simp add: link_fifo_def writing_def unwritten_def)
next
  case (write_failed l m)
  then have "unwritten l < wl_connections l" by (simp add: link_ok_def)
  then show ?case
    using write_failed.hyps lose [of "link_fifo l" m "wl_egress l" "link_capacity + 1"]
    by (simp add: link_fifo_def writing_def unwritten_def)
qed (simp_all add: link_fifo_def link_close_def push_ingress_def reading_over_def writing_def unwritten_def)

interpretation ws_link: refinement ws_link_step link_ok "fifo_step (link_capacity + 1)" link_fifo
  by unfold_locales (rule link_ok_step link_fifo_step, assumption+)+

lemma link_reached: "ws_link_step\<^sup>*\<^sup>* connect_to_ws l \<Longrightarrow> link_ok l"
  by (rule ws_link.reached_inv [OF _ link_ok_start])

text \<open>Over all its connections the link writes what \<open>send\<close> accepted, in that order; a connection
  loses at most the message it breaks on, and neither queue holds more than a hundred.\<close>

theorem link_writes_in_order:
  assumes "ws_link_step\<^sup>*\<^sup>* connect_to_ws l"
  shows "wl_accepted l = map fst (wl_log l) @ writing l @ wl_egress l
       \<and> length (filter (\<lambda>e. \<not> snd e) (wl_log l)) \<le> wl_connections l
       \<and> length (wl_egress l) \<le> 100 \<and> length (wl_ingress l) \<le> 100"
  using link_reached [OF assms]
  by (simp add: link_ok_def unwritten_def link_capacity_def split: if_splits)

text \<open>The link implements the same abstract queue as the node of \<^verbatim>\<open>rtc/ws_node.rs\<close>, with room for
  101 messages.\<close>

lemma link_implements_the_lossy_queue:
  assumes "ws_link_step\<^sup>*\<^sup>* connect_to_ws l"
  shows "(fifo_step 101)\<^sup>*\<^sup>* empty_fifo (link_fifo l)"
  using ws_link.runs_refine [OF assms link_ok_start] by (simp add: link_fifo_start link_capacity_def)

section \<open>A lost notification\<close>





definition broken_link :: ws_link where
  "broken_link = connect_to_ws\<lparr>wl_phase := Joining, wl_sender := WsIdle, wl_accepted := [Close],
     wl_log := [(Close, True)], wl_connections := 1\<rparr>"

lemma link_trace: "ws_link_step\<^sup>*\<^sup>* l0 l \<Longrightarrow> ws_link_step l l' \<Longrightarrow> ws_link_step\<^sup>*\<^sup>* l0 l'"
  by (rule rtranclp.rtrancl_into_rtrancl)

lemma broken_link_reached: "ws_link_step\<^sup>*\<^sup>* connect_to_ws broken_link"
proof -
  let ?l1 = "connect_to_ws\<lparr>wl_phase := Reading, wl_sender := WsIdle, wl_connections := 1\<rparr>"
  let ?l2 = "?l1\<lparr>wl_egress := [Close], wl_accepted := [Close]\<rparr>"
  let ?l3 = "?l2\<lparr>wl_sender := WsBusy Close, wl_egress := []\<rparr>"
  let ?l4 = "?l3\<lparr>wl_phase := Joining\<rparr>"
  have "ws_link_step connect_to_ws ?l1"
    using connected_ws [of connect_to_ws] by (simp add: connect_to_ws_def)
  moreover have "ws_link_step ?l1 ?l2"
    using send_called [of ?l1 Close] by (simp add: link_defs connect_to_ws_def)
  moreover have "ws_link_step ?l2 ?l3"
    using egress_taken [of ?l2 Close "[]"] by (simp add: connect_to_ws_def)
  moreover have "ws_link_step ?l3 ?l4"
    using read_failed [of ?l3] by (simp add: reading_over_def connect_to_ws_def)
  moreover have "ws_link_step ?l4 broken_link"
    using egress_written [of ?l4 Close] by (simp add: broken_link_def connect_to_ws_def)
  ultimately show ?thesis by (meson link_trace rtranclp.rtrancl_refl)
qed


theorem link_writes_in_order_witness:
  "wl_accepted broken_link = map fst (wl_log broken_link) @ writing broken_link @ wl_egress broken_link"
  using link_writes_in_order [OF broken_link_reached] by blast

text \<open>An error of \<open>nextMsg\<close> is the end of the link, a message is the oldest that was read, and taking
  it is a step of the link.\<close>

lemma nextMsg_results:
  "nextMsg b l = (Some (Inl e), l') \<Longrightarrow> wl_phase l = Finished \<and> l' = l"
  "nextMsg b l = (Some (Inr m), l') \<Longrightarrow> wl_ingress l = m # wl_ingress l' \<and> ws_link_step l l'"
  "nextMsg b l = (None, l') \<Longrightarrow> wl_ingress l = [] \<and> wl_phase l \<noteq> Finished \<and> l' = l"
  by (auto simp: nextMsg_def consumed split: if_splits list.splits)

end
