(* ===== verification/Relay.thy ===== *)
theory Relay
  imports Signalling_Safety "HOL-Library.Sublist"
begin

text \<open>
  The signalling server as a relay. The transcript of a run lists every frame that was put into a
  queue, with the connection it came from and the one it went to; what arrives and what is
  delivered are compared with it, connection by connection and in order.
\<close>

section \<open>Transcripts\<close>

definition relayed ::
  "ServerConfig \<Rightarrow> server \<Rightarrow> event \<Rightarrow> (ConnectionId \<times> ConnectionId \<times> Message) list" where
  "relayed cfg s ev =
     (case ev of
        ForwardStep c \<Rightarrow>
          (case sv_conns s c of
             Some cn \<Rightarrow>
               (case cn_listen cn of
                  Sending (Handler d) m \<Rightarrow>
                    (case sv_conns s d of
                       Some dn \<Rightarrow>
                         if cn_egress dn = EgressDone \<or> length (cn_queue dn) \<ge> send_buffer_limit cfg
                         then [] else [(c, d, m)]
                     | None \<Rightarrow> [])
                | _ \<Rightarrow> [])
           | None \<Rightarrow> [])
      | _ \<Rightarrow> [])"

fun transcript ::
  "(string \<Rightarrow> json WireMsg option) \<Rightarrow> ServerConfig \<Rightarrow> server \<Rightarrow> event list
     \<Rightarrow> (ConnectionId \<times> ConnectionId \<times> Message) list" where
  "transcript decode cfg s [] = []"
| "transcript decode cfg s (ev # evs) =
     relayed cfg s ev @ transcript decode cfg (server_step decode cfg s ev) evs"

definition sent_by :: "ConnectionId \<Rightarrow> (ConnectionId \<times> ConnectionId \<times> Message) list \<Rightarrow> Message list" where
  "sent_by c ts = map (\<lambda>(a, b, m). m) (filter (\<lambda>(a, b, m). a = c) ts)"

definition sent_to :: "ConnectionId \<Rightarrow> (ConnectionId \<times> ConnectionId \<times> Message) list \<Rightarrow> Message list" where
  "sent_to d ts = map (\<lambda>(a, b, m). m) (filter (\<lambda>(a, b, m). b = d) ts)"

definition arrived_from :: "ConnectionId \<Rightarrow> event list \<Rightarrow> Message list" where
  "arrived_from c evs =
     concat (map (\<lambda>ev. case ev of Incoming k now m \<Rightarrow> if k = c then [m] else [] | _ \<Rightarrow> []) evs)"

text \<open>The frame a listen task holds, and the frames of a connection's queue and socket.\<close>

definition hold :: "connection \<Rightarrow> Message list" where
  "hold cn = (case cn_listen cn of Sending h m \<Rightarrow> [m] | _ \<Rightarrow> [])"

definition held :: "server \<Rightarrow> ConnectionId \<Rightarrow> Message list" where
  "held s c = (case sv_conns s c of Some cn \<Rightarrow> hold cn | None \<Rightarrow> [])"

definition box :: "server \<Rightarrow> ConnectionId \<Rightarrow> Message list" where
  "box s c = (case sv_conns s c of Some cn \<Rightarrow> cn_written cn @ cn_queue cn | None \<Rightarrow> [])"

lemma put_views [simp]:
  "held (put_conn c cn s) k = (if k = c then hold cn else held s k)"
  "box (put_conn c cn s) k = (if k = c then cn_written cn @ cn_queue cn else box s k)"
  by (simp_all add: held_def box_def)

lemma metrics_views [simp]:
  "held (on_metrics f s) k = held s k" "box (on_metrics f s) k = box s k"
  by (simp_all add: held_def box_def)

lemma state_views [simp]:
  "held (s\<lparr>sv_state := st\<rparr>) k = held s k" "box (s\<lparr>sv_state := st\<rparr>) k = box s k"
  "held (s\<lparr>sv_next := n\<rparr>) k = held s k" "box (s\<lparr>sv_next := n\<rparr>) k = box s k"
  by (simp_all add: held_def box_def)

lemma transcript_views [simp]:
  "sent_by c [] = []" "sent_to d [] = []" "arrived_from c [] = []"
  "sent_by c (ts @ us) = sent_by c ts @ sent_by c us"
  "sent_to d (ts @ us) = sent_to d ts @ sent_to d us"
  by (simp_all add: sent_by_def sent_to_def arrived_from_def)

lemma arrived_from_Cons: "arrived_from c (ev # evs) = arrived_from c [ev] @ arrived_from c evs"
  by (simp add: arrived_from_def)

section \<open>One step\<close>

text \<open>A step loses frames, or moves them on; it does not make any.\<close>

definition moves_on ::
  "(ConnectionId \<times> ConnectionId \<times> Message) list \<Rightarrow> event list \<Rightarrow> server \<Rightarrow> server \<Rightarrow> bool" where
  "moves_on ts evs s s' \<longleftrightarrow>
     (\<forall>c. subseq (sent_by c ts @ held s' c) (held s c @ arrived_from c evs))
   \<and> (\<forall>d. subseq (box s' d) (box s d @ sent_to d ts))"

lemma subseq_appended: "subseq xs ys \<Longrightarrow> subseq xs (ys @ zs)"
  using list_emb_append_mono [of "(=)" xs ys "[]" zs] by simp

lemma moves_onI:
  assumes "\<And>c. subseq (held s' c) (held s c)" and "\<And>d. subseq (box s' d) (box s d)"
  shows "moves_on [] evs s s'"
  unfolding moves_on_def
proof (intro conjI allI)
  show "subseq (sent_by c [] @ held s' c) (held s c @ arrived_from c evs)" for c
    using subseq_appended [OF assms(1) [of c]] by simp
  show "subseq (box s' d) (box s d @ sent_to d [])" for d using assms(2) by simp
qed

text \<open>A step of one connection.\<close>

lemma moves_on_conn:
  assumes "\<And>cn. sv_conns s c = Some cn \<Longrightarrow> enabled cn \<Longrightarrow>
     subseq (hold (f cn)) (hold cn)
     \<and> subseq (cn_written (f cn) @ cn_queue (f cn)) (cn_written cn @ cn_queue cn)"
  shows "moves_on [] evs s (with_conn c enabled (\<lambda>cn. put_conn c (f cn)) s)"
proof (rule moves_onI)
  show "subseq (held (with_conn c enabled (\<lambda>cn. put_conn c (f cn)) s) k) (held s k)" for k
    using assms by (auto simp: with_conn_def held_def split: option.split)
  show "subseq (box (with_conn c enabled (\<lambda>cn. put_conn c (f cn)) s) k) (box s k)" for k
    using assms by (auto simp: with_conn_def box_def split: option.split)
qed

lemma subseq_drop_one: "subseq (xs @ ys) (xs @ m # ys)"
  by (rule list_emb_append_mono) auto

lemma process_keeps:
  assumes "process decode now c cn msg s = (r, cn', s')"
  shows "cn_listen cn' = cn_listen cn" "cn_written cn' = cn_written cn" "cn_queue cn' = cn_queue cn"
    "held s' = held s" "box s' = box s"
  by (rule process_cases [OF assms]; simp add: fun_eq_iff)+

lemma receive_shape:
  assumes "cn_listen cn = Listening"
  obtains cn' s' where "receive decode now c cn msg s = put_conn c cn' s'"
    "cn_written cn' = cn_written cn" "cn_queue cn' = cn_queue cn" "hold cn' = [] \<or> hold cn' = [msg]"
    "held s' = held s" "box s' = box s"
proof -
  obtain r cn1 s1 where p: "process decode now c cn msg s = (r, cn1, s1)" by (rule prod_cases3)
  note keeps = process_keeps [OF p]
  consider "is_close msg" | e where "\<not> is_close msg" "r = Inl e" | "\<not> is_close msg" "r = Inr None"
    | h where "\<not> is_close msg" "r = Inr (Some h)"
    by (metis sum.exhaust option.exhaust)
  then show ?thesis
  proof cases
    case 1
    show ?thesis
      by (rule that [of "end_listening cn" s]) (simp_all add: receive_def 1 end_listening_def hold_def)
  next
    case 2
    show ?thesis
      by (rule that [of "end_listening cn1" s1])
        (simp_all add: receive_def 2 p keeps end_listening_def hold_def)
  next
    case 3
    show ?thesis
      by (rule that [of cn1 s1]) (simp_all add: receive_def 3 p keeps hold_def assms)
  next
    case 4
    show ?thesis
      by (rule that [of "cn1\<lparr>cn_listen := Sending h msg\<rparr>" s1])
        (simp_all add: receive_def 4 p keeps hold_def)
  qed
qed

lemma receive_moves:
  assumes "sv_conns s c = Some cn" and "cn_listen cn = Listening"
  shows "moves_on [] [Incoming c now msg] s (receive decode now c cn msg s)"
proof -
  obtain cn' s' where r: "receive decode now c cn msg s = put_conn c cn' s'"
    "cn_written cn' = cn_written cn" "cn_queue cn' = cn_queue cn" "hold cn' = [] \<or> hold cn' = [msg]"
    "held s' = held s" "box s' = box s"
    using receive_shape [OF assms(2)] .
  have old: "held s c = []" "box s c = cn_written cn @ cn_queue cn"
    using assms by (simp_all add: held_def box_def hold_def)
  have "subseq (held (put_conn c cn' s') k) (held s k @ arrived_from k [Incoming c now msg])" for k
    using r(4) by (cases "k = c") (auto simp add: r(5) old(1) arrived_from_def)
  moreover have "box (put_conn c cn' s') k = box s k" for k
    by (simp add: r(2,3,6) old(2))
  ultimately show ?thesis unfolding r(1) by (simp add: moves_on_def)
qed

lemma forward_moves:
  assumes ok: "server_ok decode cfg s" and c: "sv_conns s c = Some cn"
    and h: "cn_listen cn = Sending (Handler d) m"
  shows "moves_on (relayed cfg s (ForwardStep c)) [] s (forward cfg c cn d m s)"
proof -
  have "d \<noteq> c" using sending_okD [OF ok c h] by blast
  have c': "held s c = [m]" "box s c = cn_written cn @ cn_queue cn"
    using c h by (simp_all add: held_def box_def hold_def)
  have ended: "moves_on [] [] s (put_conn c (end_listening cn) s)"
    by (rule moves_onI) (use c' in \<open>simp_all add: end_listening_def hold_def\<close>)
  show ?thesis
  proof (cases "sv_conns s d")
    case None
    then show ?thesis using ended c h by (simp add: forward_def relayed_def)
  next
    case (Some dn)
    show ?thesis
    proof (cases "cn_egress dn = EgressDone \<or> length (cn_queue dn) \<ge> send_buffer_limit cfg")
      case True
      then show ?thesis using ended c h Some by (simp add: forward_def relayed_def)
    next
      case False
      let ?c = "cn\<lparr>cn_listen := Listening, cn_forwarded := cn_forwarded cn + 1\<rparr>"
      let ?d = "dn\<lparr>cn_queue := cn_queue dn @ [m]\<rparr>"
      have d': "held s d = hold dn" "box s d = cn_written dn @ cn_queue dn"
        using Some by (simp_all add: held_def box_def)
      have "forward cfg c cn d m s = on_metrics record_forwarded (put_conn c ?c (put_conn d ?d s))"
        and r: "relayed cfg s (ForwardStep c) = [(c, d, m)]"
        using Some False c h by (simp_all add: forward_def relayed_def)
      moreover have "hold ?c = []" "hold ?d = hold dn" by (simp_all add: hold_def)
      ultimately show ?thesis
        using \<open>d \<noteq> c\<close> c' d' by (auto simp: moves_on_def sent_by_def sent_to_def)
    qed
  qed
qed

lemma accepted_moves:
  assumes "server_ok decode cfg s"
  shows "moves_on [] evs s (server_step decode cfg s (Accepted now))"
proof (rule moves_onI)
  have fresh: "sv_conns s (sv_next s) = None"
    using assms by (cases "sv_conns s (sv_next s)") (auto simp: server_ok_def conns_ok_def)
  show "subseq (held (server_step decode cfg s (Accepted now)) c) (held s c)" for c
    by (simp add: new_connection_def hold_def)
  show "subseq (box (server_step decode cfg s (Accepted now)) d) (box s d)" for d
    by (simp add: new_connection_def)
qed

lemma moves_on_refl: "moves_on [] evs s s"
  by (rule moves_onI) simp_all

lemma server_step_moves:
  assumes ok: "server_ok decode cfg s"
  shows "moves_on (relayed cfg s ev) [ev] s (server_step decode cfg s ev)"
proof -
  have other: "relayed cfg s ev = []" if "\<forall>c. ev \<noteq> ForwardStep c"
    using that by (cases ev) (simp_all add: relayed_def)
  note one = moves_on_conn [where s = s]
  show ?thesis
  proof (cases ev)
    case (Accepted now)
    then show ?thesis using other accepted_moves [OF ok] by simp
  next
    case HandshakeFailed
    then show ?thesis using other by (simp add: moves_on_def subseq_appended)
  next
    case (Recorded c)
    then show ?thesis
      using other
      by (auto simp: with_conn_def moves_on_refl held_def box_def hold_def
          intro!: moves_onI split: option.split)
  next
    case (Incoming c now msg)
    then show ?thesis
      using other receive_moves by (auto simp: with_conn_def moves_on_refl split: option.split)
  next
    case (ForwardStep c)
    show ?thesis
    proof (cases "\<exists>cn d m. sv_conns s c = Some cn \<and> cn_listen cn = Sending (Handler d) m")
      case True
      then obtain cn d m where c: "sv_conns s c = Some cn" "cn_listen cn = Sending (Handler d) m"
        by blast
      have "arrived_from k [ForwardStep c] = []" for k by (simp add: arrived_from_def)
      then show ?thesis
        using forward_moves [OF ok c] c ForwardStep by (simp add: with_conn_def moves_on_def)
    next
      case False
      then have "server_step decode cfg s ev = s" "relayed cfg s ev = []"
        using ForwardStep
        by (auto simp: with_conn_def relayed_def
            split: option.split listen_state.split ConnectionHandler.split)
      then show ?thesis by (simp add: moves_on_refl)
    qed
  next
    case (ReadEnd c)
    then show ?thesis unfolding ReadEnd server_step.simps
      by (auto simp: relayed_def hold_def end_listening_def intro!: one)
  next
    case (ListenCancelled c)
    then show ?thesis unfolding ListenCancelled server_step.simps
      by (auto simp: relayed_def hold_def end_listening_def intro!: one)
  next
    case (EgressSend c sent)
    have "subseq (hold (egress_send sent cn)) (hold cn)
        \<and> subseq (cn_written (egress_send sent cn) @ cn_queue (egress_send sent cn))
            (cn_written cn @ cn_queue cn)" for cn
      by (auto simp: egress_send_def hold_def subseq_drop_one split: list.split)
    then show ?thesis unfolding EgressSend server_step.simps
      by (auto simp: relayed_def intro!: one)
  next
    case (EgressCancelled c)
    then show ?thesis unfolding EgressCancelled server_step.simps
      by (auto simp: relayed_def hold_def intro!: one)
  next
    case (EgressClosed c)
    then show ?thesis unfolding EgressClosed server_step.simps
      by (auto simp: relayed_def hold_def intro!: one)
  next
    case (IdleTimer c)
    have "hold (idle_timer cn) = hold cn \<and> cn_written (idle_timer cn) = cn_written cn
        \<and> cn_queue (idle_timer cn) = cn_queue cn" for cn
      by (simp add: idle_timer_def hold_def split: idle_state.split)
    then show ?thesis unfolding IdleTimer server_step.simps
      by (auto simp: relayed_def intro!: one)
  next
    case (IdleCancelled c)
    then show ?thesis unfolding IdleCancelled server_step.simps
      by (auto simp: relayed_def hold_def intro!: one)
  next
    case (Cleanup c)
    then show ?thesis
      using other
      by (auto simp: with_conn_def cleanup_def moves_on_refl held_def box_def hold_def
          intro!: moves_onI split: option.split)
  qed
qed

section \<open>A whole run\<close>

lemma run_moves:
  "server_ok decode cfg s \<Longrightarrow>
   moves_on (transcript decode cfg s evs) evs s (foldl (server_step decode cfg) s evs)"
proof (induction evs arbitrary: s)
  case Nil
  then show ?case by (simp add: moves_on_refl)
next
  case (Cons ev evs)
  let ?s = "server_step decode cfg s ev" and ?t = "relayed cfg s ev"
  let ?s' = "foldl (server_step decode cfg) ?s evs" and ?ts = "transcript decode cfg ?s evs"
  have one: "moves_on ?t [ev] s ?s" by (rule server_step_moves [OF Cons.prems])
  have rest: "moves_on ?ts evs ?s ?s'" by (rule Cons.IH) (rule server_step_ok [OF Cons.prems])
  have "subseq (sent_by c ?t @ sent_by c ?ts @ held ?s' c) (held s c @ arrived_from c (ev # evs))" for c
  proof -
    have "subseq (sent_by c ?t @ sent_by c ?ts @ held ?s' c) (sent_by c ?t @ held ?s c @ arrived_from c evs)"
      by (rule list_emb_append_mono) (use rest in \<open>simp_all add: moves_on_def\<close>)
    moreover have "subseq ((sent_by c ?t @ held ?s c) @ arrived_from c evs)
        ((held s c @ arrived_from c [ev]) @ arrived_from c evs)"
      by (rule list_emb_append_mono) (use one in \<open>simp_all add: moves_on_def\<close>)
    ultimately have "subseq (sent_by c ?t @ sent_by c ?ts @ held ?s' c)
        ((held s c @ arrived_from c [ev]) @ arrived_from c evs)"
      by (metis append.assoc subseq_order.trans)
    then show ?thesis by (simp add: arrived_from_Cons [of c ev evs])
  qed
  moreover have "subseq (box ?s' d) (box s d @ sent_to d ?t @ sent_to d ?ts)" for d
  proof -
    have "subseq (box ?s' d) (box ?s d @ sent_to d ?ts)" using rest by (simp add: moves_on_def)
    moreover have "subseq (box ?s d @ sent_to d ?ts) ((box s d @ sent_to d ?t) @ sent_to d ?ts)"
      by (rule list_emb_append_mono) (use one in \<open>simp_all add: moves_on_def\<close>)
    ultimately have "subseq (box ?s' d) ((box s d @ sent_to d ?t) @ sent_to d ?ts)"
      by (rule subseq_order.trans)
    then show ?thesis by simp
  qed
  ultimately show ?case by (simp add: moves_on_def)
qed

text \<open>A connection keeps the tag it is branded with.\<close>

lemma brand_conn:
  assumes "server_ok decode cfg s" and "brand s k = Some t"
    and "\<And>cn. enabled cn \<Longrightarrow> conn_ok decode cfg cn \<Longrightarrow> local_change cn (f cn)"
  shows "brand (with_conn c enabled (\<lambda>cn. put_conn c (f cn)) s) k = Some t"
  using assms(2) assms(3) server_ok_conn [OF assms(1)] brand_mono [where s = s and k = k]
  by (auto simp: with_conn_def split: option.split)

lemma brand_state [simp]: "brand (s\<lparr>sv_state := st\<rparr>) = brand s" "brand (s\<lparr>sv_next := n\<rparr>) = brand s"
  by (rule brand_cong, simp)+

lemma brand_iff:
  "brand s k = Some t \<longleftrightarrow> (\<exists>cn. sv_conns s k = Some cn \<and> rl_tag (cn_limiter cn) = Some t)"
  by (simp add: brand_def split: option.split)

lemma brand_receive:
  assumes "sv_conns s c = Some cn" and "brand s k = Some t"
  shows "brand (receive decode now c cn msg s) k = Some t"
proof -
  obtain r cn1 s1 where p: "process decode now c cn msg s = (r, cn1, s1)" by (rule prod_cases3)
  have s1: "brand s1 = brand s" by (rule process_cases [OF p]) simp_all
  have "limiter_step (cn_limiter cn) (cn_limiter cn1)" by (rule process_cases [OF p]) simp_all
  then have tag: "k = c \<Longrightarrow> rl_tag (cn_limiter cn1) = Some t"
    using assms by (auto simp: brand_def limiter_step_def)
  have "k = c \<Longrightarrow> rl_tag (cn_limiter cn) = Some t" using assms by (simp add: brand_def)
  then show ?thesis
    using assms(2) s1 tag p
    by (auto simp: receive_def brand_put_conn end_listening_def split: sum.split option.split)
qed

lemma brand_forward:
  assumes "sv_conns s c = Some cn" and "brand s k = Some t"
  shows "brand (forward cfg c cn d msg s) k = Some t"
  using assms
  by (auto simp: forward_def brand_iff end_listening_def split: option.split)

lemma brand_step:
  assumes ok: "server_ok decode cfg s" and k: "brand s k = Some t"
  shows "brand (server_step decode cfg s ev) k = Some t"
proof (cases ev)
  case (Accepted now)
  have "sv_conns s (sv_next s) = None"
    using ok by (cases "sv_conns s (sv_next s)") (auto simp: server_ok_def conns_ok_def)
  then have "k \<noteq> sv_next s" using k by (auto simp: brand_def)
  then show ?thesis using k Accepted by (simp add: brand_put_conn)
next
  case (Incoming c now msg)
  then show ?thesis using k brand_receive by (auto simp: with_conn_def split: option.split)
next
  case (ForwardStep c)
  then show ?thesis
    using k brand_forward
    by (auto simp: with_conn_def split: option.split listen_state.split ConnectionHandler.split)
next
  case (Recorded c)
  then show ?thesis using k
    by (auto simp: with_conn_def brand_iff split: option.split)
next
  case (Cleanup c)
  then show ?thesis using k
    by (auto simp: with_conn_def cleanup_def brand_iff split: option.split)
next
  case (EgressSend c sent)
  then show ?thesis by (auto intro!: brand_conn [OF ok k] dest: egress_send_ok)
next
  case (IdleTimer c)
  then show ?thesis by (auto intro!: brand_conn [OF ok k] dest: idle_timer_ok)
qed (use k in \<open>auto intro!: brand_conn [OF ok k] dest: end_listening_ok flag_change_ok\<close>)

text \<open>The two ends of a transcript's entry are different connections of one room.\<close>

definition entry_ok ::
  "(string \<Rightarrow> json WireMsg option) \<Rightarrow> server \<Rightarrow> ConnectionId \<times> ConnectionId \<times> Message \<Rightarrow> bool" where
  "entry_ok decode s = (\<lambda>(a, b, m).
     a \<noteq> b \<and> (\<exists>t. carries decode m t \<and> brand s a = Some t \<and> brand s b = Some t))"

lemma entry_ok_step:
  "server_ok decode cfg s \<Longrightarrow> entry_ok decode s e \<Longrightarrow> entry_ok decode (server_step decode cfg s ev) e"
  using brand_step by (fastforce simp: entry_ok_def)

lemma relayed_ok:
  assumes "server_ok decode cfg s" and "e \<in> set (relayed cfg s ev)"
  shows "entry_ok decode s e"
proof -
  have "\<exists>c cn d m. sv_conns s c = Some cn \<and> cn_listen cn = Sending (Handler d) m \<and> e = (c, d, m)"
    using assms(2)
    by (auto simp: relayed_def split: event.splits option.splits listen_state.splits
        ConnectionHandler.splits if_splits) (metis)
  then obtain c cn d m where "sv_conns s c = Some cn" "cn_listen cn = Sending (Handler d) m" "e = (c, d, m)"
    by blast
  then show ?thesis using sending_okD [OF assms(1)] by (fastforce simp: entry_ok_def)
qed

lemma run_keeps_entry:
  "server_ok decode cfg s \<Longrightarrow> entry_ok decode s e \<Longrightarrow>
   entry_ok decode (foldl (server_step decode cfg) s evs) e"
  by (induction evs arbitrary: s) (simp_all add: entry_ok_step server_step_ok)

lemma transcript_ok:
  "server_ok decode cfg s \<Longrightarrow> e \<in> set (transcript decode cfg s evs) \<Longrightarrow>
   entry_ok decode (foldl (server_step decode cfg) s evs) e"
proof (induction evs arbitrary: s)
  case (Cons ev evs)
  have ok: "server_ok decode cfg (server_step decode cfg s ev)" by (rule server_step_ok [OF Cons.prems(1)])
  show ?case
  proof (cases "e \<in> set (relayed cfg s ev)")
    case True
    have "entry_ok decode (server_step decode cfg s ev) e"
      by (rule entry_ok_step [OF Cons.prems(1) relayed_ok [OF Cons.prems(1) True]])
    then show ?thesis using run_keeps_entry [OF ok] by simp
  next
    case False
    then show ?thesis using Cons.IH [OF ok] Cons.prems(2) by simp
  qed
qed simp

text \<open>C9: The server relays; it neither invents nor repeats nor reorders. In every run, what has been put
  into queues for a connection's frames is, sender by sender, a subsequence of what arrived from that
  sender, what a connection is delivered is a subsequence of what was put into its queue, and every
  frame went from one connection to another that carries the same routing tag as the frame.\<close>

theorem server_is_a_relay:
  "let s = server_run decode cfg evs; ts = transcript decode cfg empty_server evs in
     subseq (sent_by c ts) (arrived_from c evs)
   \<and> subseq (box s d) (sent_to d ts)
   \<and> list_all (entry_ok decode s) ts"
proof -
  let ?s = "server_run decode cfg evs" and ?ts = "transcript decode cfg empty_server evs"
  have m: "moves_on ?ts evs empty_server ?s"
    using run_moves [OF empty_server_ok] by (simp add: server_run_def)
  have empty: "held empty_server c = []" "box empty_server d = []"
    by (simp_all add: held_def box_def empty_server_def)
  have "subseq (sent_by c ?ts @ held ?s c) (arrived_from c evs)"
    using m empty by (simp add: moves_on_def) (metis append_Nil)
  moreover have "subseq (sent_by c ?ts) (sent_by c ?ts @ held ?s c)"
    by (rule prefix_imp_subseq) simp
  ultimately have "subseq (sent_by c ?ts) (arrived_from c evs)" by (rule subseq_order.trans [rotated])
  moreover have "subseq (box ?s d) (sent_to d ?ts)"
    using m empty by (simp add: moves_on_def) (metis append_Nil)
  moreover have "list_all (entry_ok decode ?s) ?ts"
    using transcript_ok [OF empty_server_ok] by (simp add: list_all_iff server_run_def)
  ultimately show ?thesis by (simp add: Let_def)
qed

end
