(* ===== verification/End_To_End.thy ===== *)
theory End_To_End
  imports Relay Network_Properties
begin

text \<open>
  The transport through the signalling server: a sender and a receiver of \<open>Transport\<close>, each on one
  connection of the server of \<open>Signalling\<close>. What the sender transmits arrives at the server from its
  connection, and the receiver takes what the server has written to its own, as far as the server
  accepts, keeps, forwards and writes it; other connections do what they like.
\<close>

section \<open>The brand of a connection comes from its own frames\<close>

lemma try_brand_tag:
  "try_brand_rtt_tag tag l = (r, l') \<Longrightarrow> rl_tag l' = rl_tag l \<or> rl_tag l' = Some tag"
  by (auto simp: try_brand_rtt_tag_def split: option.splits if_splits)

lemma limit_tags:
  "rate_limit_by_time now l = (r, l') \<Longrightarrow> rl_tag l' = rl_tag l"
  "limit_messages l = (q, l'') \<Longrightarrow> rl_tag l'' = rl_tag l"
  by (auto simp: rate_limit_by_time_def limit_messages_def Let_def split: if_splits)

lemma process_tag:
  assumes "process decode now c cn msg s = (r, cn', s')"
  shows "sv_conns s' = sv_conns s \<and>
     (rl_tag (cn_limiter cn') = rl_tag (cn_limiter cn)
      \<or> (\<exists>p. parse_incoming decode msg = Inr p \<and> rl_tag (cn_limiter cn') = Some (pm_rtt_tag p)))"
  using assms limit_tags try_brand_tag
  unfolding process_def Let_def
  by (auto split: prod.splits sum.splits) (metis | fastforce)+

lemma receive_brand:
  assumes "sv_conns s c = Some cn"
  shows "brand (receive decode now c cn msg s) k = brand s k
     \<or> k = c \<and> (\<exists>p. parse_incoming decode msg = Inr p
                \<and> brand (receive decode now c cn msg s) k = Some (pm_rtt_tag p))"
proof -
  obtain r cn1 s1 where p: "process decode now c cn msg s = (r, cn1, s1)" by (rule prod_cases3)
  note t = process_tag [OF p]
  then have "brand s1 = brand s" by (intro brand_cong) simp
  then show ?thesis
    using assms p t
    by (auto simp: receive_def brand_put_conn end_listening_def brand_def split: sum.split option.split)
qed

lemma brand_same_limiter:
  assumes "\<And>cn. sv_conns s c = Some cn \<Longrightarrow> enabled cn \<Longrightarrow> cn_limiter (f cn) = cn_limiter cn"
  shows "brand (with_conn c enabled (\<lambda>cn. put_conn c (f cn)) s) k = brand s k"
  using assms by (auto simp: with_conn_def brand_def split: option.split)

lemma brand_step_origin:
  assumes ok: "server_ok decode cfg s"
  shows "brand (server_step decode cfg s ev) k = brand s k
     \<or> (\<exists>now msg p. ev = Incoming k now msg \<and> parse_incoming decode msg = Inr p
          \<and> brand (server_step decode cfg s ev) k = Some (pm_rtt_tag p))"
proof (cases ev)
  case (Accepted now)
  have "sv_conns s (sv_next s) = None"
    using ok by (cases "sv_conns s (sv_next s)") (auto simp: server_ok_def conns_ok_def)
  then have "brand s (sv_next s) = None" by (simp add: brand_def)
  then show ?thesis using Accepted by (simp add: brand_put_conn new_connection_def new_limiter_def)
next
  case (Incoming c now msg)
  show ?thesis
  proof (cases "\<exists>cn. sv_conns s c = Some cn \<and> cn_listen cn = Listening")
    case True
    then obtain cn where cn: "sv_conns s c = Some cn" "cn_listen cn = Listening" by blast
    then have "server_step decode cfg s ev = receive decode now c cn msg s"
      using Incoming by (simp add: with_conn_def)
    then show ?thesis using receive_brand [OF cn(1), of decode now msg k] Incoming by auto
  next
    case False
    then show ?thesis using Incoming by (auto simp: with_conn_def split: option.split)
  qed
next
  case (ForwardStep c)
  have "brand (forward cfg c cn d m s) k = brand s k" if "sv_conns s c = Some cn" for cn d m
    using that by (auto simp: forward_def brand_def end_listening_def split: option.split)
  then show ?thesis using ForwardStep
    by (auto simp: with_conn_def split: option.split listen_state.split ConnectionHandler.split)
next
  case (Recorded c)
  then show ?thesis by (auto simp: with_conn_def brand_def split: option.split)
next
  case (Cleanup c)
  then show ?thesis by (auto simp: with_conn_def cleanup_def brand_def split: option.split)
qed (auto simp: end_listening_def egress_send_def idle_timer_def
    intro!: brand_same_limiter split: list.split idle_state.split)

section \<open>The two ends and the server between them\<close>

text \<open>\<open>ee_seen\<close> and \<open>ee_back\<close>: how many of the frames written to its connection each end has taken.\<close>

record 't path =
  ee_server :: server
  ee_link :: "'t link"
  ee_seen :: nat
  ee_back :: nat

datatype path_event =
    ServerDoes event
  | BeginsSend
  | Transmits nat
  | TransmitLost
  | Receives
  | Acknowledges nat
  | AckReceived

text \<open>
  \<open>a\<close> is the sender's connection, \<open>b\<close> the receiver's; \<open>encode\<close> and \<open>decoder\<close> are those of the handlers.
  The receiver's callback and the sender's wait for the acknowledgement are those of \<open>Transport\<close>.
\<close>

definition ack_received :: "'t TransportMsg \<Rightarrow> 't link \<Rightarrow> 't link" where
  "ack_received m k =
     (case lk_current k of
        None \<Rightarrow> k
      | Some cur \<Rightarrow>
          (case wait_ack (sn_of cur) [m] of
             Some rest \<Rightarrow> k\<lparr>lk_current := None, lk_done := lk_done k @ payload_of cur\<rparr>
           | None \<Rightarrow> k))"

definition written_to :: "server \<Rightarrow> ConnectionId \<Rightarrow> Message list" where
  "written_to s c = (case sv_conns s c of Some cn \<Rightarrow> cn_written cn | None \<Rightarrow> [])"

fun path_step ::
  "(string \<Rightarrow> json WireMsg option) \<Rightarrow> ServerConfig \<Rightarrow> ('t TransportMsg \<Rightarrow> Message)
     \<Rightarrow> (Message \<Rightarrow> string + 't TransportMsg) \<Rightarrow> ConnectionId \<Rightarrow> ConnectionId
     \<Rightarrow> 't path \<Rightarrow> path_event \<Rightarrow> 't path" where
  "path_step decode cfg encode decoder a b w (ServerDoes ev) =
     w\<lparr>ee_server := server_step decode cfg (ee_server w) ev\<rparr>"
| "path_step decode cfg encode decoder a b w BeginsSend =
     w\<lparr>ee_link := link_step (ee_link w) BeginSend\<rparr>"
| "path_step decode cfg encode decoder a b w (Transmits now) =
     (case lk_current (ee_link w) of
        None \<Rightarrow> w
      | Some m \<Rightarrow>
          w\<lparr>ee_server := server_step decode cfg (ee_server w) (Incoming a now (encode m)),
            ee_link := link_step (ee_link w) Transmit\<rparr>)"
| "path_step decode cfg encode decoder a b w TransmitLost =
     w\<lparr>ee_link := link_step (ee_link w) Transmit\<rparr>"
| "path_step decode cfg encode decoder a b w Receives =
     (let ms = written_to (ee_server w) b in
      if ee_seen w < length ms
      then w\<lparr>ee_seen := ee_seen w + 1,
             ee_link := (ee_link w)\<lparr>lk_receiver :=
               ws_node_handle decoder (ms ! ee_seen w) (lk_receiver (ee_link w))\<rparr>\<rparr>
      else w)"
| "path_step decode cfg encode decoder a b w (Acknowledges now) =
     (case rx_acks (lk_receiver (ee_link w)) of
        [] \<Rightarrow> w
      | m # ms \<Rightarrow>
          w\<lparr>ee_server := server_step decode cfg (ee_server w) (Incoming b now (encode m)),
            ee_link := link_step (ee_link w) SendAck\<rparr>)"
| "path_step decode cfg encode decoder a b w AckReceived =
     (let ms = written_to (ee_server w) a in
      if ee_back w < length ms
      then w\<lparr>ee_back := ee_back w + 1,
             ee_link := (case decoder (ms ! ee_back w) of
                           Inr m \<Rightarrow> ack_received m (ee_link w) | Inl e \<Rightarrow> ee_link w)\<rparr>
      else w)"

definition new_path :: "string \<Rightarrow> 't list \<Rightarrow> 't path" where
  "new_path uuid ps =
     \<lparr>ee_server = empty_server, ee_link = new_link uuid ps, ee_seen = 0, ee_back = 0\<rparr>"

text \<open>
  The handlers' frames carry the tag \<open>t\<close> and are read back as they were written; any other frame that
  arrives from \<open>a\<close> or \<open>b\<close> is a registration under that tag, and no other connection sends a frame
  with a payload under it: the tag is the secret of the two.
\<close>

definition frames_ok ::
  "(string \<Rightarrow> json WireMsg option) \<Rightarrow> ('t TransportMsg \<Rightarrow> Message) \<Rightarrow> (Message \<Rightarrow> string + 't TransportMsg)
     \<Rightarrow> string \<Rightarrow> bool" where
  "frames_ok decode encode decoder t \<longleftrightarrow> (\<forall>m. carries decode (encode m) t \<and> decoder (encode m) = Inr m)"

definition permitted ::
  "(string \<Rightarrow> json WireMsg option) \<Rightarrow> string \<Rightarrow> ConnectionId \<Rightarrow> ConnectionId \<Rightarrow> path_event \<Rightarrow> bool" where
  "permitted decode t a b ev =
     (case ev of
        ServerDoes (Incoming c now m) \<Rightarrow>
          if c = a \<or> c = b then parse_incoming decode m = Inr \<lparr>pm_rtt_tag = t, pm_has_payload = False\<rparr>
          else \<not> carries decode m t
      | _ \<Rightarrow> True)"

section \<open>The server between the two\<close>

text \<open>
  \<open>F\<close> are the frames of the sender and \<open>G\<close> those of the receiver: nothing else is on its way under the
  tag, and nothing else reaches the other one's connection.
\<close>

definition between ::
  "(string \<Rightarrow> json WireMsg option) \<Rightarrow> string \<Rightarrow> ConnectionId \<Rightarrow> ConnectionId \<Rightarrow> Message set \<Rightarrow> Message set
     \<Rightarrow> server \<Rightarrow> bool" where
  "between decode t a b F G s \<longleftrightarrow>
     (brand s a = None \<or> brand s a = Some t) \<and> (brand s b = None \<or> brand s b = Some t)
   \<and> (\<forall>c. \<forall>m \<in> set (held s c). carries decode m t \<longrightarrow> c = a \<and> m \<in> F \<or> c = b \<and> m \<in> G)
   \<and> set (box s b) \<subseteq> F \<and> set (box s a) \<subseteq> G"

lemma between_mono: "between decode t a b F G s \<Longrightarrow> F \<subseteq> F' \<Longrightarrow> G \<subseteq> G' \<Longrightarrow> between decode t a b F' G' s"
  unfolding between_def by blast

lemma between_empty: "between decode t a b {} {} empty_server"
  by (simp add: between_def brand_def held_def box_def empty_server_def)

definition arrival_ok ::
  "(string \<Rightarrow> json WireMsg option) \<Rightarrow> string \<Rightarrow> ConnectionId \<Rightarrow> ConnectionId \<Rightarrow> Message set \<Rightarrow> Message set
     \<Rightarrow> event \<Rightarrow> bool" where
  "arrival_ok decode t a b F G ev \<longleftrightarrow>
     (\<forall>c now m. ev = Incoming c now m \<longrightarrow>
        (c = a \<or> c = b \<longrightarrow> (\<exists>p. parse_incoming decode m = Inr p \<and> pm_rtt_tag p = t))
      \<and> (carries decode m t \<longrightarrow> c = a \<and> m \<in> F \<or> c = b \<and> m \<in> G))"

lemma relayed_held: "(c, d, m) \<in> set (relayed cfg s ev) \<Longrightarrow> m \<in> set (held s c)"
  by (auto simp: relayed_def held_def hold_def split: event.splits option.splits listen_state.splits
      ConnectionHandler.splits if_splits)

lemma sent_to_iff: "m \<in> set (sent_to d ts) \<longleftrightarrow> (\<exists>c. (c, d, m) \<in> set ts)"
  by (force simp: sent_to_def)

lemma subseq_member: "subseq xs ys \<Longrightarrow> m \<in> set xs \<Longrightarrow> m \<in> set ys"
  by (induction rule: list_emb.induct) auto

lemma box_grows:
  assumes ok: "server_ok decode cfg s" and bt: "between decode t a b F G s"
    and m: "m \<in> set (box (server_step decode cfg s ev) d)"
    and d: "brand s d = None \<or> brand s d = Some t"
  shows "m \<in> set (box s d) \<or> (d \<noteq> a \<and> m \<in> F) \<or> (d \<noteq> b \<and> m \<in> G)"
proof -
  have "subseq (box (server_step decode cfg s ev) d) (box s d @ sent_to d (relayed cfg s ev))"
    using server_step_moves [OF ok] by (simp add: moves_on_def)
  from subseq_member [OF this m] have "m \<in> set (box s d) \<or> m \<in> set (sent_to d (relayed cfg s ev))"
    by simp
  moreover have "(d \<noteq> a \<and> m \<in> F) \<or> (d \<noteq> b \<and> m \<in> G)" if sent: "m \<in> set (sent_to d (relayed cfg s ev))"
  proof -
    obtain c where c: "(c, d, m) \<in> set (relayed cfg s ev)" using sent by (auto simp: sent_to_iff)
    then have "entry_ok decode s (c, d, m)" by (rule relayed_ok [OF ok])
    then have "c \<noteq> d" "carries decode m t" using d by (auto simp: entry_ok_def)
    then show ?thesis using bt relayed_held [OF c] by (auto simp: between_def)
  qed
  ultimately show ?thesis by blast
qed

lemma held_grows:
  assumes ok: "server_ok decode cfg s" and m: "m \<in> set (held (server_step decode cfg s ev) c)"
  shows "m \<in> set (held s c) \<or> (\<exists>now. ev = Incoming c now m)"
proof -
  have "subseq (sent_by c (relayed cfg s ev) @ held (server_step decode cfg s ev) c)
      (held s c @ arrived_from c [ev])"
    using server_step_moves [OF ok] by (simp add: moves_on_def)
  from subseq_member [OF this, of m] have "m \<in> set (held s c) \<or> m \<in> set (arrived_from c [ev])"
    using m by auto
  then show ?thesis by (auto simp: arrived_from_def split: event.splits if_splits)
qed

lemma between_step:
  assumes ok: "server_ok decode cfg s" and bt: "between decode t a b F G s"
    and arrival: "arrival_ok decode t a b F G ev"
  shows "between decode t a b F G (server_step decode cfg s ev)"
proof -
  let ?s = "server_step decode cfg s ev"
  have brand: "brand ?s k = None \<or> brand ?s k = Some t"
    if "k = a \<or> k = b" "brand s k = None \<or> brand s k = Some t" for k
    using brand_step_origin [OF ok, of ev k] arrival that by (auto simp: arrival_ok_def)
  have "c = a \<and> m \<in> F \<or> c = b \<and> m \<in> G"
    if "m \<in> set (held ?s c)" "carries decode m t" for c m
    using held_grows [OF ok that(1)] bt arrival that(2) by (auto simp: between_def arrival_ok_def)
  moreover have "set (box ?s b) \<subseteq> F"
    using box_grows [OF ok bt, of _ ev b] bt unfolding between_def by blast
  moreover have "set (box ?s a) \<subseteq> G"
    using box_grows [OF ok bt, of _ ev a] bt unfolding between_def by blast
  ultimately show ?thesis using brand bt by (simp add: between_def)
qed

section \<open>The path refines the link\<close>

definition path_ok ::
  "(string \<Rightarrow> json WireMsg option) \<Rightarrow> ServerConfig \<Rightarrow> ('t TransportMsg \<Rightarrow> Message) \<Rightarrow> string
     \<Rightarrow> ConnectionId \<Rightarrow> ConnectionId \<Rightarrow> string \<Rightarrow> 't list \<Rightarrow> 't path \<Rightarrow> bool" where
  "path_ok decode cfg encode t a b uuid ps w \<longleftrightarrow>
     server_ok decode cfg (ee_server w)
   \<and> between decode t a b (encode ` set (lk_frames (ee_link w))) (encode ` set (lk_acks (ee_link w)))
       (ee_server w)
   \<and> link_inv uuid ps (ee_link w)"

lemma written_in_box: "set (written_to s c) \<subseteq> set (box s c)"
  by (auto simp: written_to_def box_def split: option.split)

text \<open>What an end takes from the server is, decoded, a frame of the other.\<close>

lemma taken_is_sent:
  assumes "frames_ok decode encode decoder t" and "i < length (written_to s c)"
    and "set (box s c) \<subseteq> encode ` set fs"
  shows "\<exists>m j. decoder (written_to s c ! i) = Inr m \<and> j < length fs \<and> fs ! j = m"
proof -
  have "written_to s c ! i \<in> encode ` set fs"
    using assms(2,3) written_in_box nth_mem by blast
  then obtain m where "m \<in> set fs" "written_to s c ! i = encode m" by blast
  then show ?thesis using assms(1) by (auto simp: frames_ok_def in_set_conv_nth)
qed

lemma link_frames_grow:
  "set (lk_frames k) \<subseteq> set (lk_frames (link_step k ev)) \<and> set (lk_acks k) \<subseteq> set (lk_acks (link_step k ev))"
  by (cases ev; auto simp: begin_send_def send_ack_def Let_def split: option.split list.split prod.split)+

text \<open>A step of the server between the two, when the link has moved on or not.\<close>

lemma path_ok_server:
  assumes ok: "path_ok decode cfg encode t a b uuid ps w" and small: "length ps < 2 ^ 32"
    and arrival: "arrival_ok decode t a b (encode ` set (lk_frames k)) (encode ` set (lk_acks k)) ev"
    and k: "k = ee_link w \<or> (\<exists>le. k = link_step (ee_link w) le)"
  shows "path_ok decode cfg encode t a b uuid ps
    (w\<lparr>ee_server := server_step decode cfg (ee_server w) ev, ee_link := k\<rparr>)"
proof -
  have server: "server_ok decode cfg (ee_server w)" and inv: "link_inv uuid ps (ee_link w)"
    and bt: "between decode t a b (encode ` set (lk_frames (ee_link w))) (encode ` set (lk_acks (ee_link w)))
       (ee_server w)"
    using ok by (simp_all add: path_ok_def)
  have "link_inv uuid ps k" using k inv link_step_inv [OF small inv] by auto
  moreover have grow: "set (lk_frames (ee_link w)) \<subseteq> set (lk_frames k)"
    "set (lk_acks (ee_link w)) \<subseteq> set (lk_acks k)"
    using k link_frames_grow [of "ee_link w"] by auto
  have "between decode t a b (encode ` set (lk_frames k)) (encode ` set (lk_acks k)) (ee_server w)"
    by (rule between_mono [OF bt]) (use grow in blast)+
  then have "between decode t a b (encode ` set (lk_frames k)) (encode ` set (lk_acks k))
      (server_step decode cfg (ee_server w) ev)"
    by (rule between_step [OF server _ arrival])
  ultimately show ?thesis using server_step_ok [OF server] by (simp add: path_ok_def)
qed

text \<open>A step of the link alone.\<close>

lemma path_ok_link:
  assumes ok: "path_ok decode cfg encode t a b uuid ps w" and small: "length ps < 2 ^ 32"
  shows "path_ok decode cfg encode t a b uuid ps (w\<lparr>ee_link := link_step (ee_link w) le\<rparr>)"
proof -
  have "between decode t a b (encode ` set (lk_frames (link_step (ee_link w) le)))
      (encode ` set (lk_acks (link_step (ee_link w) le))) (ee_server w)"
    by (rule between_mono) (use ok link_frames_grow [of "ee_link w" le] in \<open>auto simp: path_ok_def\<close>)
  then show ?thesis using ok link_step_inv [OF small] by (simp add: path_ok_def)
qed

lemma path_ok_counts:
  "path_ok decode cfg encode t a b uuid ps (w\<lparr>ee_seen := i, ee_link := k\<rparr>)
     = path_ok decode cfg encode t a b uuid ps (w\<lparr>ee_link := k\<rparr>)"
  "path_ok decode cfg encode t a b uuid ps (w\<lparr>ee_back := i, ee_link := k\<rparr>)
     = path_ok decode cfg encode t a b uuid ps (w\<lparr>ee_link := k\<rparr>)"
  by (simp_all add: path_ok_def)

lemma path_boxes:
  assumes "path_ok decode cfg encode t a b uuid ps w"
  shows "set (box (ee_server w) b) \<subseteq> encode ` set (lk_frames (ee_link w))"
    and "set (box (ee_server w) a) \<subseteq> encode ` set (lk_acks (ee_link w))"
  using assms by (simp_all add: path_ok_def between_def)

lemma path_step_ok:
  assumes ok: "path_ok decode cfg encode t a b uuid ps w" and small: "length ps < 2 ^ 32"
    and frames: "frames_ok decode encode decoder t" and allowed: "permitted decode t a b ev"
  shows "path_ok decode cfg encode t a b uuid ps (path_step decode cfg encode decoder a b w ev)"
proof (cases ev)
  case (ServerDoes e)
  have "arrival_ok decode t a b F G e" for F G
    using allowed ServerDoes
    by (auto simp: arrival_ok_def permitted_def carries_def split: event.splits if_splits)
  then show ?thesis
    using path_ok_server [OF ok small, of "ee_link w" e] ServerDoes by simp
next
  case BeginsSend
  then show ?thesis using path_ok_link [OF ok small, of BeginSend] by (simp del: link_step.simps)
next
  case (Transmits now)
  show ?thesis
  proof (cases "lk_current (ee_link w)")
    case (Some m)
    let ?k = "link_step (ee_link w) Transmit"
    have "encode m \<in> encode ` set (lk_frames ?k)" using Some by simp
    then have "arrival_ok decode t a b (encode ` set (lk_frames ?k)) (encode ` set (lk_acks ?k))
        (Incoming a now (encode m))"
      using frames by (auto simp: arrival_ok_def frames_ok_def carries_def)
    then show ?thesis using path_ok_server [OF ok small, of ?k "Incoming a now (encode m)"] Transmits Some
      by (auto simp del: link_step.simps server_step.simps)
  qed (use ok Transmits in simp)
next
  case TransmitLost
  then show ?thesis using path_ok_link [OF ok small, of Transmit] by (simp del: link_step.simps)
next
  case Receives
  show ?thesis
  proof (cases "ee_seen w < length (written_to (ee_server w) b)")
    case True
    obtain m j where m: "decoder (written_to (ee_server w) b ! ee_seen w) = Inr m"
      "j < length (lk_frames (ee_link w))" "lk_frames (ee_link w) ! j = m"
      using taken_is_sent [OF frames True path_boxes(1) [OF ok]] by blast
    then have "(ee_link w)\<lparr>lk_receiver := ws_node_handle decoder (written_to (ee_server w) b ! ee_seen w)
        (lk_receiver (ee_link w))\<rparr> = link_step (ee_link w) (FrameArrives j)"
      by (simp add: ws_node_handle_def)
    then show ?thesis
      using path_ok_link [OF ok small, of "FrameArrives j"] True Receives
      by (simp add: path_ok_counts Let_def del: link_step.simps)
  qed (use ok Receives in simp)
next
  case (Acknowledges now)
  show ?thesis
  proof (cases "rx_acks (lk_receiver (ee_link w))")
    case (Cons m ms)
    let ?k = "link_step (ee_link w) SendAck"
    have "encode m \<in> encode ` set (lk_acks ?k)" using Cons by (simp add: send_ack_def)
    then have "arrival_ok decode t a b (encode ` set (lk_frames ?k)) (encode ` set (lk_acks ?k))
        (Incoming b now (encode m))"
      using frames by (auto simp: arrival_ok_def frames_ok_def carries_def)
    then show ?thesis using path_ok_server [OF ok small, of ?k "Incoming b now (encode m)"] Acknowledges Cons
      by (auto simp del: link_step.simps server_step.simps)
  qed (use ok Acknowledges in simp)
next
  case AckReceived
  show ?thesis
  proof (cases "ee_back w < length (written_to (ee_server w) a)")
    case True
    obtain m j where m: "decoder (written_to (ee_server w) a ! ee_back w) = Inr m"
      "j < length (lk_acks (ee_link w))" "lk_acks (ee_link w) ! j = m"
      using taken_is_sent [OF frames True path_boxes(2) [OF ok]] by blast
    then have "ack_received m (ee_link w) = link_step (ee_link w) (AckArrives j)"
      unfolding m(3) [symmetric] by (simp add: ack_received_def)
    then show ?thesis
      using path_ok_link [OF ok small, of "AckArrives j"] True AckReceived m(1)
      by (simp add: path_ok_counts Let_def del: link_step.simps)
  qed (use ok AckReceived in simp)
qed

lemma path_run_ok:
  assumes "path_ok decode cfg encode t a b uuid ps w" and "length ps < 2 ^ 32"
    and "frames_ok decode encode decoder t" and "list_all (permitted decode t a b) evs"
  shows "path_ok decode cfg encode t a b uuid ps (foldl (path_step decode cfg encode decoder a b) w evs)"
  using assms by (induction evs arbitrary: w) (simp_all add: path_step_ok del: path_step.simps)

lemma new_path_ok:
  "path_ok decode cfg encode t a b uuid ps (new_path uuid ps)"
  using between_empty [of decode t a b] empty_server_ok [of decode cfg] link_inv_new [of uuid ps]
  by (simp add: path_ok_def new_path_def new_link_def)

section \<open>A concrete path\<close>

text \<open>Frames of booleans: a kind, the number in strokes, a bar and the node.\<close>

fun stroke_frame :: "bool TransportMsg \<Rightarrow> Message" where
  "stroke_frame (Normal sn u p) =
     Text ((if p then CHR ''T'' else CHR ''F'') # replicate (unat sn) CHR ''1'' @ ''|'' @ u)"
| "stroke_frame (Ack sn u) = Text (CHR ''A'' # replicate (unat sn) CHR ''1'' @ ''|'' @ u)"

fun read_stroke_frame :: "Message \<Rightarrow> string + bool TransportMsg" where
  "read_stroke_frame (Text (k # s)) =
     (let sn = of_nat (length (takeWhile (\<lambda>c. c = CHR ''1'') s));
          u = tl (dropWhile (\<lambda>c. c = CHR ''1'') s) in
      if k = CHR ''T'' then Inr (Normal sn u True)
      else if k = CHR ''F'' then Inr (Normal sn u False)
      else Inr (Ack sn u))"
| "read_stroke_frame m = Inl ''no frame''"

definition stroke_decode :: "string \<Rightarrow> json WireMsg option" where
  "stroke_decode s =
     Some \<lparr>wm_tag = ''r'', wm_message = if s = [] then None else Some (Normal 0 ''n'' JNull)\<rparr>"

lemma read_strokes:
  "takeWhile (\<lambda>c. c = CHR ''1'') (replicate n CHR ''1'' @ CHR ''|'' # u) = replicate n CHR ''1''"
  "dropWhile (\<lambda>c. c = CHR ''1'') (replicate n CHR ''1'' @ CHR ''|'' # u) = CHR ''|'' # u"
  by (induction n) simp_all

lemma stroke_frames_ok: "frames_ok stroke_decode stroke_frame read_stroke_frame ''r''"
proof -
  have "carries stroke_decode (stroke_frame m) ''r''" for m
    by (cases m) (simp_all add: carries_def parse_incoming_def stroke_decode_def)
  moreover have "read_stroke_frame (stroke_frame m) = Inr m" for m
    by (cases m) (simp_all add: read_strokes Let_def)
  ultimately show ?thesis by (simp add: frames_ok_def)
qed

text \<open>
  Both ends register, the sender's first frame crosses the server twice and is delivered once, and an
  acknowledgement comes back.
\<close>

definition demo_path_events :: "path_event list" where
  "demo_path_events =
     map ServerDoes [Accepted 0, Accepted 0, Recorded 0, Recorded 1, Incoming 1 1 (Text [])]
     @ [BeginsSend, Transmits 1, ServerDoes (ForwardStep 0), Transmits 2, ServerDoes (ForwardStep 0),
        ServerDoes (EgressSend 1 True), ServerDoes (EgressSend 1 True), Receives, Receives,
        Acknowledges 2, ServerDoes (ForwardStep 1), ServerDoes (EgressSend 0 True), AckReceived]"

definition demo_path :: "bool path" where
  "demo_path = foldl (path_step stroke_decode default_config stroke_frame read_stroke_frame 0 1)
     (new_path ''u'' [True, False]) demo_path_events"

lemma demo_path_permitted: "list_all (permitted stroke_decode ''r'' 0 1) demo_path_events"
  by (simp add: demo_path_events_def permitted_def parse_incoming_def stroke_decode_def)

lemma demo_path_delivered: "rx_delivered (lk_receiver (ee_link demo_path)) = [True]"
  by (simp add: demo_path_def demo_path_events_def new_path_def demo_simps stroke_decode_def
      written_to_def ack_received_def ws_node_handle_def new_link_def new_receiver_def new_sender_def
      new_filter_def begin_send_def sn_next_def send_ack_def try_push_def ack_capacity_def payload_of_def)

section \<open>What arrives\<close>

text \<open>C11: The acknowledged transport keeps its promise through the signalling server. The server may
  refuse frames, drop them, cut either connection off or never forward anything, and other clients
  may do what they like as long as they do not know the routing tag; either end may repeat frames or
  register again. In every such run the handler has seen a prefix of what was sent, in order and each
  once; every payload whose send has returned is in it; and at most one delivered payload is still
  waiting for its acknowledgement.\<close>

theorem relayed_link_delivers_a_prefix:
  assumes frames: "frames_ok decode encode decoder t" and small: "length ps < 2 ^ 32"
    and allowed: "list_all (permitted decode t a b) evs"
  shows "let k = ee_link (foldl (path_step decode cfg encode decoder a b) (new_path uuid ps) evs) in
     \<exists>c n. c \<le> n \<and> n \<le> c + 1 \<and> n \<le> length ps \<and> lk_done k = take c ps
       \<and> rx_delivered (lk_receiver k) = take n ps"
proof -
  let ?w = "foldl (path_step decode cfg encode decoder a b) (new_path uuid ps) evs"
  have "path_ok decode cfg encode t a b uuid ps ?w"
    by (rule path_run_ok [OF new_path_ok small frames allowed])
  then obtain c n where "link_at uuid ps c n (ee_link ?w)" by (auto simp: path_ok_def link_inv_def)
  then show ?thesis
    unfolding Let_def
    by (intro exI [of _ c] exI [of _ n])
       (auto simp: link_at_def sender_at_def receiver_at_def split: option.splits)
qed

theorem relayed_link_delivers_a_prefix_witness:
  "rx_delivered (lk_receiver (ee_link demo_path)) = [True]
   \<and> (\<exists>c n. c \<le> n \<and> n \<le> c + 1 \<and> n \<le> length [True, False] \<and> lk_done (ee_link demo_path) = take c [True, False]
       \<and> rx_delivered (lk_receiver (ee_link demo_path)) = take n [True, False])"
proof (rule conjI [OF demo_path_delivered])
  show "\<exists>c n. c \<le> n \<and> n \<le> c + 1 \<and> n \<le> length [True, False]
      \<and> lk_done (ee_link demo_path) = take c [True, False]
      \<and> rx_delivered (lk_receiver (ee_link demo_path)) = take n [True, False]"
    using relayed_link_delivers_a_prefix [OF stroke_frames_ok _ demo_path_permitted,
        of "[True, False]" default_config "''u''"]
    by (simp add: demo_path_def Let_def)
qed

end
