(* ===== verification/Negotiation.thy ===== *)
theory Negotiation
  imports Client
begin

text \<open>
  The answering side of a WebRTC negotiation: \<^verbatim>\<open>openDC\<close> of \<^verbatim>\<open>rtc/dc.rs\<close>, which is
  \<^verbatim>\<open>startWRTCConnection\<close> of \<^verbatim>\<open>wsclient.rs\<close> line for line, and \<^verbatim>\<open>start_ice\<close> of \<^verbatim>\<open>rtc/client.rs\<close>. The
  calls of the \<^verbatim>\<open>webrtc\<close> crate are events with any result, its callbacks events at any time; between
  two \<^verbatim>\<open>await\<close>s the task makes one step. A \<^verbatim>\<open>Notify\<close> is a flag: \<^verbatim>\<open>notify_one\<close> stores one permit, which the
  next \<^verbatim>\<open>notified\<close> takes.
\<close>

section \<open>The task and its callbacks\<close>

text \<open>The fallible calls up to \<^verbatim>\<open>set_local_description\<close> come one after the other, each with \<^verbatim>\<open>?\<close>.\<close>

datatype neg_phase = BuildingApi | MakingPeer | ReadingOffer | SettingRemote | CreatingAnswer
  | SettingLocal | AwaitGathering | ClosingPeer | Describing | Delivering string | AwaitChannel
  | TakingChannel | Opened nat | Answered string | Refused string | Unwound

record negotiation =
  ng_phase :: neg_phase
  ng_gathered :: bool
  ng_connected :: bool
  ng_received :: bool
  ng_slot :: "nat option"

datatype neg_event =
    Call "string + unit"
  | GatheringState bool
  | IceState bool
  | DataChannel nat
  | ChannelOpen nat
  | GatheringNotified
  | PeerClosed "string + unit"
  | LocalDescription "string option"
  | Delivered "string + unit"
  | ChannelNotified
  | TakesChannel

text \<open>The callbacks are registered once the peer connection is there.\<close>

definition registered :: "neg_phase \<Rightarrow> bool" where
  "registered p \<longleftrightarrow> p \<noteq> BuildingApi \<and> p \<noteq> MakingPeer"

fun after_call :: "neg_phase \<Rightarrow> neg_phase option" where
  "after_call BuildingApi = Some MakingPeer"
| "after_call MakingPeer = Some ReadingOffer"
| "after_call ReadingOffer = Some SettingRemote"
| "after_call SettingRemote = Some CreatingAnswer"
| "after_call CreatingAnswer = Some SettingLocal"
| "after_call SettingLocal = Some AwaitGathering"
| "after_call _ = None"

text \<open>
  What the three functions share: the calls, the callback of the gathering state, of which only
  \<^verbatim>\<open>Complete\<close> counts (\<open>GatheringState True\<close>), and the wait for it.
\<close>

fun gather_step ::
  "neg_phase \<Rightarrow> 'a negotiation_scheme \<Rightarrow> neg_event \<Rightarrow> 'a negotiation_scheme option" where
  "gather_step afterwards n (Call r) =
     (case after_call (ng_phase n) of
        None \<Rightarrow> None
      | Some p \<Rightarrow>
          Some (case r of Inl e \<Rightarrow> n\<lparr>ng_phase := Refused e\<rparr> | Inr _ \<Rightarrow> n\<lparr>ng_phase := p\<rparr>))"
| "gather_step afterwards n (GatheringState done) =
     (if registered (ng_phase n) then Some (if done then n\<lparr>ng_gathered := True\<rparr> else n) else None)"
| "gather_step afterwards n GatheringNotified =
     (if ng_phase n = AwaitGathering \<and> ng_gathered n
      then Some (n\<lparr>ng_gathered := False, ng_phase := afterwards\<rparr>) else None)"
| "gather_step afterwards n _ = None"

section \<open>\<open>openDC\<close>\<close>

text \<open>\<open>IceState True\<close> is a change to \<^verbatim>\<open>Connected\<close> or \<^verbatim>\<open>Completed\<close>. The last step unwraps the slot.\<close>

fun openDC_step :: "negotiation \<Rightarrow> neg_event \<Rightarrow> negotiation option" where
  "openDC_step n (DataChannel c) =
     (if registered (ng_phase n) then Some (n\<lparr>ng_slot := Some c, ng_received := True\<rparr>) else None)"
| "openDC_step n (IceState up) =
     (if registered (ng_phase n) then Some (if up then n\<lparr>ng_connected := True\<rparr> else n) else None)"
| "openDC_step n (LocalDescription desc) =
     (if ng_phase n = Describing
      then Some (n\<lparr>ng_phase := (case desc of Some sdp \<Rightarrow> Delivering sdp
                                         | None \<Rightarrow> Refused ''no local description'')\<rparr>)
      else None)"
| "openDC_step n (Delivered r) =
     (case ng_phase n of
        Delivering payload \<Rightarrow>
          Some (n\<lparr>ng_phase := (case r of Inr _ \<Rightarrow> AwaitChannel | Inl e \<Rightarrow> Refused e)\<rparr>)
      | _ \<Rightarrow> None)"
| "openDC_step n ChannelNotified =
     (if ng_phase n = AwaitChannel \<and> ng_received n
      then Some (n\<lparr>ng_received := False, ng_phase := TakingChannel\<rparr>) else None)"
| "openDC_step n TakesChannel =
     (if ng_phase n = TakingChannel
      then Some (n\<lparr>ng_phase := (case ng_slot n of Some c \<Rightarrow> Opened c | None \<Rightarrow> Unwound)\<rparr>)
      else None)"
| "openDC_step n ev = gather_step Describing n ev"

definition openDC_start :: negotiation where
  "openDC_start =
     \<lparr>ng_phase = BuildingApi, ng_gathered = False, ng_connected = False, ng_received = False,
      ng_slot = None\<rparr>"

fun run_events :: "('s \<Rightarrow> 'e \<Rightarrow> 's option) \<Rightarrow> 's \<Rightarrow> 'e list \<Rightarrow> 's option" where
  "run_events f s [] = Some s"
| "run_events f s (ev # evs) = (case f s ev of None \<Rightarrow> None | Some t \<Rightarrow> run_events f t evs)"

definition openDC :: "neg_event list \<Rightarrow> negotiation option" where
  "openDC = run_events openDC_step openDC_start"

text \<open>The function of \<^verbatim>\<open>wsclient.rs\<close> has the same calls, callbacks and waits.\<close>

definition startWRTCConnection :: "neg_event list \<Rightarrow> negotiation option" where
  "startWRTCConnection = run_events openDC_step openDC_start"

lemma startWRTCConnection_is_openDC: "startWRTCConnection = openDC"
  by (simp add: startWRTCConnection_def openDC_def)

lemma run_events_append:
  "run_events f s (a @ b) = (case run_events f s a of None \<Rightarrow> None | Some t \<Rightarrow> run_events f t b)"
  by (induction a arbitrary: s) (simp_all split: option.split)

lemma run_events_snoc:
  "run_events f s (a @ [ev]) = Some u \<longleftrightarrow> (\<exists>t. run_events f s a = Some t \<and> f t ev = Some u)"
  by (auto simp: run_events_append split: option.split)

lemma run_events_invariant [consumes 1, case_names start step]:
  assumes "run_events f s evs = Some t" and "P [] s"
    and "\<And>evs u ev v. run_events f s evs = Some u \<Longrightarrow> P evs u \<Longrightarrow> f u ev = Some v \<Longrightarrow> P (evs @ [ev]) v"
  shows "P evs t"
  using assms(1)
proof (induction evs arbitrary: t rule: rev_induct)
  case Nil
  then show ?case using assms(2) by simp
next
  case (snoc ev evs)
  then show ?case using assms(3) by (metis run_events_snoc)
qed

section \<open>\<open>start_ice\<close>\<close>

text \<open>Here a channel is kept when it opens, and the peer connection is closed before the answer is read.\<close>

record ice_negotiation = negotiation +
  in_watched :: "nat list"
  in_closed :: bool

fun start_ice_step :: "ice_negotiation \<Rightarrow> neg_event \<Rightarrow> ice_negotiation option" where
  "start_ice_step n (DataChannel c) =
     (if registered (ng_phase n) then Some (n\<lparr>in_watched := c # in_watched n\<rparr>) else None)"
| "start_ice_step n (ChannelOpen c) =
     (if c \<in> set (in_watched n)
      then Some (n\<lparr>in_watched := remove1 c (in_watched n), ng_slot := Some c, ng_received := True\<rparr>)
      else None)"
| "start_ice_step n (PeerClosed r) =
     (if ng_phase n = ClosingPeer
      then Some (case r of Inl e \<Rightarrow> n\<lparr>ng_phase := Refused e\<rparr>
                         | Inr _ \<Rightarrow> n\<lparr>ng_phase := Describing, in_closed := True\<rparr>)
      else None)"
| "start_ice_step n (LocalDescription desc) =
     (if ng_phase n = Describing
      then Some (n\<lparr>ng_phase := (case desc of Some sdp \<Rightarrow> Answered sdp
                         | None \<Rightarrow> Refused ''no local description after gathering'')\<rparr>)
      else None)"
| "start_ice_step n ev = gather_step ClosingPeer n ev"

definition start_ice_start :: ice_negotiation where
  "start_ice_start =
     \<lparr>ng_phase = BuildingApi, ng_gathered = False, ng_connected = False, ng_received = False,
      ng_slot = None, in_watched = [], in_closed = False\<rparr>"

definition start_ice :: "neg_event list \<Rightarrow> ice_negotiation option" where
  "start_ice = run_events start_ice_step start_ice_start"

section \<open>What a negotiation has behind it\<close>

text \<open>The task's own steps, and the channels the peer has opened.\<close>

fun own :: "neg_event \<Rightarrow> bool" where
  "own (GatheringState b) = False"
| "own (IceState b) = False"
| "own (DataChannel c) = False"
| "own (ChannelOpen c) = False"
| "own ev = True"

fun channels :: "neg_event list \<Rightarrow> nat list" where
  "channels [] = []"
| "channels (DataChannel c # evs) = c # channels evs"
| "channels (ev # evs) = channels evs"

lemma channels_append: "channels (a @ b) = channels a @ channels b"
  by (induction a rule: channels.induct) simp_all

lemma channels_snoc [simp]:
  "channels (evs @ [ev]) = channels evs @ (case ev of DataChannel c \<Rightarrow> [c] | _ \<Rightarrow> [])"
  by (cases ev) (simp_all add: channels_append)

abbreviation calls :: "neg_event list" where
  "calls \<equiv> replicate 6 (Call (Inr ()))"

fun behind :: "neg_phase \<Rightarrow> neg_event list \<Rightarrow> bool" where
  "behind BuildingApi es = (es = [])"
| "behind MakingPeer es = (es = replicate 1 (Call (Inr ())))"
| "behind ReadingOffer es = (es = replicate 2 (Call (Inr ())))"
| "behind SettingRemote es = (es = replicate 3 (Call (Inr ())))"
| "behind CreatingAnswer es = (es = replicate 4 (Call (Inr ())))"
| "behind SettingLocal es = (es = replicate 5 (Call (Inr ())))"
| "behind AwaitGathering es = (es = calls)"
| "behind Describing es = (es = calls @ [GatheringNotified])"
| "behind (Delivering sdp) es = (es = calls @ [GatheringNotified, LocalDescription (Some sdp)])"
| "behind AwaitChannel es =
     (\<exists>sdp. es = calls @ [GatheringNotified, LocalDescription (Some sdp), Delivered (Inr ())])"
| "behind TakingChannel es =
     (\<exists>sdp. es = calls @ [GatheringNotified, LocalDescription (Some sdp), Delivered (Inr ()),
                      ChannelNotified])"
| "behind (Opened c) es =
     (\<exists>sdp. es = calls @ [GatheringNotified, LocalDescription (Some sdp), Delivered (Inr ()),
                      ChannelNotified, TakesChannel])"
| "behind (Refused e) es = True"
| "behind _ es = False"

lemma six_calls: "calls = replicate 5 (Call (Inr ())) @ [Call (Inr ())]"
  by (simp add: eval_nat_numeral)

lemma after_call_behind:
  assumes "after_call p = Some q" and "behind p es"
  shows "behind q (es @ [Call (Inr ())])"
  using assms by (cases p) (auto simp: eval_nat_numeral)

definition neg_ok :: "neg_event list \<Rightarrow> negotiation \<Rightarrow> bool" where
  "neg_ok evs n \<longleftrightarrow>
     behind (ng_phase n) (List.filter own evs)
   \<and> ng_slot n = (if channels evs = [] then None else Some (last (channels evs)))
   \<and> (ng_received n \<or> ng_phase n = TakingChannel \<longrightarrow> channels evs \<noteq> [])
   \<and> (ng_gathered n \<or> GatheringNotified \<in> set evs \<longrightarrow> GatheringState True \<in> set evs)
   \<and> (channels evs \<noteq> [] \<and> ChannelNotified \<notin> set evs \<longrightarrow> ng_received n)
   \<and> (GatheringState True \<in> set evs \<and> GatheringNotified \<notin> set evs \<longrightarrow> ng_gathered n)"

lemma after_call_not_taking [simp]: "after_call p \<noteq> Some TakingChannel"
  by (cases p) simp_all

lemma gather_step_ok:
  assumes "neg_ok evs n" and "gather_step Describing n ev = Some n'"
  shows "neg_ok (evs @ [ev]) n'"
proof (cases ev)
  case (Call r)
  then obtain p where p: "after_call (ng_phase n) = Some p"
    and n': "n' = (case r of Inl e \<Rightarrow> n\<lparr>ng_phase := Refused e\<rparr> | Inr _ \<Rightarrow> n\<lparr>ng_phase := p\<rparr>)"
    using assms(2) by (simp split: option.splits)
  have "p \<noteq> TakingChannel" using p by auto
  then show ?thesis using assms(1) after_call_behind [OF p] n' Call
    by (cases r) (simp_all add: neg_ok_def)
next
  case (GatheringState b)
  then show ?thesis using assms by (cases b) (auto simp: neg_ok_def split: if_splits)
next
  case GatheringNotified
  then show ?thesis using assms by (auto simp: neg_ok_def split: if_splits)
qed (use assms(2) in simp_all)

lemma openDC_step_ok:
  assumes ok: "neg_ok evs n" and run: "openDC_step n ev = Some n'"
  shows "neg_ok (evs @ [ev]) n'"
proof (cases ev)
  case (LocalDescription desc)
  then have "ng_phase n = Describing"
    and "n' = n\<lparr>ng_phase := (case desc of Some sdp \<Rightarrow> Delivering sdp
                                       | None \<Rightarrow> Refused ''no local description'')\<rparr>"
    using run by (simp_all split: if_splits)
  then show ?thesis using ok LocalDescription by (cases desc) (simp_all add: neg_ok_def)
next
  case (DataChannel c)
  then have "n' = n\<lparr>ng_slot := Some c, ng_received := True\<rparr>" using run by (simp split: if_splits)
  then show ?thesis using ok DataChannel by (simp add: neg_ok_def)
next
  case (IceState up)
  then have "n' = (if up then n\<lparr>ng_connected := True\<rparr> else n)" using run by (simp split: if_splits)
  then show ?thesis using ok IceState by (cases up) (auto simp: neg_ok_def)
next
  case ChannelNotified
  then have "ng_phase n = AwaitChannel" and "ng_received n"
    and "n' = n\<lparr>ng_received := False, ng_phase := TakingChannel\<rparr>"
    using run by (simp_all split: if_splits)
  then show ?thesis using ok ChannelNotified by (auto simp: neg_ok_def)
next
  case (Delivered r)
  then obtain sdp where phase: "ng_phase n = Delivering sdp"
    using run by (cases "ng_phase n") simp_all
  show ?thesis using ok run Delivered phase
    by (cases r) (auto simp: neg_ok_def)
next
  case TakesChannel
  then have phase: "ng_phase n = TakingChannel"
    and n': "n' = n\<lparr>ng_phase := (case ng_slot n of Some c \<Rightarrow> Opened c | None \<Rightarrow> Unwound)\<rparr>"
    using run by (simp_all split: if_splits)
  have "ng_slot n = Some (last (channels evs))" using ok phase by (simp add: neg_ok_def)
  then show ?thesis using ok phase n' TakesChannel by (auto simp: neg_ok_def)
next
  case (Call r)
  then show ?thesis using gather_step_ok [OF ok, of ev n'] run by simp
next
  case (GatheringState b)
  then show ?thesis using gather_step_ok [OF ok, of ev n'] run by simp
next
  case GatheringNotified
  then show ?thesis using gather_step_ok [OF ok, of ev n'] run by simp
qed (use run in simp_all)

lemma openDC_ok: "openDC evs = Some n \<Longrightarrow> neg_ok evs n"
  unfolding openDC_def
proof (induction rule: run_events_invariant)
  case start
  show ?case by (simp add: neg_ok_def openDC_start_def)
next
  case (step evs u ev v)
  then show ?case by (simp add: openDC_step_ok)
qed

section \<open>What is opened, and when\<close>

lemma in_own: "own ev \<Longrightarrow> List.filter own evs = es \<Longrightarrow> ev \<in> set evs \<longleftrightarrow> ev \<in> set es"
  by auto

text \<open>C21: When \<open>openDC\<close> returns a session, it is on the channel the peer opened last before the
  slot was read, so that \<open>unwrap\<close> finds one; by then every call of the crate succeeded, gathering
  was complete before the description was read, and exactly one answer was delivered, without
  error.\<close>

theorem session_is_on_the_newest_channel:
  assumes "openDC (evs @ [TakesChannel]) = Some n"
  shows "channels evs \<noteq> [] \<and> ng_phase n = Opened (last (channels evs))
       \<and> GatheringState True \<in> set evs
       \<and> (\<exists>sdp. List.filter own evs =
            calls @ [GatheringNotified, LocalDescription (Some sdp), Delivered (Inr ()), ChannelNotified])"
proof -
  obtain m where m: "openDC evs = Some m" and step: "openDC_step m TakesChannel = Some n"
    using assms by (auto simp: openDC_def run_events_snoc)
  have phase: "ng_phase m = TakingChannel"
    and n: "ng_phase n = (case ng_slot m of Some c \<Rightarrow> Opened c | None \<Rightarrow> Unwound)"
    using step by (auto split: if_splits)
  have ok: "neg_ok evs m" using openDC_ok [OF m] .
  have channels: "channels evs \<noteq> []" using ok phase by (simp add: neg_ok_def)
  then have "ng_slot m = Some (last (channels evs))" using ok by (simp add: neg_ok_def)
  moreover obtain sdp where own: "List.filter own evs =
      calls @ [GatheringNotified, LocalDescription (Some sdp), Delivered (Inr ()), ChannelNotified]"
    using ok phase by (auto simp: neg_ok_def)
  moreover have "GatheringState True \<in> set evs"
    using ok in_own [OF _ own, of GatheringNotified] by (simp add: neg_ok_def)
  ultimately show ?thesis using channels n by simp
qed

theorem session_is_on_the_newest_channel_witness:
  "\<exists>n. openDC (calls @ [DataChannel 4, GatheringState True, GatheringNotified,
          LocalDescription (Some ''sdp''), Delivered (Inr ()), DataChannel 7, ChannelNotified,
          TakesChannel]) = Some n \<and> ng_phase n = Opened 7"
proof -
  let ?evs = "calls @ [DataChannel 4, GatheringState True, GatheringNotified,
      LocalDescription (Some ''sdp''), Delivered (Inr ()), DataChannel 7, ChannelNotified]"
  have "\<exists>n. openDC (?evs @ [TakesChannel]) = Some n"
    by (simp add: openDC_def openDC_start_def eval_nat_numeral registered_def)
  then obtain n where n: "openDC (?evs @ [TakesChannel]) = Some n" by blast
  from session_is_on_the_newest_channel [OF n] have "ng_phase n = Opened 7"
    by (simp add: eval_nat_numeral)
  with n show ?thesis by simp
qed

text \<open>No run ends in the panic of \<open>unwrap\<close>, and the answer is not delivered before gathering is complete.\<close>

lemma openDC_never_unwinds: "openDC evs = Some n \<Longrightarrow> ng_phase n \<noteq> Unwound"
  using openDC_ok [of evs n] by (auto simp: neg_ok_def)

lemma answer_after_gathering:
  assumes "openDC (evs @ [Delivered r]) = Some n"
  shows "GatheringState True \<in> set evs \<and> (\<exists>sdp. LocalDescription (Some sdp) \<in> set evs)"
proof -
  obtain m where m: "openDC evs = Some m" and step: "openDC_step m (Delivered r) = Some n"
    using assms by (auto simp: openDC_def run_events_snoc)
  obtain sdp where "ng_phase m = Delivering sdp" using step by (auto split: neg_phase.splits)
  then have own: "List.filter own evs = calls @ [GatheringNotified, LocalDescription (Some sdp)]"
    and ok: "neg_ok evs m"
    using openDC_ok [OF m] by (simp_all add: neg_ok_def)
  then show ?thesis
    using in_own [OF _ own, of GatheringNotified] in_own [OF _ own, of "LocalDescription (Some sdp)"]
    by (auto simp: neg_ok_def)
qed

section \<open>No notification is lost\<close>

definition can_open :: "negotiation \<Rightarrow> nat \<Rightarrow> bool" where
  "can_open n c \<longleftrightarrow>
     (\<exists>rest n'. list_all own rest \<and> run_events openDC_step n rest = Some n' \<and> ng_phase n' = Opened c)"

lemma can_open_step:
  "openDC_step n ev = Some n' \<Longrightarrow> own ev \<Longrightarrow> can_open n' c \<Longrightarrow> can_open n c"
  unfolding can_open_def by (metis list.pred_inject(2) option.simps(5) run_events.simps(2))

lemma can_open_opened: "ng_phase n = Opened c \<Longrightarrow> can_open n c"
  unfolding can_open_def by (metis list.pred_inject(1) run_events.simps(1))

lemma can_open_taking: "ng_phase n = TakingChannel \<Longrightarrow> ng_slot n = Some c \<Longrightarrow> can_open n c"
  by (rule can_open_step [of n TakesChannel "n\<lparr>ng_phase := Opened c\<rparr>"])
    (simp_all add: can_open_opened)

lemma can_open_awaiting:
  "ng_phase n = AwaitChannel \<Longrightarrow> ng_received n \<Longrightarrow> ng_slot n = Some c \<Longrightarrow> can_open n c"
  by (rule can_open_step [of n ChannelNotified]) (simp, simp, simp add: can_open_taking)

lemma can_open_delivering:
  "ng_phase n = Delivering sdp \<Longrightarrow> ng_received n \<Longrightarrow> ng_slot n = Some c \<Longrightarrow> can_open n c"
  by (rule can_open_step [of n "Delivered (Inr ())"]) (simp, simp, simp add: can_open_awaiting)

lemma can_open_describing:
  "ng_phase n = Describing \<Longrightarrow> ng_received n \<Longrightarrow> ng_slot n = Some c \<Longrightarrow> can_open n c"
  by (rule can_open_step [of n "LocalDescription (Some [])"]) (simp, simp, simp add: can_open_delivering)

lemma can_open_gathering:
  "ng_phase n = AwaitGathering \<Longrightarrow> ng_gathered n \<Longrightarrow> ng_received n \<Longrightarrow> ng_slot n = Some c
    \<Longrightarrow> can_open n c"
  by (rule can_open_step [of n GatheringNotified]) (simp, simp, simp add: can_open_describing)

lemma can_open_calling:
  "after_call (ng_phase n) = Some p \<Longrightarrow> can_open (n\<lparr>ng_phase := p\<rparr>) c \<Longrightarrow> can_open n c"
  by (rule can_open_step [of n "Call (Inr ())"]) simp_all

lemma can_open_calls:
  assumes "ng_phase n \<in> {ReadingOffer, SettingRemote, CreatingAnswer, SettingLocal, AwaitGathering}"
    and "ng_gathered n" and "ng_received n" and "ng_slot n = Some c"
  shows "can_open n c"
proof -
  have g: "can_open (n\<lparr>ng_phase := AwaitGathering\<rparr>) c" using assms by (simp add: can_open_gathering)
  have l: "can_open (n\<lparr>ng_phase := SettingLocal\<rparr>) c"
    by (rule can_open_calling [where p = AwaitGathering]) (simp_all add: g)
  have a: "can_open (n\<lparr>ng_phase := CreatingAnswer\<rparr>) c"
    by (rule can_open_calling [where p = SettingLocal]) (simp_all add: l)
  have r: "can_open (n\<lparr>ng_phase := SettingRemote\<rparr>) c"
    by (rule can_open_calling [where p = CreatingAnswer]) (simp_all add: a)
  have o: "can_open (n\<lparr>ng_phase := ReadingOffer\<rparr>) c"
    by (rule can_open_calling [where p = SettingRemote]) (simp_all add: r)
  have "n = n\<lparr>ng_phase := ng_phase n\<rparr>" by simp
  then show ?thesis using assms(1) g l a r o by (metis insertE singletonD)
qed

lemma registered_stays:
  "openDC_step n ev = Some n' \<Longrightarrow> registered (ng_phase n) \<Longrightarrow> registered (ng_phase n')"
proof (cases ev)
  case (Call r)
  then show "openDC_step n ev = Some n' \<Longrightarrow> registered (ng_phase n) \<Longrightarrow> registered (ng_phase n')"
    by (cases "ng_phase n") (auto simp: registered_def split: sum.splits)
next
  case (Delivered r)
  then show "openDC_step n ev = Some n' \<Longrightarrow> registered (ng_phase n) \<Longrightarrow> registered (ng_phase n')"
    by (cases "ng_phase n") (auto simp: registered_def split: sum.splits)
qed (auto simp: registered_def split: if_splits option.splits)

lemma unregistered:
  "openDC evs = Some n \<Longrightarrow> \<not> registered (ng_phase n) \<Longrightarrow> GatheringState True \<notin> set evs"
  unfolding openDC_def
proof (induction rule: run_events_invariant)
  case (step evs u ev v)
  then have "\<not> registered (ng_phase u)" using registered_stays by blast
  with step show ?case by (cases "ev = GatheringState True") simp_all
qed simp

lemma can_open_later:
  assumes "ng_phase n \<in> {AwaitGathering, Describing, AwaitChannel, TakingChannel} \<union> range Delivering"
    and "ng_phase n = AwaitGathering \<longrightarrow> ng_gathered n"
    and "ng_phase n \<noteq> TakingChannel \<longrightarrow> ng_received n" and "ng_slot n = Some c"
  shows "can_open n c"
  using assms can_open_gathering [of n c] can_open_describing [of n c] can_open_awaiting [of n c]
    can_open_taking [of n c] can_open_delivering [of n _ c]
  by auto

text \<open>C22: Once gathering is complete and the peer has opened a channel, a negotiation that has not
  failed needs no further event from outside, in whatever order the two came and wherever the task
  was: its own steps, with calls that succeed, lead to the session. A notification that comes
  before the task waits for it is not lost.\<close>

theorem negotiation_needs_nothing_more:
  assumes "openDC evs = Some n" and "GatheringState True \<in> set evs" and "channels evs \<noteq> []"
    and "\<forall>e. ng_phase n \<noteq> Refused e"
  shows "\<exists>rest n' c. list_all own rest \<and> openDC (evs @ rest) = Some n' \<and> ng_phase n' = Opened c"
proof -
  have ok: "neg_ok evs n" using openDC_ok assms(1) .
  have slot: "ng_slot n = Some (last (channels evs))" using ok assms(3) by (simp add: neg_ok_def)
  have received: "ng_received n" if "ChannelNotified \<notin> set evs"
    using ok that assms(3) by (simp add: neg_ok_def)
  have gathered: "ng_gathered n" if "GatheringNotified \<notin> set evs"
    using ok that assms(2) by (simp add: neg_ok_def)
  have behind: "behind (ng_phase n) (List.filter own evs)" using ok by (simp add: neg_ok_def)
  have "\<exists>c. can_open n c"
  proof (cases "ng_phase n")
    case (Opened c)
    then show ?thesis using can_open_opened by blast
  next
    case BuildingApi
    then show ?thesis using assms(2) unregistered [OF assms(1)] by (simp add: registered_def)
  next
    case MakingPeer
    then show ?thesis using assms(2) unregistered [OF assms(1)] by (simp add: registered_def)
  next
    case AwaitChannel
    then obtain sdp where own: "List.filter own evs =
        calls @ [GatheringNotified, LocalDescription (Some sdp), Delivered (Inr ())]"
      using behind by auto
    have "ng_received n" using received in_own [OF _ own, of ChannelNotified] by simp
    then show ?thesis using can_open_later [of n] AwaitChannel slot by auto
  qed (use behind in_own [of ChannelNotified evs] in_own [of GatheringNotified evs] received gathered
        slot can_open_calls [of n] can_open_later [of n] assms(4) in auto)
  then show ?thesis
    using assms(1) unfolding can_open_def openDC_def by (auto simp: run_events_append)
qed

theorem negotiation_needs_nothing_more_witness:
  "\<exists>rest n' c. list_all own rest
     \<and> openDC (replicate 3 (Call (Inr ())) @ [DataChannel 4, GatheringState True] @ rest) = Some n'
     \<and> ng_phase n' = Opened c"
proof -
  let ?evs = "replicate 3 (Call (Inr ())) @ [DataChannel 4, GatheringState True]"
  have "\<exists>n. openDC ?evs = Some n \<and> ng_phase n = SettingRemote"
    by (simp add: openDC_def openDC_start_def eval_nat_numeral registered_def)
  then obtain n where n: "openDC ?evs = Some n" and phase: "ng_phase n = SettingRemote" by blast
  have "channels ?evs \<noteq> []" by (simp add: eval_nat_numeral)
  then show ?thesis using negotiation_needs_nothing_more [OF n] phase by simp
qed

text \<open>Without a channel from the peer the task waits, whatever the ICE state: no timeout ends it.\<close>

lemma no_channel_no_session:
  "openDC evs = Some n \<Longrightarrow> channels evs = [] \<Longrightarrow> ng_phase n \<noteq> TakingChannel \<and> openDC_step n ChannelNotified = None"
  using openDC_ok [of evs n] by (auto simp: neg_ok_def)

section \<open>The connection \<open>start_ice\<close> hands out\<close>

lemma gather_step_phase:
  "gather_step ClosingPeer n ev = Some n' \<Longrightarrow>
     (ng_phase n' = Describing \<or> (\<exists>sdp. ng_phase n' = Answered sdp)) \<longrightarrow> ng_phase n' = ng_phase n"
proof (cases ev)
  case (Call r)
  then show "gather_step ClosingPeer n ev = Some n' \<Longrightarrow> ?thesis"
    by (cases "ng_phase n") (auto split: sum.splits)
qed (auto split: if_splits)

lemma gather_step_frame:
  "gather_step p n ev = Some (n' :: ice_negotiation) \<Longrightarrow> in_closed n' = in_closed n"
  by (cases ev) (auto split: option.splits sum.splits if_splits)

lemma start_ice_closes:
  "start_ice evs = Some n \<Longrightarrow>
     ng_phase n = Describing \<or> (\<exists>sdp. ng_phase n = Answered sdp) \<Longrightarrow>
     in_closed n \<and> PeerClosed (Inr ()) \<in> set evs"
  unfolding start_ice_def
proof (induction rule: run_events_invariant)
  case start
  then show ?case by (simp add: start_ice_start_def)
next
  case (step evs u ev v)
  show ?case
  proof (cases "\<exists>r. ev = PeerClosed r \<or> (\<exists>d. ev = LocalDescription d) \<or> (\<exists>c. ev = DataChannel c \<or> ev = ChannelOpen c)")
    case True
    then show ?thesis using step by (auto split: if_splits sum.splits option.splits)
  next
    case False
    then have g: "gather_step ClosingPeer u ev = Some v" using step.hyps(2) by (cases ev) auto
    show ?thesis
      using gather_step_phase [OF g] gather_step_frame [OF g] step by auto
  qed
qed

text \<open>C35: Every handle \<open>start_ice\<close> returns is on a peer connection that was closed before: the
  close comes after the gathering and before the local description is read, so no handle has a
  connection that could still answer.\<close>

theorem start_ice_hands_out_a_closed_connection:
  assumes "start_ice evs = Some n" and "ng_phase n = Answered sdp"
  shows "in_closed n \<and> PeerClosed (Inr ()) \<in> set evs"
  using start_ice_closes [OF assms(1)] assms(2) by blast

lemma start_ice_can_answer:
  "\<exists>n. start_ice (calls @ [GatheringState True, GatheringNotified, PeerClosed (Inr ()),
          LocalDescription (Some ''sdp'')]) = Some n \<and> ng_phase n = Answered ''sdp''"
  by (simp add: start_ice_def start_ice_start_def eval_nat_numeral registered_def)

theorem start_ice_hands_out_a_closed_connection_witness:
  "\<exists>n. start_ice (calls @ [GatheringState True, GatheringNotified, PeerClosed (Inr ()),
          LocalDescription (Some ''sdp'')]) = Some n \<and> in_closed n"
  using start_ice_can_answer start_ice_hands_out_a_closed_connection by blast

end
