(* ===== verification/Client_Session.thy ===== *)
theory Client_Session
  imports Negotiation
begin

text \<open>
  \<^verbatim>\<open>run_client\<close> of \<^verbatim>\<open>rtc/client.rs\<close> with the task it spawns: the loop over the frames, the negotiation
  of \<open>openDC\<close> with the closure that writes its answer to the socket, and the greeting sent when the
  session is open. Loop and task interleave in any order.
\<close>

section \<open>The dialled connection\<close>

text \<open>\<^verbatim>\<open>connectToSS\<close>: a plain connection has the crate's default limits, a secure one its own.\<close>

record WsConfig =
  wc_url :: string
  wc_is_tls :: bool

record WebSocketConfig =
  max_message_size :: "nat option"
  max_frame_size :: "nat option"

definition defaultWsConfig :: WebSocketConfig where
  "defaultWsConfig = \<lparr>max_message_size = Some 8192, max_frame_size = Some 8192\<rparr>"

definition starts_with :: "string \<Rightarrow> string \<Rightarrow> bool" where
  "starts_with p s \<longleftrightarrow> take (length p) s = p"

definition client_config :: "string \<Rightarrow> WsConfig" where
  "client_config server_url =
     \<lparr>wc_url = server_url, wc_is_tls = starts_with ''wss://'' server_url\<rparr>"

definition connectToSS ::
  "(string \<Rightarrow> string + 'ws) \<Rightarrow> (string \<Rightarrow> WebSocketConfig \<Rightarrow> string + 'ws) \<Rightarrow> WsConfig \<Rightarrow> string + 'ws"
  where
  "connectToSS connect_async connect_tls config =
     (if \<not> wc_is_tls config then connect_async (wc_url config)
      else connect_tls (wc_url config) defaultWsConfig)"

section \<open>The loop and its task\<close>

record client =
  cs_flag :: bool
  cs_over :: bool
  cs_offer :: "(string \<times> string) option"
  cs_task :: "negotiation option"
  cs_written :: "WsMsg list"
  cs_said :: "(nat \<times> string) list"

datatype client_event =
    Read "(string + Message) option"
  | Task neg_event
  | Greets "string + unit"

text \<open>The call returns when the connection or the registration fails.\<close>

definition client_start :: "string + unit \<Rightarrow> string + unit \<Rightarrow> string \<Rightarrow> client" where
  "client_start connected_ss registration src_addr =
     (let failed = isl connected_ss \<or> isl registration
      in \<lparr>cs_flag = False, cs_over = failed, cs_offer = None, cs_task = None,
          cs_written = (if failed then [] else [make_register_msg src_addr]), cs_said = []\<rparr>)"

text \<open>\<^verbatim>\<open>read.next()\<close>. The payload and the sender of the first message are taken, the flag is set.\<close>

definition client_read ::
  "(string \<Rightarrow> string + WsMsg) \<Rightarrow> (string + Message) option \<Rightarrow> client \<Rightarrow> client" where
  "client_read parse next_msg s =
     (if cs_flag s then s
      else
        (case next_msg of
           Some (Inr (Text raw)) \<Rightarrow>
             (case parse raw of
                Inr w \<Rightarrow> s\<lparr>cs_flag := True, cs_offer := Some (wf_payload w, wf_src w),
                            cs_task := Some openDC_start\<rparr>
              | Inl e \<Rightarrow> s)
         | Some (Inr m) \<Rightarrow> s
         | Some (Inl e) \<Rightarrow> s\<lparr>cs_over := True\<rparr>
         | None \<Rightarrow> s\<lparr>cs_over := True\<rparr>))"

text \<open>The closure of \<^verbatim>\<open>deliverAnswer\<close>: what a step of the task writes to the socket.\<close>

definition delivers :: "string \<Rightarrow> (string \<times> string) option \<Rightarrow> negotiation \<Rightarrow> neg_event \<Rightarrow> WsMsg list" where
  "delivers my_addr offer n ev =
     (case (ev, ng_phase n, offer) of
        (Delivered (Inr _), Delivering answer, Some started) \<Rightarrow> [answer_frame my_addr started answer]
      | _ \<Rightarrow> [])"

definition greeting :: string where "greeting = ''hellooooo''"

fun client_step ::
  "(string \<Rightarrow> string + WsMsg) \<Rightarrow> string \<Rightarrow> client \<Rightarrow> client_event \<Rightarrow> client option" where
  "client_step parse my_addr s (Read next_msg) =
     (if cs_over s then None else Some (client_read parse next_msg s))"
| "client_step parse my_addr s (Task ev) =
     (case cs_task s of
        None \<Rightarrow> None
      | Some n \<Rightarrow>
          (case openDC_step n ev of
             None \<Rightarrow> None
           | Some n' \<Rightarrow>
               Some (s\<lparr>cs_task := Some n',
                       cs_written := cs_written s @ delivers my_addr (cs_offer s) n ev\<rparr>)))"
| "client_step parse my_addr s (Greets r) =
     (case cs_task s of
        None \<Rightarrow> None
      | Some n \<Rightarrow>
          (case ng_phase n of
             Opened c \<Rightarrow>
               if cs_said s = []
               then Some (s\<lparr>cs_said := [(c, greeting)]\<rparr>) else None
           | _ \<Rightarrow> None))"

definition client_run ::
  "(string \<Rightarrow> string + WsMsg) \<Rightarrow> string \<Rightarrow> client_event list \<Rightarrow> client option" where
  "client_run parse my_addr = run_events (client_step parse my_addr) (client_start (Inr ()) (Inr ()) my_addr)"

section \<open>What a client writes\<close>

text \<open>The events of the task, and the first frame of the loop that is a message.\<close>

fun task_events :: "client_event list \<Rightarrow> neg_event list" where
  "task_events [] = []"
| "task_events (Task ev # evs) = ev # task_events evs"
| "task_events (ev # evs) = task_events evs"

fun offer_in :: "(string \<Rightarrow> string + WsMsg) \<Rightarrow> client_event \<Rightarrow> (string \<times> string) option" where
  "offer_in parse (Read (Some (Inr (Text raw)))) =
     (case parse raw of Inr w \<Rightarrow> Some (wf_payload w, wf_src w) | Inl e \<Rightarrow> None)"
| "offer_in parse ev = None"

definition first_offer :: "(string \<Rightarrow> string + WsMsg) \<Rightarrow> client_event list \<Rightarrow> (string \<times> string) option" where
  "first_offer parse evs =
     (case List.map_filter (offer_in parse) evs of [] \<Rightarrow> None | started # later \<Rightarrow> Some started)"

lemma task_events_append [simp]: "task_events (a @ b) = task_events a @ task_events b"
  by (induction a rule: task_events.induct) simp_all

lemma first_offer_snoc:
  "first_offer parse (evs @ [ev]) =
     (case first_offer parse evs of Some started \<Rightarrow> Some started | None \<Rightarrow> offer_in parse ev)"
  by (cases "offer_in parse ev") (auto simp: first_offer_def map_filter_def split: list.split)

text \<open>The answers a negotiation has delivered.\<close>

definition answered_by :: "neg_event list \<Rightarrow> string list" where
  "answered_by tes =
     (if Delivered (Inr ()) \<in> set tes
      then List.map_filter (\<lambda>ev. case ev of LocalDescription d \<Rightarrow> d | _ \<Rightarrow> None) tes else [])"

lemma answered_by_own: "answered_by (List.filter own tes) = answered_by tes"
proof -
  have "List.map_filter (\<lambda>ev. case ev of LocalDescription d \<Rightarrow> d | _ \<Rightarrow> None) (List.filter own tes)
      = List.map_filter (\<lambda>ev. case ev of LocalDescription d \<Rightarrow> d | _ \<Rightarrow> None) tes"
    by (induction tes) (auto simp: map_filter_def split: neg_event.splits)
  then show ?thesis by (simp add: answered_by_def)
qed

definition newly_answered :: "negotiation \<Rightarrow> neg_event \<Rightarrow> string list" where
  "newly_answered n ev =
     (case (ev, ng_phase n) of (Delivered (Inr _), Delivering sdp) \<Rightarrow> [sdp] | _ \<Rightarrow> [])"

lemma delivers_newly:
  "delivers my_addr offer n ev =
     (case offer of None \<Rightarrow> [] | Some started \<Rightarrow> map (answer_frame my_addr started) (newly_answered n ev))"
  by (auto simp: delivers_def newly_answered_def
      split: option.split neg_event.split neg_phase.split sum.split)

lemma answered_by_step:
  assumes run: "openDC tes = Some n" and step: "openDC_step n ev = Some n'"
  shows "answered_by (tes @ [ev]) = answered_by tes @ newly_answered n ev"
proof -
  have behind: "behind (ng_phase n) (List.filter own tes)"
    using openDC_ok [OF run] by (simp add: neg_ok_def)
  consider (describes) d where "ev = LocalDescription d" | (delivers) r where "ev = Delivered r"
    | (other) "\<forall>d. ev \<noteq> LocalDescription d" "\<forall>r. ev \<noteq> Delivered r" by (cases ev) auto
  then show ?thesis
  proof cases
    case describes
    then have "ng_phase n = Describing" using step by (simp split: if_splits)
    then have own: "List.filter own tes = calls @ [GatheringNotified]" using behind by simp
    have "Delivered (Inr ()) \<notin> set tes" using in_own [OF _ own, of "Delivered (Inr ())"] by simp
    then show ?thesis using describes by (simp add: answered_by_def newly_answered_def)
  next
    case delivers
    then obtain sdp where phase: "ng_phase n = Delivering sdp" using step by (cases "ng_phase n") simp_all
    then have own: "List.filter own tes = calls @ [GatheringNotified, LocalDescription (Some sdp)]"
      using behind by simp
    have "Delivered (Inr ()) \<notin> set tes" using in_own [OF _ own, of "Delivered (Inr ())"] by simp
    then have none: "answered_by tes = []" by (simp add: answered_by_def)
    show ?thesis
    proof (cases r)
      case (Inr u)
      have "answered_by (tes @ [ev]) = answered_by (List.filter own tes @ [ev])"
        using answered_by_own [of "tes @ [ev]"] delivers by simp
      also have "\<dots> = [sdp]" using delivers Inr own
        by (simp add: answered_by_def map_filter_def eval_nat_numeral)
      finally show ?thesis using none delivers phase Inr by (simp add: newly_answered_def)
    qed (use none delivers phase \<open>Delivered (Inr ()) \<notin> set tes\<close> in
        \<open>simp add: answered_by_def newly_answered_def\<close>)
  next
    case other
    then show ?thesis
      by (cases ev) (simp_all add: answered_by_def newly_answered_def map_filter_def)
  qed
qed

definition has_answered :: "neg_phase \<Rightarrow> bool" where
  "has_answered p \<longleftrightarrow> p = AwaitChannel \<or> p = TakingChannel \<or> (\<exists>c. p = Opened c)"

lemma has_answered_stays:
  assumes "openDC tes = Some n" and "openDC_step n ev = Some n'" and "has_answered (ng_phase n)"
  shows "has_answered (ng_phase n')"
proof -
  have slot: "ng_phase n = TakingChannel \<longrightarrow> ng_slot n \<noteq> None"
    using openDC_ok [OF assms(1)] by (auto simp: neg_ok_def)
  show ?thesis using assms(2,3) slot
    by (cases ev) (auto simp: has_answered_def split: if_splits option.splits)
qed

lemma answered_once:
  "openDC tes = Some n \<Longrightarrow>
     answered_by tes = [] \<or> (\<exists>sdp. answered_by tes = [sdp] \<and> has_answered (ng_phase n))"
  unfolding openDC_def
proof (induction rule: run_events_invariant)
  case start
  show ?case by (simp add: answered_by_def)
next
  case (step evs u ev v)
  have run: "openDC evs = Some u" using step.hyps(1) by (simp add: openDC_def)
  note new = answered_by_step [OF run step.hyps(2)]
  show ?case
  proof (cases "newly_answered u ev")
    case Nil
    then show ?thesis using new step.IH has_answered_stays [OF run step.hyps(2)] by auto
  next
    case (Cons a as)
    then obtain sdp r where e: "ev = Delivered (Inr r)" "ng_phase u = Delivering sdp" "a = sdp" "as = []"
      by (auto simp: newly_answered_def split: neg_event.splits sum.splits neg_phase.splits)
    then have "answered_by evs = []" using step.IH by (auto simp: has_answered_def)
    then show ?thesis using new Cons e step.hyps(2) by (auto simp: has_answered_def)
  qed
qed

lemma opened_has_answered:
  assumes "openDC tes = Some n" and "ng_phase n = Opened c"
  shows "\<exists>sdp. answered_by tes = [sdp]"
proof -
  obtain sdp where own: "List.filter own tes =
      calls @ [GatheringNotified, LocalDescription (Some sdp), Delivered (Inr ()), ChannelNotified,
        TakesChannel]"
    using openDC_ok [OF assms(1)] assms(2) by (auto simp: neg_ok_def)
  have "answered_by tes = answered_by (List.filter own tes)" by (simp add: answered_by_own)
  also have "\<dots> = [sdp]" by (simp add: own answered_by_def map_filter_def eval_nat_numeral)
  finally show ?thesis by blast
qed

lemma opened_stays:
  "openDC_step n ev = Some n' \<Longrightarrow> ng_phase n = Opened c \<Longrightarrow> ng_phase n' = Opened c"
  by (cases ev) (auto split: if_splits)

section \<open>The whole client\<close>

definition client_ok ::
  "(string \<Rightarrow> string + WsMsg) \<Rightarrow> string \<Rightarrow> client_event list \<Rightarrow> client \<Rightarrow> bool" where
  "client_ok parse my_addr evs s \<longleftrightarrow>
     cs_offer s = first_offer parse evs
   \<and> (cs_flag s \<longleftrightarrow> cs_offer s \<noteq> None)
   \<and> (case cs_task s of None \<Rightarrow> cs_offer s = None \<and> task_events evs = []
                      | Some n \<Rightarrow> cs_offer s \<noteq> None \<and> openDC (task_events evs) = Some n)
   \<and> cs_written s = make_register_msg my_addr #
       (case cs_offer s of None \<Rightarrow> []
        | Some started \<Rightarrow> map (answer_frame my_addr started) (answered_by (task_events evs)))
   \<and> (cs_said s \<noteq> [] \<longrightarrow> (\<exists>n c. cs_task s = Some n \<and> ng_phase n = Opened c))"

lemma client_read_cases:
  assumes "\<not> cs_flag s"
  obtains (offer) raw w where "m = Some (Inr (Text raw))" "parse raw = Inr w"
    | (nothing) "offer_in parse (Read m) = None"
        "client_read parse m s = s \<or> client_read parse m s = s\<lparr>cs_over := True\<rparr>"
proof (cases m)
  case None
  then show ?thesis using assms that by (simp add: client_read_def)
next
  case (Some r)
  show ?thesis
  proof (cases r)
    case (Inl e)
    then show ?thesis using assms that Some by (simp add: client_read_def)
  next
    case (Inr msg)
    show ?thesis
    proof (cases msg)
      case (Text raw)
      then show ?thesis using assms that Some Inr by (cases "parse raw") (simp_all add: client_read_def)
    qed (use assms that Some Inr in \<open>simp_all add: client_read_def\<close>)
  qed
qed

lemma client_read_ok:
  assumes ok: "client_ok parse my_addr evs s"
  shows "client_ok parse my_addr (evs @ [Read m]) (client_read parse m s)"
proof (cases "cs_flag s")
  case True
  then obtain started where some: "first_offer parse evs = Some started" "cs_offer s = Some started"
    using ok by (cases "first_offer parse evs") (auto simp: client_ok_def)
  have "first_offer parse (evs @ [Read m]) = Some started" "task_events (evs @ [Read m]) = task_events evs"
    "client_read parse m s = s"
    using some True by (simp_all add: first_offer_snoc client_read_def)
  then show ?thesis using ok some unfolding client_ok_def by (simp split: option.splits)
next
  case False
  then have none: "cs_offer s = None" "first_offer parse evs = None" "cs_task s = None"
    "task_events evs = []" "cs_said s = []"
    using ok by (auto simp: client_ok_def split: option.splits)
  from False show ?thesis
  proof (cases rule: client_read_cases [where m = m and parse = parse])
    case offer
    then show ?thesis using ok none False
      by (simp add: client_ok_def client_read_def first_offer_snoc openDC_def answered_by_def)
  next
    case nothing
    then show ?thesis using ok none by (auto simp: client_ok_def first_offer_snoc)
  qed
qed

lemma client_step_ok:
  assumes ok: "client_ok parse my_addr evs s" and step: "client_step parse my_addr s ev = Some s'"
  shows "client_ok parse my_addr (evs @ [ev]) s'"
proof (cases ev)
  case (Read m)
  then have "s' = client_read parse m s" using step by (simp split: if_splits)
  then show ?thesis using client_read_ok [OF ok] Read by simp
next
  case (Task e)
  then obtain n n' where n: "cs_task s = Some n" and n': "openDC_step n e = Some n'"
    and s': "s' = s\<lparr>cs_task := Some n', cs_written := cs_written s @ delivers my_addr (cs_offer s) n e\<rparr>"
    using step by (auto split: option.splits)
  have run: "openDC (task_events evs) = Some n" using ok n by (simp add: client_ok_def)
  have "openDC (task_events evs @ [e]) = Some n'" using run n' by (simp add: openDC_def run_events_snoc)
  moreover obtain started where some: "first_offer parse evs = Some started" "cs_offer s = Some started"
    using ok n by (cases "first_offer parse evs") (auto simp: client_ok_def)
  ultimately show ?thesis
    using ok n s' Task answered_by_step [OF run n'] opened_stays [OF n']
    by (auto simp: client_ok_def first_offer_snoc delivers_newly some)
next
  case (Greets r)
  then show ?thesis using ok step
    by (auto simp: client_ok_def first_offer_snoc split: option.splits neg_phase.splits if_splits)
qed

lemma client_run_ok: "client_run parse my_addr evs = Some s \<Longrightarrow> client_ok parse my_addr evs s"
  unfolding client_run_def
proof (induction rule: run_events_invariant)
  case start
  show ?case by (simp add: client_ok_def client_start_def first_offer_def map_filter_def Let_def)
next
  case (step evs u ev v)
  then show ?case by (simp add: client_step_ok)
qed

text \<open>C20: A client writes its registration and then at most one more frame: the answer of its one
  negotiation, to the sender of the first frame that is a message, and not before ICE gathering is
  complete. It greets on a channel only when that answer has been written.\<close>

theorem client_answers_the_first_offer:
  assumes "client_run parse my_addr evs = Some s"
  shows "\<exists>answers. cs_written s = make_register_msg my_addr # answers
       \<and> (answers = [] \<or> (\<exists>started sdp. first_offer parse evs = Some started
            \<and> answers = [answer_frame my_addr started sdp]
            \<and> GatheringState True \<in> set (task_events evs)))
       \<and> (cs_said s \<noteq> [] \<longrightarrow> answers \<noteq> [])"
proof (cases "cs_task s")
  case None
  then show ?thesis using client_run_ok [OF assms] by (auto simp: client_ok_def)
next
  case (Some n)
  note ok = client_run_ok [OF assms]
  have run: "openDC (task_events evs) = Some n" using ok Some by (simp add: client_ok_def)
  obtain started where started: "first_offer parse evs = Some started"
    using ok Some by (cases "first_offer parse evs") (auto simp: client_ok_def)
  let ?answers = "map (answer_frame my_addr started) (answered_by (task_events evs))"
  have written: "cs_written s = make_register_msg my_addr # ?answers"
    using ok started by (simp add: client_ok_def)
  have gathered: "GatheringState True \<in> set (task_events evs)" if "answered_by (task_events evs) \<noteq> []"
  proof -
    have "Delivered (Inr ()) \<in> set (task_events evs)" using that by (simp add: answered_by_def split: if_splits)
    then obtain a b where split: "task_events evs = (a @ [Delivered (Inr ())]) @ b"
      by (metis append.assoc append_Cons append_Nil split_list)
    then have "\<exists>m. openDC (a @ [Delivered (Inr ())]) = Some m"
      using run unfolding openDC_def
      by (metis run_events_append option.case_eq_if option.collapse option.distinct(1))
    then show ?thesis using answer_after_gathering split by fastforce
  qed
  have "cs_said s \<noteq> [] \<Longrightarrow> ?answers \<noteq> []"
    using ok Some opened_has_answered [OF run] by (auto simp: client_ok_def)
  then show ?thesis
    using written gathered answered_once [OF run] started by (intro exI [of _ ?answers]) auto
qed

text \<open>A frame that is sent as \<open>''o''\<close> by \<open>''b''\<close> is answered, later ones are not.\<close>

definition parse_any :: "string \<Rightarrow> string + WsMsg" where
  "parse_any raw = Inr \<lparr>wf_src = ''b'', wf_dst = ''a'', wf_payload = raw\<rparr>"

definition answered_run :: "client_event list" where
  "answered_run = [Read (Some (Inr (Text ''o'')))] @ map Task
     (calls @ [GatheringState True, GatheringNotified, LocalDescription (Some ''sdp''), Delivered (Inr ())])
     @ [Read (Some (Inr (Text ''p'')))]"

theorem client_answers_the_first_offer_witness:
  "\<exists>s. client_run parse_any ''a'' answered_run = Some s
     \<and> (\<exists>answers. cs_written s = make_register_msg ''a'' # answers \<and> length answers = 1)"
proof -
  have "\<exists>s. client_run parse_any ''a'' answered_run = Some s \<and> length (cs_written s) = 2"
    by (simp add: client_run_def client_start_def answered_run_def parse_any_def client_read_def
        delivers_def openDC_start_def registered_def eval_nat_numeral Let_def)
  then obtain s where s: "client_run parse_any ''a'' answered_run = Some s" "length (cs_written s) = 2"
    by blast
  then show ?thesis using client_answers_the_first_offer [OF s(1)] by force
qed

section \<open>The loop of \<open>run_client1\<close>\<close>

text \<open>
  The other client of \<^verbatim>\<open>client.rs\<close> makes a link in every round, queues its registration and waits for an
  offer with a timeout. A round ends in one of four ways; after each the loop starts again.
\<close>

datatype client_round =
  SendRefused string | OfferTimeout | AwaitFailed string | OfferTaken WsMsg

fun run_client1 :: "string \<Rightarrow> client_round list \<Rightarrow> WsMsg list" where
  "run_client1 session_id [] = []"
| "run_client1 session_id (SendRefused e # rounds) = run_client1 session_id rounds"
| "run_client1 session_id (OfferTimeout # rounds) =
     make_register_msg session_id # run_client1 session_id rounds"
| "run_client1 session_id (AwaitFailed e # rounds) =
     make_register_msg session_id # run_client1 session_id rounds"
| "run_client1 session_id (OfferTaken offer # rounds) =
     make_register_msg session_id # run_client1 session_id rounds"

text \<open>Whatever it receives it sends nothing but registrations: an offer is taken and dropped.\<close>

lemma run_client1_only_registers: "set (run_client1 session_id rounds) \<subseteq> {make_register_msg session_id}"
  by (induction session_id rounds rule: run_client1.induct) auto

end
