(* ===== verification/Ice_Con.thy ===== *)
theory Ice_Con
  imports Vamp_Prelude
begin

text \<open>
  The echo connection of \<^verbatim>\<open>src/ice_con.rs\<close>: its identifier, the state it mirrors from the peer
  connection, the echo of its channels; and the TURN server that \<^verbatim>\<open>rtc_peer_stuff.rs\<close> reads from the
  environment. What the \<^verbatim>\<open>webrtc\<close> crate returns and reports is an argument.
\<close>

section \<open>Clock and identifiers\<close>

text \<open>The system time in nanoseconds since the epoch; before the epoch the duration is zero.\<close>

definition now_ms :: "int \<Rightarrow> nat" where
  "now_ms clock = nat clock div 1000000"

definition hex_char :: "nat \<Rightarrow> char" where
  "hex_char d = char_of (if d < 10 then 48 + d else 87 + d)"

definition hex_val :: "char \<Rightarrow> nat" where
  "hex_val c = (let k = of_char c :: nat in if k < 58 then k - 48 else k - 87)"

fun show_hex :: "nat \<Rightarrow> string" where
  "show_hex n = (if n < 16 then [hex_char n] else show_hex (n div 16) @ [hex_char (n mod 16)])"

declare show_hex.simps [simp del]

definition new_id :: "int \<Rightarrow> string" where
  "new_id clock = show_hex (now_ms clock)"

definition read_hex :: "string \<Rightarrow> nat" where
  "read_hex s = foldl (\<lambda>n c. 16 * n + hex_val c) 0 s"

lemma hex_val_hex_char [simp]: "d < 16 \<Longrightarrow> hex_val (hex_char d) = d"
  by (simp add: hex_val_def hex_char_def Let_def)

lemma read_show_hex: "read_hex (show_hex n) = n"
proof (induction n rule: show_hex.induct)
  case (1 n)
  show ?case
  proof (cases "n < 16")
    case True
    then show ?thesis by (subst show_hex.simps) (simp add: read_hex_def)
  next
    case False
    with "1.IH" have "read_hex (show_hex (n div 16)) = n div 16" by simp
    with False show ?thesis by (subst show_hex.simps) (simp add: read_hex_def)
  qed
qed

section \<open>The mirrored state\<close>

datatype ConnectionState = New | Connecting | Connected | Disconnected | Failed | Closed

text \<open>The crate's states that the match names; any other is \<open>PcOther\<close>.\<close>

datatype RTCPeerConnectionState =
  PcNew | PcConnecting | PcConnected | PcDisconnected | PcFailed | PcClosed | PcOther

fun from_pc_state :: "RTCPeerConnectionState \<Rightarrow> ConnectionState" where
  "from_pc_state PcNew = New"
| "from_pc_state PcConnecting = Connecting"
| "from_pc_state PcConnected = Connected"
| "from_pc_state PcDisconnected = Disconnected"
| "from_pc_state PcFailed = Failed"
| "from_pc_state PcClosed = Closed"
| "from_pc_state PcOther = New"

record IceConnection =
  ic_id :: string
  ic_state :: ConnectionState

definition on_pc_state :: "RTCPeerConnectionState \<Rightarrow> IceConnection \<Rightarrow> IceConnection" where
  "on_pc_state s c = c\<lparr>ic_state := from_pc_state s\<rparr>"

definition ice_close :: "string + unit \<Rightarrow> IceConnection \<Rightarrow> (string + unit) \<times> IceConnection" where
  "ice_close pc_close c =
     (case pc_close of Inl e \<Rightarrow> (Inl e, c) | Inr _ \<Rightarrow> (Inr (), c\<lparr>ic_state := Closed\<rparr>))"

definition current_state :: "IceConnection \<Rightarrow> ConnectionState" where
  "current_state c = ic_state c"

text \<open>
  \<open>from_offer\<close>: the results of the crate's calls in their order, and the states it reports before the
  call returns.
\<close>

definition from_offer ::
  "int \<Rightarrow> string + unit \<Rightarrow> string + unit \<Rightarrow> string + unit \<Rightarrow> string + unit \<Rightarrow> string + unit
     \<Rightarrow> string option \<Rightarrow> RTCPeerConnectionState list \<Rightarrow> string + (IceConnection \<times> string)" where
  "from_offer clock new_pc offer set_remote create_answer set_local local_description reports =
     and_then new_pc (\<lambda>_. and_then offer (\<lambda>_. and_then set_remote (\<lambda>_. and_then create_answer (\<lambda>_.
     and_then set_local (\<lambda>_.
       case local_description of
         None \<Rightarrow> Inl ''no local description after ICE gathering''
       | Some sdp \<Rightarrow>
           Inr (fold on_pc_state reports \<lparr>ic_id = new_id clock, ic_state = New\<rparr>, sdp))))))"

section \<open>The echo\<close>

text \<open>\<open>lossy\<close> is \<^verbatim>\<open>String::from_utf8_lossy\<close>; a failed \<^verbatim>\<open>send_text\<close> is logged.\<close>

definition echo_reply :: "('bytes \<Rightarrow> string) \<Rightarrow> int \<Rightarrow> 'bytes \<Rightarrow> string" where
  "echo_reply lossy clock data = show_nat (now_ms clock) @ ''|'' @ lossy data"

text \<open>The first separator ends the time, whatever the message holds.\<close>

definition split_echo :: "string \<Rightarrow> nat option \<times> string" where
  "split_echo s =
     (digits_val 0 (takeWhile (\<lambda>c. c \<noteq> CHR ''|'') s), tl (dropWhile (\<lambda>c. c \<noteq> CHR ''|'') s))"

lemma show_nat_no_bar: "CHR ''|'' \<notin> set (show_nat n)"
proof (induction n rule: show_nat.induct)
  case (1 n)
  have "digit_val (CHR ''|'') = None" by (simp add: digit_val_def)
  then have digit: "d < 10 \<Longrightarrow> CHR ''|'' \<noteq> digit_char d" for d
    using digit_val_digit_char [of d] by auto
  show ?case
  proof (cases "n < 10")
    case True
    then show ?thesis using digit by (subst show_nat.simps) simp
  next
    case False
    then show ?thesis using digit "1.IH" by (subst show_nat.simps) simp
  qed
qed

text \<open>An echo can be taken apart again: what comes before its first bar is the time of the reply in
  milliseconds, and the rest is the message as it was decoded, bars included.\<close>

theorem echo_round_trip:
  "split_echo (echo_reply lossy clock data) = (Some (now_ms clock), lossy data)"
proof -
  have bar: "\<forall>c \<in> set (show_nat (now_ms clock)). c \<noteq> CHR ''|''"
    using show_nat_no_bar [of "now_ms clock"] by auto
  show ?thesis
    using bar by (simp add: split_echo_def echo_reply_def takeWhile_append2 dropWhile_append2 digits_val_show_nat)
qed

text \<open>Two connections have the same identifier exactly if they were made in the same millisecond:
  the identifier is the time in milliseconds, although it is documented as a unique identifier
  from a time in nanoseconds.\<close>

theorem ids_are_milliseconds:
  "new_id t = new_id u \<longleftrightarrow> now_ms t = now_ms u"
  unfolding new_id_def by (metis read_show_hex)

section \<open>What the mirror shows\<close>

datatype ice_event = Reported RTCPeerConnectionState | ClosedBy "string + unit"

fun ice_event_step :: "IceConnection \<Rightarrow> ice_event \<Rightarrow> IceConnection" where
  "ice_event_step c (Reported s) = on_pc_state s c"
| "ice_event_step c (ClosedBy r) = snd (ice_close r c)"

fun shown_by :: "ice_event \<Rightarrow> ConnectionState option" where
  "shown_by (Reported s) = Some (from_pc_state s)"
| "shown_by (ClosedBy (Inr _)) = Some Closed"
| "shown_by (ClosedBy (Inl e)) = None"

text \<open>The state shown is that of the last report or successful close; a close that failed leaves it,
  and a report that comes after a close replaces \<open>Closed\<close>.\<close>

lemma ice_event_step_state:
  "ic_state (ice_event_step c ev) = (case shown_by ev of Some s \<Rightarrow> s | None \<Rightarrow> ic_state c)"
  by (cases ev rule: shown_by.cases) (simp_all add: on_pc_state_def ice_close_def)

theorem mirror_shows_the_last_report:
  "current_state (foldl ice_event_step c evs) = last (ic_state c # List.map_filter shown_by evs)"
proof (induction evs arbitrary: c)
  case Nil
  show ?case by (simp add: current_state_def map_filter_def)
next
  case (Cons ev evs)
  show ?case
    by (simp add: Cons ice_event_step_state map_filter_def split: option.split)
qed

section \<open>The TURN server\<close>

text \<open>\<^verbatim>\<open>str::split_once\<close> at the first colon. A variable that is not set is a panic, as are credentials without a colon.\<close>

fun split_once :: "char \<Rightarrow> string \<Rightarrow> (string \<times> string) option" where
  "split_once d [] = None"
| "split_once d (c # cs) =
     (if c = d then Some ([], cs)
      else (case split_once d cs of None \<Rightarrow> None | Some (a, b) \<Rightarrow> Some (c # a, b)))"

record RTCIceServer =
  is_urls :: "string list"
  is_username :: string
  is_credential :: string

definition coturn_ice_servers_from_env ::
  "(string \<Rightarrow> string option) \<Rightarrow> (string, RTCIceServer list) rust" where
  "coturn_ice_servers_from_env env =
     (case (env ''COTURN_IP'', env ''COTURN_PORT'', env ''STUN_CREDENTIALS'') of
        (Some ip, Some port, Some credentials) \<Rightarrow>
          (case split_once (CHR '':'') credentials of
             Some (user, pass) \<Rightarrow>
               Ok [\<lparr>is_urls = [''turn:'' @ ip @ '':'' @ port], is_username = user, is_credential = pass\<rparr>]
           | None \<Rightarrow> Panic)
      | _ \<Rightarrow> Panic)"

lemma split_once_at: "d \<notin> set a \<Longrightarrow> split_once d (a @ d # b) = Some (a, b)"
  by (induction a) auto

text \<open>A password may hold colons, a user name may not.\<close>

lemma coturn_credentials:
  assumes "env ''COTURN_IP'' = Some ip" and "env ''COTURN_PORT'' = Some port"
    and "env ''STUN_CREDENTIALS'' = Some (user @ '':'' @ pass)" and "CHR '':'' \<notin> set user"
  shows "coturn_ice_servers_from_env env =
    Ok [\<lparr>is_urls = [''turn:'' @ ip @ '':'' @ port], is_username = user, is_credential = pass\<rparr>]"
  using assms split_once_at [of "CHR '':''" user pass]
  by (simp add: coturn_ice_servers_from_env_def)

end
