(* ===== verification/Reply_Types.thy ===== *)
theory Reply_Types
  imports Dispatch
begin

text \<open>
  The types of the replies: the JSON that a client can expect of each command, from the results that
  \<^verbatim>\<open>db/repository.rs\<close> declares and the serialisers that \<^verbatim>\<open>db/schema.rs\<close> derives. Every reply of
  the dispatcher has the type of its command.
\<close>

section \<open>Types of JSON values\<close>

datatype json_ty =
    TNull
  | TNumber
  | TReal
  | TText
  | TNullable json_ty
  | TList json_ty
  | TStruct "(string \<times> json_ty) list"

lemma field_size: "f \<in> set fs \<Longrightarrow> size (snd f) < Suc (size_list (size_prod (\<lambda>_. 0) size) fs)"
  by (induction fs) auto

text \<open>A struct has its fields in their order, which is that of the declaration.\<close>

function conforms :: "json_ty \<Rightarrow> json \<Rightarrow> bool" where
  "conforms TNull j = (j = JNull)"
| "conforms TNumber j = (case j of JInt n \<Rightarrow> True | _ \<Rightarrow> False)"
| "conforms TReal j = (case j of JReal q \<Rightarrow> True | _ \<Rightarrow> False)"
| "conforms TText j = (case j of JStr s \<Rightarrow> True | _ \<Rightarrow> False)"
| "conforms (TNullable t) j = (j = JNull \<or> conforms t j)"
| "conforms (TList t) j = (case j of JArr js \<Rightarrow> list_all (conforms t) js | _ \<Rightarrow> False)"
| "conforms (TStruct fs) j =
     (case j of
        JObj kvs \<Rightarrow> list_all2 (\<lambda>f kv. fst f = fst kv \<and> conforms (snd f) (snd kv)) fs kvs
      | _ \<Rightarrow> False)"
  by pat_completeness auto

termination
  by (relation "measure (\<lambda>(t, j). size t)") (auto dest: field_size)

section \<open>The types of the rows\<close>

definition track_ty :: "(string \<times> json_ty) list" where
  "track_ty =
     [(''id'', TText), (''artist'', TText), (''track_name'', TText),
      (''length_seconds'', TNullable TNumber), (''bitrate_kbps'', TNullable TNumber),
      (''tempo_bpm'', TNullable TReal), (''addition_time'', TText), (''listened_seconds'', TNumber)]"

definition source_ty :: json_ty where
  "source_ty = TStruct [(''id'', TText), (''track_id'', TText), (''url'', TText)]"

definition track_with_sources_ty :: json_ty where
  "track_with_sources_ty = TStruct (track_ty @ [(''sources'', TList source_ty)])"

definition listen_ty :: json_ty where
  "listen_ty =
     TStruct [(''id'', TText), (''track_id'', TText), (''listened_from'', TNumber), (''listened_to'', TNumber)]"

definition tag_ty :: json_ty where
  "tag_ty = TStruct [(''id'', TText), (''tag_name'', TText)]"

definition meta_ty :: json_ty where
  "meta_ty = TStruct [(''id'', TText), (''track_id'', TText), (''key'', TText), (''value'', TText)]"

lemma conforms_nullable: "(\<And>x. conforms t (f x)) \<Longrightarrow> conforms (TNullable t) (opt_json f v)"
  by (cases v) simp_all

lemma track_fields_ty:
  "list_all2 (\<lambda>f kv. fst f = fst kv \<and> conforms (snd f) (snd kv)) track_ty (track_fields t)"
  by (simp add: track_ty_def track_fields_def conforms_nullable del: conforms.simps(5))

lemma row_types:
  "conforms (TStruct track_ty) (track_json t)"
  "conforms source_ty (source_json s)"
  "conforms track_with_sources_ty (track_with_sources_json w)"
  "conforms listen_ty (listen_json l)"
  "conforms tag_ty (tag_json g)"
  "conforms meta_ty (meta_json m)"
proof -
  show source: "conforms source_ty (source_json s)" for s
    by (simp add: source_ty_def source_json_def)
  show "conforms (TStruct track_ty) (track_json t)" by (simp add: track_json_def track_fields_ty)
  show "conforms track_with_sources_ty (track_with_sources_json w)"
    by (simp add: track_with_sources_ty_def track_with_sources_json_def track_fields_ty
        list_all2_appendI list_all_iff source)
qed (simp_all add: listen_ty_def listen_json_def tag_ty_def tag_json_def meta_ty_def meta_json_def)

lemma list_types: "(\<And>x. conforms t (f x)) \<Longrightarrow> conforms (TList t) (JArr (map f xs))"
  by (simp add: list_all_iff)

section \<open>The types of the commands\<close>

text \<open>
  What the repository's operations return: \<^verbatim>\<open>i64\<close> for a new row, \<^verbatim>\<open>()\<close>, or rows. The commands that
  have no operation answer as \<^verbatim>\<open>execute\<close> does.
\<close>

fun reply_type :: "Command \<Rightarrow> json_ty" where
  "reply_type (AddTrack t) = TNumber"
| "reply_type (AddTracks ts) = TList TNumber"
| "reply_type (UpdateTrack a) = TNull"
| "reply_type (GetTracks a) = TList (TStruct track_ty)"
| "reply_type (GetTracksWithSources a) = TList track_with_sources_ty"
| "reply_type (GetTracksFiltered a) = TList (TStruct track_ty)"
| "reply_type (GetTrack b) = TStruct track_ty"
| "reply_type (DeleteTrack b) = TNull"
| "reply_type (AddListen a) = TNumber"
| "reply_type (GetListensForTrack b) = TList listen_ty"
| "reply_type (AddListenedSeconds a) = TNull"
| "reply_type (AddTag n) = TNumber"
| "reply_type (EditTag a) = TNull"
| "reply_type (DeleteTag b) = TNull"
| "reply_type GetAllTags = TList tag_ty"
| "reply_type (GetTags p) = TList tag_ty"
| "reply_type (AssignTag a) = TNull"
| "reply_type (AssignTags as) = TNull"
| "reply_type (RemoveTag a) = TNull"
| "reply_type (GetTagsForTrack b) = TList tag_ty"
| "reply_type (AddMeta a) = TNumber"
| "reply_type (UpdateMeta a) = TNull"
| "reply_type (DeleteMeta b) = TNull"
| "reply_type (GetMetaForTrack b) = TList meta_ty"
| "reply_type (AddTrackSource a) = TNumber"
| "reply_type (RemoveTrackSource a) = TNull"
| "reply_type (EditTrackSource a) = TNull"
| "reply_type (GetSourcesForTrack b) = TList source_ty"
| "reply_type GetHtmlBundle = TText"
| "reply_type (LogFromUi m) = TNull"
| "reply_type ResetDatabase = TNull"
| "reply_type (PageSource url) = TText"

section \<open>Every reply has its type\<close>

definition reply_conforms :: "json_ty \<Rightarrow> ('e, json) rust \<times> 's \<Rightarrow> bool" where
  "reply_conforms t p = (case fst p of Ok v \<Rightarrow> conforms t v | _ \<Rightarrow> True)"

named_theorems reply_rules "replies that have their type"

lemma reply_conforms_ok [simp]:
  "reply_conforms t (Ok v, s) = conforms t v"
  "reply_conforms t (Err e, s)" "reply_conforms t (Panic, s)"
  by (simp_all add: reply_conforms_def)

lemma on_repo_conforms [reply_rules]:
  assumes "\<And>x. conforms t (j x)"
  shows "reply_conforms t (on_repo W j f s)"
proof (cases "f (ex_repo s)")
  case (Pair r d)
  then show ?thesis using assms by (cases r) (simp_all add: on_repo_def to_val_def)
qed

lemma with_id_conforms [reply_rules]:
  assumes "\<And>n. reply_conforms t (k n s)"
  shows "reply_conforms t (with_id b k s)"
  using assms by (auto simp: with_id_def split: rust.split)

lemma with_cursor_conforms [reply_rules]:
  assumes "\<And>c. reply_conforms t (k c s)"
  shows "reply_conforms t (with_cursor c k s)"
  using assms by (cases c) (simp_all add: with_cursor_def with_id_conforms)

lemma number_conforms: "conforms TNumber (JInt n)"
  by simp

lemma numbers_conform: "conforms (TList TNumber) (JArr (map JInt ns))"
  by (simp add: list_all_iff)

lemma listened_seconds_conforms:
  "reply_conforms TNull (execute W (AddListenedSeconds a) s)"
  by (auto simp: with_id_conforms on_repo_conforms null_val_def
      split: prod.split rust.split bool.split)

lemma html_bundle_conforms: "reply_conforms TText (execute W GetHtmlBundle s)"
  by (simp add: get_script_data_def split: option.split)

lemma execute_conforms: "reply_conforms (reply_type cmd) (execute W cmd s)"
proof (cases cmd)
  case (AddListenedSeconds a)
  then show ?thesis using listened_seconds_conforms by simp
next
  case GetHtmlBundle
  then show ?thesis using html_bundle_conforms by simp
qed (simp_all del: conforms.simps
      add: on_repo_conforms with_id_conforms with_cursor_conforms null_val_def
        number_conforms numbers_conform row_types list_types conforms.simps(1,4))

text \<open>A number is not text: what answers the making of a row is no id of \<^verbatim>\<open>BigintId\<close>.\<close>

lemma number_is_not_text: "conforms TNumber v \<Longrightarrow> \<not> conforms TText v"
  by (cases v) simp_all

end
