(* ===== verification/Handler.thy ===== *)
theory Handler
  imports Transport Node_Properties
begin

text \<open>
  \<^verbatim>\<open>TransportHandler\<close> of \<^verbatim>\<open>rtc/ws_node_handler.rs\<close> as it runs: the node with the callback it calls for
  every frame, the task that sends the queued acknowledgements through the node's queue, and
  \<^verbatim>\<open>stop\<close>, which ends the task before it ends the node.
\<close>

section \<open>State\<close>

text \<open>The task waits in its \<^verbatim>\<open>select!\<close>, or in \<^verbatim>\<open>send\<close> on the node's queue, or is over.\<close>

datatype 'c ack_task = AckIdle | AckSending 'c | AckOver

datatype stop_phase = NotStopped | JoiningAckTask | StoppingNode | StopReturned

record ('t, 'c) handler =
  th_node :: "'c node"
  th_receiver :: "'t receiver"
  th_stopper :: bool
  th_ack_task :: "'c ack_task"
  th_stop :: stop_phase

definition new_handler :: "('t, 'c) handler" where
  "new_handler =
     \<lparr>th_node = new_node, th_receiver = new_receiver, th_stopper = False, th_ack_task = AckIdle,
      th_stop = NotStopped\<rparr>"

text \<open>\<^verbatim>\<open>control()\<close> and its \<^verbatim>\<open>cancel\<close> reach the same token; \<^verbatim>\<open>cancelled\<close> returns once it is set.\<close>

definition handler_cancel :: "('t, 'c) handler \<Rightarrow> ('t, 'c) handler" where
  "handler_cancel h = h\<lparr>th_stopper := True\<rparr>"

definition handler_cancelled :: "('t, 'c) handler \<Rightarrow> unit option" where
  "handler_cancelled h = (if th_stopper h then Some () else None)"

definition send_raw :: "'c \<Rightarrow> ('t, 'c) handler \<Rightarrow> (string + unit) option \<times> ('t, 'c) handler" where
  "send_raw m h = (case node_send m (th_node h) of (r, n) \<Rightarrow> (r, h\<lparr>th_node := n\<rparr>))"

section \<open>Steps\<close>

text \<open>
  A step of the node is calm, or handles a frame, which calls the callback, or queues one, which only
  a caller of \<^verbatim>\<open>send\<close> does, so not after \<^verbatim>\<open>stop\<close> has taken the handler.
\<close>

inductive handler_step ::
  "('c \<Rightarrow> string + 't TransportMsg) \<Rightarrow> ('t TransportMsg \<Rightarrow> string + 'c)
     \<Rightarrow> ('t, 'c) handler \<Rightarrow> ('t, 'c) handler \<Rightarrow> bool"
  for decoder encoder where
  node_alone: "calm_step (th_node h) n \<Longrightarrow> handler_step decoder encoder h (h\<lparr>th_node := n\<rparr>)"
| frame_handled: "nd_receiver (th_node h) = RecvOpen \<Longrightarrow>
    handler_step decoder encoder h
      (h\<lparr>th_node := (th_node h)\<lparr>nd_handled := nd_handled (th_node h) @ [m]\<rparr>,
         th_receiver := ws_node_handle decoder m (th_receiver h)\<rparr>)"
| frame_queued: "th_stop h = NotStopped \<Longrightarrow> queue_open (th_node h) \<Longrightarrow>
    length (nd_queue (th_node h)) < queue_capacity \<Longrightarrow>
    handler_step decoder encoder h (h\<lparr>th_node := enqueue m (th_node h)\<rparr>)"

| ack_taken: "th_ack_task h = AckIdle \<Longrightarrow> rx_acks (th_receiver h) \<noteq> [] \<Longrightarrow>
    send_ack encoder (th_receiver h) = (w, r) \<Longrightarrow>
    handler_step decoder encoder h
      (h\<lparr>th_receiver := r, th_ack_task := (case w of Some wire \<Rightarrow> AckSending wire | None \<Rightarrow> AckIdle)\<rparr>)"
| ack_queued: "th_ack_task h = AckSending w \<Longrightarrow> queue_open (th_node h) \<Longrightarrow>
    length (nd_queue (th_node h)) < queue_capacity \<Longrightarrow>
    handler_step decoder encoder h (h\<lparr>th_node := enqueue w (th_node h), th_ack_task := AckIdle\<rparr>)"
| ack_refused: "th_ack_task h = AckSending w \<Longrightarrow> \<not> queue_open (th_node h) \<Longrightarrow>
    handler_step decoder encoder h (h\<lparr>th_ack_task := AckIdle\<rparr>)"
| ack_cancelled: "th_ack_task h = AckIdle \<Longrightarrow> th_stopper h \<Longrightarrow>
    handler_step decoder encoder h (h\<lparr>th_ack_task := AckOver\<rparr>)"
| ack_queue_gone: "th_ack_task h = AckIdle \<Longrightarrow> rx_acks (th_receiver h) = [] \<Longrightarrow>
    nd_phase (th_node h) = Ended \<or> nd_receiver (th_node h) = RecvPanicked \<Longrightarrow>
    handler_step decoder encoder h (h\<lparr>th_ack_task := AckOver\<rparr>)"

| cancel_called: "handler_step decoder encoder h (handler_cancel h)"
| stop_called: "th_stop h = NotStopped \<Longrightarrow>
    handler_step decoder encoder h ((handler_cancel h)\<lparr>th_stop := JoiningAckTask\<rparr>)"
| ack_task_joined: "th_stop h = JoiningAckTask \<Longrightarrow> th_ack_task h = AckOver \<Longrightarrow>
    handler_step decoder encoder h
      (h\<lparr>th_node := (th_node h)\<lparr>nd_stopped := True\<rparr>, th_stop := StoppingNode\<rparr>)"
| node_ended: "th_stop h = StoppingNode \<Longrightarrow> nd_end_notified (th_node h) \<Longrightarrow>
    handler_step decoder encoder h (h\<lparr>th_stop := StopReturned\<rparr>)"

section \<open>The invariant, and the node below\<close>

text \<open>Acknowledgements are made of frames that were handled.\<close>

definition acked_frames :: "('c \<Rightarrow> string + 't TransportMsg) \<Rightarrow> 'c list \<Rightarrow> 't TransportMsg set" where
  "acked_frames decoder ms = {Ack sn node | sn node. \<exists>p. Inr (Normal sn node p) \<in> decoder ` set ms}"

definition handler_ok ::
  "('c \<Rightarrow> string + 't TransportMsg) \<Rightarrow> ('t TransportMsg \<Rightarrow> string + 'c) \<Rightarrow> ('t, 'c) handler \<Rightarrow> bool" where
  "handler_ok decoder encoder h \<longleftrightarrow>
     node_step\<^sup>*\<^sup>* new_node (th_node h)
   \<and> (nd_stopped (th_node h) \<longleftrightarrow> th_stop h = StoppingNode \<or> th_stop h = StopReturned)
   \<and> (th_stop h \<noteq> NotStopped \<longrightarrow> th_stopper h)
   \<and> (th_stop h = StoppingNode \<or> th_stop h = StopReturned \<longrightarrow> th_ack_task h = AckOver)
   \<and> (th_stop h = StopReturned \<longrightarrow> nd_end_notified (th_node h))
   \<and> set (rx_acks (th_receiver h)) \<subseteq> acked_frames decoder (nd_handled (th_node h))
   \<and> (\<forall>w. th_ack_task h = AckSending w \<longrightarrow>
        (\<exists>a \<in> acked_frames decoder (nd_handled (th_node h)). encoder a = Inr w))"

lemma acked_frames_mono: "set ms \<subseteq> set ns \<Longrightarrow> acked_frames decoder ms \<subseteq> acked_frames decoder ns"
  unfolding acked_frames_def by blast

lemma calm_facts:
  assumes "calm_step n n'"
  shows "node_step n n'" and "nd_stopped n' = nd_stopped n" and "nd_handled n' = nd_handled n"
  using assms by (simp_all add: calm_step_def)

lemma end_notified_stays: "node_step n n' \<Longrightarrow> nd_end_notified n \<Longrightarrow> nd_end_notified n'"
  by (induction rule: node_step.induct) (auto simp: node_defs)

lemma ws_node_handle_acks:
  "set (rx_acks (ws_node_handle decoder m r)) \<subseteq> set (rx_acks r) \<union> acked_frames decoder [m]"
proof (cases "decoder m")
  case (Inr t)
  show ?thesis
  proof (cases t)
    case (Normal sn node p)
    have "Ack sn node \<in> acked_frames decoder [m]"
      using Inr Normal by (auto simp: acked_frames_def image_def)
    then show ?thesis using Inr Normal
      by (auto simp: ws_node_handle_def try_push_def Let_def split: prod.split bool.split)
  qed (simp add: Inr ws_node_handle_def)
qed (simp add: ws_node_handle_def)

lemma send_ack_taken:
  "send_ack encoder r = (w, r') \<Longrightarrow>
     rx_acks r = [] \<or> (\<exists>a. rx_acks r = a # rx_acks r' \<and> (\<forall>wire. w = Some wire \<longrightarrow> encoder a = Inr wire))"
  by (auto simp: send_ack_def split: list.splits sum.splits)

lemma handler_ok_new: "handler_ok decoder encoder new_handler"
  by (simp add: handler_ok_def new_handler_def new_receiver_def new_node_def)

lemma handler_ok_step:
  "handler_step decoder encoder h h' \<Longrightarrow> handler_ok decoder encoder h \<Longrightarrow> handler_ok decoder encoder h'"
proof (induction rule: handler_step.induct)
  case (node_alone h n)
  then show ?case
    using node_trace [of new_node "th_node h" n] calm_facts [of "th_node h" n]
      end_notified_stays [of "th_node h" n]
    by (auto simp: handler_ok_def)
next
  case (frame_handled h m)
  let ?n = "(th_node h)\<lparr>nd_handled := nd_handled (th_node h) @ [m]\<rparr>"
  have "node_step\<^sup>*\<^sup>* new_node ?n"
    by (intro node_trace [OF _ message_handled]) (use frame_handled in \<open>simp_all add: handler_ok_def\<close>)
  moreover have "acked_frames decoder (nd_handled (th_node h)) \<subseteq> acked_frames decoder (nd_handled ?n)"
    "acked_frames decoder [m] \<subseteq> acked_frames decoder (nd_handled ?n)"
    by (rule acked_frames_mono; auto)+
  ultimately show ?case
    using frame_handled ws_node_handle_acks [of decoder m "th_receiver h"]
    unfolding handler_ok_def by simp blast
next
  case (frame_queued h m)
  have "node_step\<^sup>*\<^sup>* new_node (enqueue m (th_node h))"
    by (intro node_trace [OF _ queued]) (use frame_queued in \<open>simp_all add: handler_ok_def\<close>)
  then show ?case using frame_queued by (simp add: handler_ok_def enqueue_def)
next
  case (ack_taken h w r)
  then obtain a where a: "rx_acks (th_receiver h) = a # rx_acks r" "\<forall>wire. w = Some wire \<longrightarrow> encoder a = Inr wire"
    using send_ack_taken [OF ack_taken(3)] by blast
  then show ?case using ack_taken by (auto simp: handler_ok_def split: option.splits)
next
  case (ack_queued h w)
  have "node_step\<^sup>*\<^sup>* new_node (enqueue w (th_node h))"
    by (intro node_trace [OF _ queued]) (use ack_queued in \<open>simp_all add: handler_ok_def\<close>)
  then show ?case using ack_queued by (auto simp: handler_ok_def enqueue_def)
next
  case (ack_task_joined h)
  have "node_step\<^sup>*\<^sup>* new_node ((th_node h)\<lparr>nd_stopped := True\<rparr>)"
    by (intro node_trace [OF _ node_step.stop_called]) (use ack_task_joined in \<open>simp add: handler_ok_def\<close>)
  then show ?case using ack_task_joined by (simp add: handler_ok_def)
qed (auto simp: handler_ok_def handler_cancel_def)

interpretation handler: transition_system "handler_step decoder encoder" "handler_ok decoder encoder"
  for decoder encoder
  by unfold_locales (rule handler_ok_step)

lemma handler_reached:
  "(handler_step decoder encoder)\<^sup>*\<^sup>* new_handler h \<Longrightarrow> handler_ok decoder encoder h"
  by (rule handler.reached_inv [OF _ handler_ok_new])

lemma handler_node_ok: "handler_ok decoder encoder h \<Longrightarrow> node_ok (th_node h)"
  unfolding handler_ok_def using node_reached by blast

section \<open>Stopping\<close>

text \<open>The acknowledgement task is in \<^verbatim>\<open>send\<close>, the queue is full, and no connection is open to drain it.\<close>

definition stuck :: "('t, 'c) handler \<Rightarrow> bool" where
  "stuck h \<longleftrightarrow>
     th_stop h = JoiningAckTask \<and> (\<exists>w. th_ack_task h = AckSending w)
   \<and> (nd_phase (th_node h) = Dialing \<or> nd_phase (th_node h) = Backoff)
   \<and> length (nd_queue (th_node h)) = queue_capacity \<and> \<not> nd_stopped (th_node h)"

lemma stuck_node:
  assumes "node_step n n'" and "tasks_ok n" and "nd_phase n = Dialing \<or> nd_phase n = Backoff"
    and "\<not> nd_stopped n" and "nd_stopped n' = nd_stopped n" and "length (nd_queue n) = queue_capacity"
  shows "nd_connections n' = nd_connections n + 1
      \<or> (nd_phase n' = Dialing \<or> nd_phase n' = Backoff) \<and> nd_queue n' = nd_queue n
        \<and> nd_connections n' = nd_connections n"
  using assms
  by (induction rule: node_step.induct) (auto simp: tasks_ok_def node_defs queue_open_def)

lemma connections_grow: "node_step n n' \<Longrightarrow> nd_connections n \<le> nd_connections n'"
  by (induction rule: node_step.induct) (auto simp: node_defs)

lemma handler_connections_grow:
  "handler_step decoder encoder h h' \<Longrightarrow> nd_connections (th_node h) \<le> nd_connections (th_node h')"
  by (induction rule: handler_step.induct)
    (auto simp: handler_cancel_def enqueue_def calm_facts intro: connections_grow)

lemma handler_stuck_step:
  assumes "handler_step decoder encoder h h'" and "handler_ok decoder encoder h" and "stuck h"
  shows "nd_connections (th_node h') = nd_connections (th_node h) + 1 \<or> stuck h'"
  using assms
proof (induction rule: handler_step.induct)
  case (node_alone h n)
  have "tasks_ok (th_node h)" using handler_node_ok [OF node_alone(2)] by (simp add: node_ok_def)
  then show ?case
    using stuck_node [of "th_node h" n] calm_facts [OF node_alone(1)] node_alone(3)
    by (auto simp: stuck_def)
next
  case (frame_handled h m)
  have "tasks_ok (th_node h)" using handler_node_ok [OF frame_handled(2)] by (simp add: node_ok_def)
  then show ?case using frame_handled by (auto simp: stuck_def tasks_ok_def)
next
  case (ack_refused h w)
  have "tasks_ok (th_node h)" using handler_node_ok [OF ack_refused(3)] by (simp add: node_ok_def)
  then show ?case using ack_refused by (auto simp: stuck_def tasks_ok_def queue_open_def)
qed (auto simp: stuck_def handler_cancel_def)

text \<open>C25: \<open>stop\<close> waits for the acknowledgement task, which is not looking at its token while it waits
  for room in the node's queue. If that queue is full while the node has no connection, \<open>stop\<close>
  does not return before the node has opened another one: the node it would stop is not told.\<close>

theorem stop_waits_for_a_connection:
  assumes "(handler_step decoder encoder)\<^sup>*\<^sup>* new_handler h" and "stuck h"
    and "(handler_step decoder encoder)\<^sup>*\<^sup>* h h'"
    and "nd_connections (th_node h') = nd_connections (th_node h)"
  shows "th_stop h' = JoiningAckTask \<and> length (nd_queue (th_node h')) = queue_capacity"
proof -
  have "handler_ok decoder encoder h' \<and> nd_connections (th_node h) \<le> nd_connections (th_node h')
      \<and> (nd_connections (th_node h') = nd_connections (th_node h) \<longrightarrow> stuck h')"
    using assms(3)
  proof (induction rule: rtranclp_induct)
    case base
    show ?case using handler_reached [OF assms(1)] assms(2) by simp
  next
    case (step y z)
    then show ?case
      using handler_ok_step [OF step(2)] handler_connections_grow [OF step(2)] handler_stuck_step [OF step(2)]
      by auto
  qed
  then show ?thesis using assms(4) by (simp add: stuck_def)
qed

text \<open>Such a state is reached: a connection that received one frame breaks, the application queues
  sixty-four messages, the task takes the acknowledgement of the frame, and \<open>stop\<close> is called.\<close>

definition no_decoder :: "nat TransportMsg \<Rightarrow> string + nat TransportMsg" where
  "no_decoder m = Inr m"

abbreviation plain_step :: "(nat, nat TransportMsg) handler \<Rightarrow> (nat, nat TransportMsg) handler \<Rightarrow> bool" where
  "plain_step \<equiv> handler_step no_decoder Inr"

definition one_frame :: "nat TransportMsg" where "one_frame = Normal 0 ''peer'' 5"

definition broken :: "(nat, nat TransportMsg) handler" where
  "broken = new_handler
     \<lparr>th_node := new_node\<lparr>nd_local_stopped := True, nd_connected := True, nd_handled := [one_frame],
        nd_connections := 1\<rparr>,
      th_receiver := ws_node_handle no_decoder one_frame new_receiver\<rparr>"

lemma handler_trace: "r\<^sup>*\<^sup>* a b \<Longrightarrow> r b c \<Longrightarrow> r\<^sup>*\<^sup>* a c"
  by (rule rtranclp.rtrancl_into_rtrancl)

lemma calm_lift:
  "calm_step\<^sup>*\<^sup>* n n' \<Longrightarrow> th_node h = n \<Longrightarrow> (handler_step decoder encoder)\<^sup>*\<^sup>* h (h\<lparr>th_node := n'\<rparr>)"
proof (induction rule: rtranclp_induct)
  case base
  then show ?case by (metis handler.surjective handler.update_convs(1) rtranclp.rtrancl_refl)
next
  case (step y z)
  then show ?case
    using handler_trace node_alone [of "h\<lparr>th_node := y\<rparr>" z decoder encoder] by fastforce
qed

lemma enqueue_many:
  "(enqueue m ^^ k) n =
     n\<lparr>nd_queue := nd_queue n @ replicate k m, nd_accepted := nd_accepted n @ replicate k m\<rparr>"
  by (induction k) (simp_all add: enqueue_def replicate_append_same)

lemma fill_queue:
  assumes "th_stop h = NotStopped" and "queue_open (th_node h)"
    and "length (nd_queue (th_node h)) + k \<le> queue_capacity"
  shows "(handler_step decoder encoder)\<^sup>*\<^sup>* h (h\<lparr>th_node := (enqueue m ^^ k) (th_node h)\<rparr>)"
  using assms(3)
proof (induction k)
  case 0
  then show ?case by simp
next
  case (Suc k)
  let ?h = "h\<lparr>th_node := (enqueue m ^^ k) (th_node h)\<rparr>"
  have "handler_step decoder encoder ?h (?h\<lparr>th_node := enqueue m (th_node ?h)\<rparr>)"
    by (rule frame_queued)
      (use assms Suc.prems in \<open>auto simp: enqueue_many queue_open_def split: sender_task.splits\<close>)
  then show ?case using handler_trace [OF Suc.IH] Suc.prems by simp
qed

lemma calmI:
  "node_step n n' \<Longrightarrow> nd_stopped n' = nd_stopped n \<and> nd_senders_gone n' = nd_senders_gone n
     \<and> nd_accepted n' = nd_accepted n \<and> nd_handled n' = nd_handled n \<Longrightarrow> calm_step n n'"
  by (simp add: calm_step_def)

lemma calm_trace: "calm_step\<^sup>*\<^sup>* n n' \<Longrightarrow> calm_step n' n'' \<Longrightarrow> calm_step\<^sup>*\<^sup>* n n''"
  by (rule rtranclp.rtrancl_into_rtrancl)

text \<open>A connection whose receiver ends is given up, and the node dials again.\<close>

lemma connection_breaks:
  assumes "nd_phase n = Serving" and "nd_receiver n = RecvOpen" and "nd_sender n = SendIdle"
    and "\<not> nd_stopped n"
  shows "calm_step\<^sup>*\<^sup>* n (n\<lparr>nd_phase := Dialing, nd_receiver := RecvOver, nd_sender := SendOver,
           nd_local_stopped := True\<rparr>)"
proof -
  let ?a = "n\<lparr>nd_receiver := RecvOver\<rparr>"
  let ?b = "?a\<lparr>nd_phase := SenderLeft, nd_local_stopped := True\<rparr>"
  let ?c = "?b\<lparr>nd_sender := SendOver\<rparr>"
  have a: "calm_step n ?a" by (rule calmI [OF receive_ended]) (use assms in simp_all)
  have b: "calm_step ?a ?b" by (rule calmI [OF receiver_first]) (use assms in simp_all)
  have c: "calm_step ?b ?c"
    by (rule calmI [OF sender_cancelled]) (use assms in \<open>simp_all add: task_cancelled_def\<close>)
  have d: "calm_step ?c (next_round ?c)"
    by (rule calmI [OF sender_joined]) (use assms in \<open>simp_all add: next_round_def\<close>)
  have "calm_step\<^sup>*\<^sup>* n (next_round ?c)"
    by (rule calm_trace [OF calm_trace [OF calm_trace [OF calm_trace [OF rtranclp.rtrancl_refl a] b] c] d])
  moreover have "next_round ?c = n\<lparr>nd_phase := Dialing, nd_receiver := RecvOver, nd_sender := SendOver,
      nd_local_stopped := True\<rparr>"
    using assms(4) by (simp add: next_round_def)
  ultimately show ?thesis by simp
qed

lemma broken_reached: "plain_step\<^sup>*\<^sup>* new_handler broken"
proof -
  let ?n = "new_node\<lparr>nd_phase := Serving, nd_connected := True, nd_local_stopped := False,
      nd_sender := SendIdle, nd_receiver := RecvOpen, nd_connections := 1\<rparr> :: nat TransportMsg node"
  let ?h1 = "new_handler\<lparr>th_node := ?n\<rparr>"
  let ?h2 = "?h1\<lparr>th_node := ?n\<lparr>nd_handled := nd_handled ?n @ [one_frame]\<rparr>,
      th_receiver := ws_node_handle no_decoder one_frame (th_receiver ?h1)\<rparr>"
  have "calm_step new_node ?n"
    using connected [of "new_node :: nat TransportMsg node"] by (simp add: calm_step_def new_node_def)
  then have "plain_step new_handler ?h1"
    using node_alone [of new_handler ?n no_decoder Inr] by (simp add: new_handler_def)
  moreover have "plain_step ?h1 ?h2"
    using frame_handled [of ?h1 no_decoder Inr one_frame] by simp
  ultimately have run: "plain_step\<^sup>*\<^sup>* new_handler ?h2"
    by (rule handler_trace [OF handler_trace [OF rtranclp.rtrancl_refl]])
  have breaks: "plain_step\<^sup>*\<^sup>* ?h2 (?h2\<lparr>th_node := (th_node ?h2)\<lparr>nd_phase := Dialing, nd_receiver := RecvOver,
      nd_sender := SendOver, nd_local_stopped := True\<rparr>\<rparr>)"
    by (rule calm_lift [OF connection_breaks]) (simp_all add: new_node_def)
  have same: "?h2\<lparr>th_node := (th_node ?h2)\<lparr>nd_phase := Dialing, nd_receiver := RecvOver,
      nd_sender := SendOver, nd_local_stopped := True\<rparr>\<rparr> = broken"
    by (simp add: broken_def new_handler_def new_node_def)
  show ?thesis using rtranclp_trans [OF run breaks] unfolding same .
qed

lemma stuck_reached:
  "\<exists>h. plain_step\<^sup>*\<^sup>* new_handler h \<and> stuck h \<and> rx_delivered (th_receiver h) = [5]"
proof -
  let ?full = "broken\<lparr>th_node := (enqueue one_frame ^^ queue_capacity) (th_node broken)\<rparr>"
  have ack: "ws_node_handle no_decoder one_frame new_receiver =
      \<lparr>rx_filter = \<lparr>sf_node_id = Some ''peer'', sf_last_sn = Some 0\<rparr>, rx_acks = [Ack 0 ''peer''],
       rx_incoming = [], rx_delivered = [5]\<rparr>"
    by (simp add: ws_node_handle_def no_decoder_def one_frame_def new_receiver_def new_filter_def
        sn_next_def try_push_def ack_capacity_def)
  let ?taken = "?full\<lparr>th_receiver := (th_receiver ?full)\<lparr>rx_acks := []\<rparr>, th_ack_task := AckSending (Ack 0 ''peer'')\<rparr>"
  let ?stop = "(handler_cancel ?taken)\<lparr>th_stop := JoiningAckTask\<rparr>"
  have idle: "th_stop broken = NotStopped" "th_ack_task broken = AckIdle" "queue_open (th_node broken)"
    "nd_queue (th_node broken) = []"
    by (simp_all add: broken_def new_handler_def new_node_def queue_open_def)
  have "plain_step\<^sup>*\<^sup>* broken ?full"
    by (rule fill_queue) (simp_all add: idle)
  moreover have "plain_step ?full (?full\<lparr>th_receiver := (th_receiver ?full)\<lparr>rx_acks := []\<rparr>,
      th_ack_task := (case Some (Ack 0 ''peer'') of Some wire \<Rightarrow> AckSending wire | None \<Rightarrow> AckIdle)\<rparr>)"
    by (rule ack_taken) (simp_all add: idle, simp_all add: broken_def ack send_ack_def)
  moreover have "plain_step ?taken ?stop"
    by (rule handler_step.stop_called) (simp add: idle)
  ultimately have "plain_step\<^sup>*\<^sup>* broken ?stop" by (simp add: handler_trace)
  moreover have "stuck ?stop"
    by (simp add: stuck_def handler_cancel_def enqueue_many broken_def new_handler_def new_node_def)
  moreover have "rx_delivered (th_receiver ?stop) = [5]"
    by (simp add: handler_cancel_def broken_def ack)
  ultimately show ?thesis using broken_reached by (meson rtranclp_trans)
qed

theorem stop_waits_for_a_connection_witness:
  "\<exists>h. plain_step\<^sup>*\<^sup>* new_handler h \<and> th_stop h = JoiningAckTask
     \<and> length (nd_queue (th_node h)) = queue_capacity"
  using stuck_reached stop_waits_for_a_connection [OF _ _ rtranclp.rtrancl_refl refl] by blast

section \<open>Stopping can come to its end\<close>











text \<open>Once \<open>stop\<close> has returned, the node's run loop is over and no acknowledgement task is left.\<close>

lemma stop_returned_is_over:
  assumes "(handler_step decoder encoder)\<^sup>*\<^sup>* new_handler h" and "th_stop h = StopReturned"
  shows "th_ack_task h = AckOver \<and> nd_phase (th_node h) = Ended"
proof -
  have ok: "handler_ok decoder encoder h" using handler_reached [OF assms(1)] .
  then have "flags_ok (th_node h)" using handler_node_ok by (auto simp: node_ok_def)
  then show ?thesis using ok assms(2) by (simp add: handler_ok_def flags_ok_def)
qed

end
