(* ===== verification/Servers.thy ===== *)
theory Servers
  imports Legacy_Server
begin

text \<open>
  The accept loops: \<^verbatim>\<open>run_server\<close> of \<^verbatim>\<open>signalling-server/src/wsserver.rs\<close> with its port and its
  shutdown, and \<^verbatim>\<open>start\<close> of \<^verbatim>\<open>transport/ws_server.rs\<close>. What the listener yields is an argument: a
  stream or an error, call by call.
\<close>

section \<open>The port\<close>

text \<open>\<^verbatim>\<open>str::parse::<u16>\<close>: an optional plus sign, at least one digit, and a value below \<open>2^16\<close>.\<close>

definition parse_u16 :: "string \<Rightarrow> nat option" where
  "parse_u16 s =
     (let ds = (case s of c # cs \<Rightarrow> if c = CHR ''+'' then cs else s | [] \<Rightarrow> []) in
      if ds = [] then None
      else (case digits_val 0 ds of Some n \<Rightarrow> if n < 65536 then Some n else None | None \<Rightarrow> None))"

definition ss_port :: "string option \<Rightarrow> nat" where
  "ss_port var =
     (case var of None \<Rightarrow> 9001 | Some p \<Rightarrow> (case parse_u16 p of Some n \<Rightarrow> n | None \<Rightarrow> 9001))"

lemma ss_port_reads_the_variable: "n < 65536 \<Longrightarrow> ss_port (Some (show_nat n)) = n"
proof -
  assume n: "n < 65536"
  obtain d where d: "d < 10" "hd (show_nat n) = digit_char d" using hd_show_nat_digit by blast
  obtain c cs where s: "show_nat n = c # cs" by (cases "show_nat n") simp_all
  have "c \<noteq> CHR ''+''" using d s digit_char_not_sign [OF d(1)] by simp
  then have "parse_u16 (show_nat n) = Some n"
    using n digits_val_show_nat [of n] s by (simp add: parse_u16_def del: digits_val.simps)
  then show ?thesis by (simp add: ss_port_def)
qed

section \<open>The loops\<close>

text \<open>
  The \<^verbatim>\<open>select!\<close> is biased: a shutdown signal that is there (the flag) ends the loop before anything
  is accepted. The result is the connections spawned, each with its id, and whether the loop ended.
\<close>

fun accept_until_shutdown :: "nat \<Rightarrow> (bool \<times> (string + 'stream)) list \<Rightarrow> ('stream \<times> nat) list \<times> bool" where
  "accept_until_shutdown next_id [] = ([], False)"
| "accept_until_shutdown next_id ((True, r) # rs) = ([], True)"
| "accept_until_shutdown next_id ((False, Inl e) # rs) = accept_until_shutdown next_id rs"
| "accept_until_shutdown next_id ((False, Inr stream) # rs) =
     (case accept_until_shutdown (next_id + 1) rs of (cs, ended) \<Rightarrow> ((stream, next_id) # cs, ended))"

definition run_ss_server ::
  "string option \<Rightarrow> (nat \<Rightarrow> string + unit) \<Rightarrow> (bool \<times> (string + 'stream)) list
     \<Rightarrow> (string, ('stream \<times> nat) list \<times> bool) rust" where
  "run_ss_server ss_port_var bind rs =
     (case bind (ss_port ss_port_var) of
        Inl e \<Rightarrow> Panic
      | Inr _ \<Rightarrow> Ok (accept_until_shutdown 0 rs))"

fun accept_loop :: "(string + 'stream) list \<Rightarrow> 'stream list" where
  "accept_loop [] = []"
| "accept_loop (Inr stream # rs) = stream # accept_loop rs"
| "accept_loop (Inl e # rs) = accept_loop rs"

definition start_ws_server ::
  "('addr \<Rightarrow> string + unit) \<Rightarrow> 'addr \<Rightarrow> (string + 'stream) list \<Rightarrow> string + 'stream list" where
  "start_ws_server bind addr rs = and_then (bind addr) (\<lambda>_. Inr (accept_loop rs))"

text \<open>Every stream accepted before the shutdown is served once, in order, under the next number; an
  error of the listener is passed over, and nothing is served after the shutdown.\<close>

definition before_shutdown :: "(bool \<times> (string + 'stream)) list \<Rightarrow> (string + 'stream) list" where
  "before_shutdown rs = map snd (takeWhile (\<lambda>r. \<not> fst r) rs)"

lemma accepted_streams:
  "map fst (fst (accept_until_shutdown k rs)) = accept_loop (before_shutdown rs)"
  by (induction k rs rule: accept_until_shutdown.induct) (simp_all add: before_shutdown_def case_prod_unfold)

lemma accepted_ids:
  "map snd (fst (accept_until_shutdown k rs)) = [k..<k + length (accept_loop (before_shutdown rs))]"
  by (induction k rs rule: accept_until_shutdown.induct)
    (simp_all add: before_shutdown_def case_prod_unfold upt_conv_Cons del: upt_Suc)

lemma shutdown_ends: "snd (accept_until_shutdown k rs) \<longleftrightarrow> (\<exists>r \<in> set rs. fst r)"
  by (induction k rs rule: accept_until_shutdown.induct) (simp_all add: case_prod_unfold)

text \<open>No two connections of a server have the same id, which is what the invariant of the routing
  table rests on.\<close>

theorem connection_ids_are_fresh:
  "distinct (map snd (fst (accept_until_shutdown k rs)))"
  by (simp add: accepted_ids)

end
