(* ===== verification/Catalogue.thy ===== *)
theory Catalogue
  imports Dispatch_Safety Repository_Lemmas
begin

text \<open>
  The abstract specification of the database: a catalogue of maps and sets, without rowids of
  relations, counters, batches or transactions, and one update of it per command. The listening
  counter of a track is not part of it; it follows from what was heard on each day. The
  abstraction \<open>catalogue_of\<close> forgets how the tables store a catalogue, and every statement of
  \<open>Statements\<close> is shown to be one update of it.
\<close>

named_theorems ct_defs "the components of a catalogue of tables"

section \<open>Catalogues\<close>

record entry =
  en_artist :: string
  en_name :: string
  en_length :: int
  en_bitrate :: "int option"
  en_tempo :: "rat option"
  en_added :: string

text \<open>
  \<open>ct_urls\<close> and \<open>ct_tagged\<close> are the relations of tracks to urls and to tags; \<open>ct_notes\<close> and
  \<open>ct_listens\<close> keep their ids because they are deleted and answered by them; \<open>ct_heard\<close> has the
  seconds of a track on a day.
\<close>

record catalogue =
  ct_entries :: "int \<Rightarrow> entry option"
  ct_urls :: "(int \<times> string) set"
  ct_tags :: "int \<Rightarrow> string option"
  ct_tagged :: "(int \<times> int) set"
  ct_notes :: "int \<Rightarrow> (int \<times> string \<times> string) option"
  ct_listens :: "int \<Rightarrow> (int \<times> int \<times> int) option"
  ct_heard :: "int \<times> string \<Rightarrow> int option"

definition empty_catalogue :: catalogue where
  "empty_catalogue =
     \<lparr>ct_entries = (\<lambda>_. None), ct_urls = {}, ct_tags = (\<lambda>_. None), ct_tagged = {},
      ct_notes = (\<lambda>_. None), ct_listens = (\<lambda>_. None), ct_heard = (\<lambda>_. None)\<rparr>"

section \<open>What a command does to a catalogue\<close>

definition entry_of_new :: "NewTrack \<Rightarrow> entry" where
  "entry_of_new t =
     \<lparr>en_artist = nt_artist t, en_name = nt_track_name t,
      en_length = (case nt_length_seconds t of Some n \<Rightarrow> n | None \<Rightarrow> 0),
      en_bitrate = nt_bitrate_kbps t, en_tempo = nt_tempo_bpm t, en_added = nt_addition_time t\<rparr>"

definition add_entry :: "int \<Rightarrow> NewTrack \<Rightarrow> catalogue \<Rightarrow> catalogue" where
  "add_entry k t L =
     L\<lparr>ct_entries := (ct_entries L)(k \<mapsto> entry_of_new t),
       ct_urls := ct_urls L \<union> Pair k ` set (nt_sources t)\<rparr>"

definition given :: "'a option \<Rightarrow> 'a \<Rightarrow> 'a" where
  "given new old = (case new of Some v \<Rightarrow> v | None \<Rightarrow> old)"

definition amend :: "TrackUpdate \<Rightarrow> entry \<Rightarrow> entry" where
  "amend u e =
     \<lparr>en_artist = given (tu_artist u) (en_artist e), en_name = given (tu_track_name u) (en_name e),
      en_length = given (tu_length_seconds u) (en_length e),
      en_bitrate = given (map_option Some (tu_bitrate_kbps u)) (en_bitrate e),
      en_tempo = given (map_option Some (tu_tempo_bpm u)) (en_tempo e),
      en_added = given (tu_addition_time u) (en_added e)\<rparr>"

definition drop_where :: "('b \<Rightarrow> bool) \<Rightarrow> ('a \<Rightarrow> 'b option) \<Rightarrow> 'a \<Rightarrow> 'b option" where
  "drop_where p m k = (case m k of Some v \<Rightarrow> if p v then None else Some v | None \<Rightarrow> None)"

definition remove_entry :: "int \<Rightarrow> catalogue \<Rightarrow> catalogue" where
  "remove_entry tid L =
     \<lparr>ct_entries = (ct_entries L)(tid := None), ct_urls = {p \<in> ct_urls L. fst p \<noteq> tid},
      ct_tags = ct_tags L, ct_tagged = {p \<in> ct_tagged L. fst p \<noteq> tid},
      ct_notes = drop_where (\<lambda>n. fst n = tid) (ct_notes L),
      ct_listens = drop_where (\<lambda>l. fst l = tid) (ct_listens L),
      ct_heard = (\<lambda>p. if fst p = tid then None else ct_heard L p)\<rparr>"

definition hear :: "int \<Rightarrow> string \<Rightarrow> int \<Rightarrow> catalogue \<Rightarrow> catalogue" where
  "hear tid day n L =
     L\<lparr>ct_heard := (ct_heard L)((tid, day) \<mapsto> n + given (ct_heard L (tid, day)) 0)\<rparr>"

definition id_of :: "BigintId \<Rightarrow> int" where
  "id_of b = (case (to_i64 b :: (unit, int) rust) of Ok n \<Rightarrow> n | _ \<Rightarrow> 0)"

definition num_of :: "json \<Rightarrow> int" where
  "num_of j = (case j of JInt n \<Rightarrow> n | _ \<Rightarrow> 0)"

text \<open>\<open>parse_i64\<close> of a time that has been accepted.\<close>

definition time_of :: "string \<Rightarrow> int" where
  "time_of s = (case parse_i64 s of Inr n \<Rightarrow> n | Inl e \<Rightarrow> 0)"

text \<open>The update of a command that was answered \<open>Ok v\<close>; the ids of new rows are those of the answer.\<close>

fun update :: "world \<Rightarrow> ListenGuard \<Rightarrow> Command \<Rightarrow> json \<Rightarrow> catalogue \<Rightarrow> catalogue" where
  "update W g (AddTrack t) v L = add_entry (num_of v) t L"
| "update W g (AddTracks ts) (JArr ks) L = foldl (\<lambda>L (k, t). add_entry (num_of k) t L) L (zip ks ts)"
| "update W g (UpdateTrack a) v L =
     L\<lparr>ct_entries := (ct_entries L)(id_of (up_id a) :=
          map_option (amend (up_update a)) (ct_entries L (id_of (up_id a))))\<rparr>"
| "update W g (DeleteTrack b) v L = remove_entry (id_of b) L"
| "update W g (AddListen a) v L =
     L\<lparr>ct_listens := (ct_listens L)(num_of v \<mapsto>
          (id_of (al_track_id a), time_of (al_from a), time_of (al_to a)))\<rparr>"
| "update W g (AddListenedSeconds a) v L =
     (if fst (should_record (wd_now W) (as_seconds a) g) = (Ok True :: (string, bool) rust)
      then hear (id_of (as_track a)) (wd_today W) (as_seconds a) L else L)"
| "update W g (AddTag name) v L = L\<lparr>ct_tags := (ct_tags L)(num_of v \<mapsto> name)\<rparr>"
| "update W g (EditTag a) v L =
     L\<lparr>ct_tags := (ct_tags L)(id_of (et_id a) :=
          map_option (\<lambda>_. et_name a) (ct_tags L (id_of (et_id a))))\<rparr>"
| "update W g (DeleteTag b) v L =
     L\<lparr>ct_tags := (ct_tags L)(id_of b := None), ct_tagged := {p \<in> ct_tagged L. snd p \<noteq> id_of b}\<rparr>"
| "update W g (AssignTag a) v L =
     L\<lparr>ct_tagged := insert (id_of (at_track_id a), id_of (at_tag_id a)) (ct_tagged L)\<rparr>"
| "update W g (AssignTags as) v L =
     L\<lparr>ct_tagged := ct_tagged L
          \<union> {(id_of (ta_track_id a), id_of b) |a b. a \<in> set as \<and> b \<in> set (ta_tag_ids a)}\<rparr>"
| "update W g (RemoveTag a) v L =
     L\<lparr>ct_tagged := ct_tagged L - {(id_of (at_track_id a), id_of (at_tag_id a))}\<rparr>"
| "update W g (AddMeta a) v L =
     L\<lparr>ct_notes := (ct_notes L)(num_of v \<mapsto> (id_of (am_track_id a), am_key a, am_value a))\<rparr>"
| "update W g (UpdateMeta a) v L =
     L\<lparr>ct_notes := (ct_notes L)(id_of (um_id a) :=
          map_option (\<lambda>(t, key, old). (t, key, um_value a)) (ct_notes L (id_of (um_id a))))\<rparr>"
| "update W g (DeleteMeta b) v L = L\<lparr>ct_notes := (ct_notes L)(id_of b := None)\<rparr>"
| "update W g (AddTrackSource a) v L =
     L\<lparr>ct_urls := insert (id_of (sa_track_id a), sa_url a) (ct_urls L)\<rparr>"
| "update W g (RemoveTrackSource a) v L =
     L\<lparr>ct_urls := ct_urls L - {(id_of (sa_track_id a), sa_url a)}\<rparr>"
| "update W g (EditTrackSource a) v L =
     L\<lparr>ct_urls := insert (id_of (es_track_id a), es_new_url a)
          (ct_urls L - {(id_of (es_track_id a), es_old_url a)})\<rparr>"
| "update W g ResetDatabase v L = empty_catalogue"
| "update W g cmd v L = L"

section \<open>The catalogue of the tables\<close>

definition tmap :: "'r tbl \<Rightarrow> int \<Rightarrow> 'r option" where
  "tmap t = map_of (tbl_rows t)"

definition entry_of :: "track_info_cols \<Rightarrow> entry" where
  "entry_of c =
     \<lparr>en_artist = ti_artist c, en_name = ti_track_name c, en_length = ti_length_seconds c,
      en_bitrate = ti_bitrate_kbps c, en_tempo = ti_tempo_bpm c, en_added = ti_addition_time c\<rparr>"

definition urls_of :: "database \<Rightarrow> (int \<times> string) set" where
  "urls_of d = set (map source_key (tbl_cols (track_sources d)))"

definition note_of :: "meta_cols \<Rightarrow> int \<times> string \<times> string" where
  "note_of c = (me_track_id c, me_key c, me_value c)"

definition listened_of :: "listen_cols \<Rightarrow> int \<times> int \<times> int" where
  "listened_of c = (ls_track_id c, ls_listened_from c, ls_listened_to c)"

definition heard_of :: "database \<Rightarrow> int \<times> string \<Rightarrow> int option" where
  "heard_of d = map_of (map (\<lambda>c. ((da_track_id c, da_date c), da_listened c))
     (tbl_cols (listened_daily d)))"

definition catalogue_of :: "database \<Rightarrow> catalogue" where
  "catalogue_of d =
     \<lparr>ct_entries = (\<lambda>k. map_option entry_of (tmap (track_info d) k)), ct_urls = urls_of d,
      ct_tags = tmap (tags d), ct_tagged = assigned d,
      ct_notes = (\<lambda>k. map_option note_of (tmap (track_meta d) k)),
      ct_listens = (\<lambda>k. map_option listened_of (tmap (listen_info d) k)),
      ct_heard = heard_of d\<rparr>"

lemma catalogue_of_empty: "catalogue_of empty_db = empty_catalogue"
  by (simp add: catalogue_of_def empty_catalogue_def empty_db_def tmap_def urls_of_def assigned_def
      heard_of_def)

lemma catalogue_same_data: "same_data d d' \<Longrightarrow> catalogue_of d' = catalogue_of d"
  by (auto simp: same_data_iff catalogue_of_def urls_of_def assigned_def heard_of_def)

section \<open>Tables as maps\<close>

lemma tmap_insert:
  assumes "tbl_insert E c t = Inr (k, t')" and "tbl_ok t"
  shows "tmap t' = (tmap t)(k \<mapsto> c)"
proof -
  have "k \<notin> set (map fst (tbl_rows t))"
    using tbl_insert_fresh [OF assms] by (simp add: tbl_ids_def)
  then have "map_of (tbl_rows t) k = None" by (simp add: map_of_eq_None_iff)
  then show ?thesis
    using tbl_insert_Inr(1) [OF assms(1)]
    by (auto simp: tmap_def map_add_def fun_eq_iff split: option.splits)
qed

lemma tmap_update:
  "tmap (tbl_update p f t) k = map_option (\<lambda>c. if p k c then f c else c) (tmap t k)"
proof -
  have "map_of (map (\<lambda>(k, c). if p k c then (k, f c) else (k, c)) xs) k
      = map_option (\<lambda>c. if p k c then f c else c) (map_of xs k)" for xs
    by (induction xs) auto
  then show ?thesis by (simp add: tmap_def tbl_update_def)
qed

lemma tmap_update_id: "tmap (tbl_update (\<lambda>k c. k = rid) f t) = (tmap t)(rid := map_option f (tmap t rid))"
  by (auto simp: tmap_update option.map_ident_strong intro!: ext)

lemma tmap_delete:
  assumes "tbl_ok t"
  shows "tmap (tbl_delete p t) k = (case tmap t k of Some c \<Rightarrow> if p k c then None else Some c | None \<Rightarrow> None)"
proof -
  have "distinct (map fst xs) \<Longrightarrow>
    map_of (filter (\<lambda>(k, c). \<not> p k c) xs) k
      = (case map_of xs k of Some c \<Rightarrow> if p k c then None else Some c | None \<Rightarrow> None)" for xs
    by (induction xs) (auto split: option.splits simp: map_of_eq_None_iff dest: map_of_SomeD)
  then show ?thesis
    using tbl_ok_distinct [OF assms] by (simp add: tmap_def tbl_delete_def tbl_ids_def)
qed

lemma tmap_delete_id: "tbl_ok t \<Longrightarrow> tmap (tbl_delete (\<lambda>k c. k = rid) t) = (tmap t)(rid := None)"
  by (auto simp: tmap_delete split: option.splits intro!: ext)

lemma tmap_delete_cols: "tbl_ok t \<Longrightarrow> tmap (tbl_delete (\<lambda>k c. p c) t) = drop_where p (tmap t)"
  by (auto simp: tmap_delete drop_where_def intro!: ext)

end
