(* ===== verification/Catalogue_Refinement.thy ===== *)
theory Catalogue_Refinement
  imports Catalogue
begin

text \<open>
  The database implements the catalogue: every statement is one update of the catalogue of its
  tables, every command answered \<open>Ok\<close> is the update \<open>Catalogue\<close> gives it, and so is every session.
  The reads answer from the catalogue.
\<close>

lemma db_ok_tables:
  "db_ok d \<Longrightarrow> tbl_ok (track_info d)" "db_ok d \<Longrightarrow> tbl_ok (track_sources d)"
  "db_ok d \<Longrightarrow> tbl_ok (listen_info d)" "db_ok d \<Longrightarrow> tbl_ok (tags d)"
  "db_ok d \<Longrightarrow> tbl_ok (tag_assignments d)" "db_ok d \<Longrightarrow> tbl_ok (track_meta d)"
  "db_ok d \<Longrightarrow> tbl_ok (listened_daily d)"
  by (simp_all add: db_ok_def tables_ok_def)

section \<open>Statements are updates\<close>

named_theorems stmt_abs "what a statement does to the catalogue"

lemma entry_of_new_cols: "nt_length_seconds t = Some len \<Longrightarrow> entry_of (new_track_cols t len) = entry_of_new t"
  by (simp add: entry_of_def new_track_cols_def entry_of_new_def)

lemma entry_of_cols_of: "entry_of (cols_of t) = entry_of_new t"
  by (simp add: entry_of_def cols_of_def new_track_cols_def entry_of_new_def)

lemma map_option_upd: "(\<lambda>k. map_option f ((m(i \<mapsto> v)) k)) = (\<lambda>k. map_option f (m k))(i \<mapsto> f v)"
  by auto

lemma map_option_set: "(\<lambda>k. map_option f ((m(i := v)) k)) = (\<lambda>k. map_option f (m k))(i := map_option f v)"
  by auto

lemma insert_track_row_abs [stmt_abs]:
  assumes "db_ok d" and "insert_track_row E t d = Inr (k, d')"
  shows "catalogue_of d' =
    (catalogue_of d)\<lparr>ct_entries := (ct_entries (catalogue_of d))(k \<mapsto> entry_of_new t)\<rparr>"
proof -
  obtain tb len where t: "nt_length_seconds t = Some len" "d' = d\<lparr>track_info := tb\<rparr>"
    "tbl_insert E (new_track_cols t len) (track_info d) = Inr (k, tb)"
    using insert_track_row_rows [OF assms(2)] by blast
  show ?thesis
    using tmap_insert [OF t(3) db_ok_tables(1) [OF assms(1)]] t(1,2)
    by (auto simp: catalogue_of_def entry_of_new_cols urls_of_def assigned_def heard_of_def intro!: ext)
qed

lemma appends_sources_abs:
  assumes "appends_sources ps d d'"
  shows "catalogue_of d' = (catalogue_of d)\<lparr>ct_urls := ct_urls (catalogue_of d) \<union> set ps\<rparr>"
proof -
  obtain tb rs where d': "d' = d\<lparr>track_sources := tb\<rparr>"
    and rows: "tbl_rows tb = tbl_rows (track_sources d) @ rs"
    and ps: "map (\<lambda>(k, c). (so_track_id c, so_url c)) rs = ps"
    using assms by (auto simp: appends_sources_def)
  have "urls_of d' = urls_of d \<union> set ps"
    unfolding ps [symmetric] by (auto simp: urls_of_def tbl_cols_def d' rows image_Un split_def image_image)
  then show ?thesis by (simp add: catalogue_of_def d' assigned_def heard_of_def)
qed

lemma insert_source_row_abs [stmt_abs]:
  "insert_source_row E tid url d = Inr (k, d') \<Longrightarrow>
   catalogue_of d' = (catalogue_of d)\<lparr>ct_urls := insert (tid, url) (ct_urls (catalogue_of d))\<rparr>"
  using appends_sources_abs [OF insert_source_appends] by fastforce

lemma delete_source_row_abs [stmt_abs]:
  "catalogue_of (delete_source_row tid url d) =
    (catalogue_of d)\<lparr>ct_urls := ct_urls (catalogue_of d) - {(tid, url)}\<rparr>"
  by (auto simp: catalogue_of_def delete_source_row_def urls_of_def assigned_def heard_of_def tbl_delete_cols)

lemma update_track_row_abs [stmt_abs]:
  assumes "update_track_row u rid d = Inr d'"
  shows "catalogue_of d' = (catalogue_of d)\<lparr>ct_entries :=
    (ct_entries (catalogue_of d))(rid := map_option (amend u) (ct_entries (catalogue_of d) rid))\<rparr>"
proof -
  have "entry_of (apply_update u c) = amend u (entry_of c)" for c
    by (auto simp: entry_of_def apply_update_def amend_def given_def split: option.split)
  then show ?thesis
    using assms
    by (auto simp: update_track_row_def Let_def catalogue_of_def tmap_update_id map_option_set
        urls_of_def assigned_def heard_of_def option.map_comp o_def split: if_splits)
qed

lemma insert_tag_row_abs [stmt_abs]:
  assumes "db_ok d" and "insert_tag_row E name d = Inr (k, d')"
  shows "catalogue_of d' = (catalogue_of d)\<lparr>ct_tags := (ct_tags (catalogue_of d))(k \<mapsto> name)\<rparr>"
  using assms tmap_insert [OF _ db_ok_tables(4)]
  by (auto simp: insert_tag_row_def and_then_Inr_iff catalogue_of_def urls_of_def assigned_def heard_of_def
      split: if_splits)

lemma update_tag_row_abs [stmt_abs]:
  "update_tag_row rid name d = Inr d' \<Longrightarrow>
   catalogue_of d' = (catalogue_of d)\<lparr>ct_tags :=
     (ct_tags (catalogue_of d))(rid := map_option (\<lambda>_. name) (ct_tags (catalogue_of d) rid))\<rparr>"
  by (auto simp: update_tag_row_def Let_def catalogue_of_def tmap_update_id urls_of_def assigned_def
      heard_of_def split: if_splits)

lemma delete_tag_row_abs [stmt_abs]:
  "db_ok d \<Longrightarrow> catalogue_of (delete_tag_row rid d) =
    (catalogue_of d)\<lparr>ct_tags := (ct_tags (catalogue_of d))(rid := None),
      ct_tagged := {p \<in> ct_tagged (catalogue_of d). snd p \<noteq> rid}\<rparr>"
  by (auto simp: catalogue_of_def delete_tag_row_def tmap_delete_id db_ok_tables urls_of_def
      assigned_def heard_of_def tbl_delete_cols)

lemma insert_assignment_row_abs [stmt_abs]:
  "insert_assignment_row E p d = Inr d' \<Longrightarrow>
   catalogue_of d' = (catalogue_of d)\<lparr>ct_tagged := insert p (ct_tagged (catalogue_of d))\<rparr>"
  using insert_assignment_effect [of E p d d'] by (auto simp: catalogue_of_def urls_of_def heard_of_def)

lemma insert_assignment_rows_abs [stmt_abs]:
  "insert_assignment_rows E ps d = Inr d' \<Longrightarrow>
   catalogue_of d' = (catalogue_of d)\<lparr>ct_tagged := ct_tagged (catalogue_of d) \<union> set ps\<rparr>"
  using insert_assignment_rows_effect [of E ps d d'] by (auto simp: catalogue_of_def urls_of_def heard_of_def)

lemma delete_assignment_row_abs [stmt_abs]:
  "catalogue_of (delete_assignment_row tid gid d) =
    (catalogue_of d)\<lparr>ct_tagged := ct_tagged (catalogue_of d) - {(tid, gid)}\<rparr>"
  by (auto simp: catalogue_of_def delete_assignment_row_def urls_of_def assigned_def heard_of_def
      tbl_delete_cols)

lemma insert_listen_row_abs [stmt_abs]:
  assumes "db_ok d" and "insert_listen_row E tid from to d = Inr (k, d')"
  shows "catalogue_of d' =
    (catalogue_of d)\<lparr>ct_listens := (ct_listens (catalogue_of d))(k \<mapsto> (tid, from, to))\<rparr>"
  using assms tmap_insert [OF _ db_ok_tables(3)]
  by (auto simp: insert_listen_row_def and_then_Inr_iff catalogue_of_def urls_of_def assigned_def
      heard_of_def map_option_upd listened_of_def split: if_splits)

lemma insert_meta_row_abs [stmt_abs]:
  assumes "db_ok d" and "insert_meta_row E tid key v d = Inr (k, d')"
  shows "catalogue_of d' =
    (catalogue_of d)\<lparr>ct_notes := (ct_notes (catalogue_of d))(k \<mapsto> (tid, key, v))\<rparr>"
  using assms tmap_insert [OF _ db_ok_tables(6)]
  by (auto simp: insert_meta_row_def and_then_Inr_iff catalogue_of_def urls_of_def assigned_def
      heard_of_def map_option_upd note_of_def split: if_splits)

lemma update_meta_row_abs [stmt_abs]:
  "catalogue_of (update_meta_row rid v d) = (catalogue_of d)\<lparr>ct_notes :=
     (ct_notes (catalogue_of d))(rid :=
       map_option (\<lambda>(t, key, old). (t, key, v)) (ct_notes (catalogue_of d) rid))\<rparr>"
  by (auto simp: update_meta_row_def catalogue_of_def tmap_update_id urls_of_def
      assigned_def heard_of_def option.map_comp o_def note_of_def intro!: ext)

lemma delete_meta_row_abs [stmt_abs]:
  "db_ok d \<Longrightarrow> catalogue_of (delete_meta_row rid d) =
    (catalogue_of d)\<lparr>ct_notes := (ct_notes (catalogue_of d))(rid := None)\<rparr>"
  by (auto simp: catalogue_of_def delete_meta_row_def tmap_delete_id db_ok_tables map_option_set
      urls_of_def assigned_def heard_of_def)

section \<open>Deleting a track\<close>

lemma map_of_filter_keys:
  "map_of (map (\<lambda>c. (g c, v c)) (filter (\<lambda>c. p (g c)) xs)) k
     = (if p k then map_of (map (\<lambda>c. (g c, v c)) xs) k else None)"
  by (induction xs) auto

lemma drop_where_map_option:
  "(\<lambda>k. map_option f (drop_where p m k)) = drop_where q (\<lambda>k. map_option f (m k))"
  if "\<And>c. q (f c) = p c"
  using that by (auto simp: drop_where_def split: option.split intro!: ext)

lemma image_filter_key:
  "(\<And>c. fst (f c) = g c) \<Longrightarrow>
   f ` set (filter (\<lambda>c. g c \<noteq> i) xs) = {p \<in> f ` set xs. fst p \<noteq> i}"
  by auto

lemma delete_track_row_abs [stmt_abs]:
  assumes "db_ok d"
  shows "catalogue_of (delete_track_row rid d) = remove_entry rid (catalogue_of d)"
proof -
  have heard: "heard_of (delete_track_row rid d) = (\<lambda>p. if fst p = rid then None else heard_of d p)"
  proof
    fix p
    show "heard_of (delete_track_row rid d) p = (if fst p = rid then None else heard_of d p)"
      using map_of_filter_keys [of "\<lambda>c. (da_track_id c, da_date c)" da_listened "\<lambda>p. fst p \<noteq> rid"
          "tbl_cols (listened_daily d)" p]
      by (simp add: heard_of_def delete_track_row_def tbl_delete_cols)
  qed
  have metas: "(\<lambda>k. map_option note_of (tmap (track_meta (delete_track_row rid d)) k))
      = drop_where (\<lambda>n. fst n = rid) (\<lambda>k. map_option note_of (tmap (track_meta d) k))"
    using drop_where_map_option [of "\<lambda>n. fst n = rid" note_of "\<lambda>c. me_track_id c = rid"]
    by (simp add: delete_track_row_def tmap_delete_cols db_ok_tables [OF assms] note_of_def)
  have listens: "(\<lambda>k. map_option listened_of (tmap (listen_info (delete_track_row rid d)) k))
      = drop_where (\<lambda>n. fst n = rid) (\<lambda>k. map_option listened_of (tmap (listen_info d) k))"
    using drop_where_map_option [of "\<lambda>n. fst n = rid" listened_of "\<lambda>c. ls_track_id c = rid"]
    by (simp add: delete_track_row_def tmap_delete_cols db_ok_tables [OF assms] listened_of_def)
  have entries: "(\<lambda>k. map_option entry_of (tmap (track_info (delete_track_row rid d)) k))
      = (\<lambda>k. map_option entry_of (tmap (track_info d) k))(rid := None)"
    by (auto simp: delete_track_row_def tmap_delete_id db_ok_tables [OF assms] intro!: ext)
  have urls: "urls_of (delete_track_row rid d) = {p \<in> urls_of d. fst p \<noteq> rid}"
    using image_filter_key [of source_key so_track_id rid "tbl_cols (track_sources d)"]
    by (simp add: urls_of_def delete_track_row_def tbl_delete_cols)
  have tagged: "assigned (delete_track_row rid d) = {p \<in> assigned d. fst p \<noteq> rid}"
    using image_filter_key [of assignment_key as_track_id rid "tbl_cols (tag_assignments d)"]
    by (simp add: assigned_def delete_track_row_def tbl_delete_cols)
  have tags: "tags (delete_track_row rid d) = tags d" by (simp add: delete_track_row_def)
  show ?thesis
    unfolding catalogue_of_def remove_entry_def heard metas listens entries urls tagged tags
    by (simp only: catalogue.simps)
qed

section \<open>Listened seconds\<close>

lemma bump_listened_abs [stmt_abs]: "catalogue_of (bump_listened rid n d) = catalogue_of d"
proof -
  have "entry_of (c\<lparr>ti_listened_seconds := m\<rparr>) = entry_of c" for c m by (simp add: entry_of_def)
  then show ?thesis
    by (auto simp: bump_listened_def catalogue_of_def tmap_update_id urls_of_def assigned_def
        heard_of_def option.map_comp o_def intro!: ext)
qed

lemma map_of_add_key:
  assumes "\<And>c. g (f c) = g c" and "\<And>c. v (f c) = n + (v c :: int)"
  shows "map_of (map (\<lambda>c. (g c, v c)) (map (\<lambda>c. if g c = y then f c else c) xs))
    = (map_of (map (\<lambda>c. (g c, v c)) xs))(y := map_option ((+) n) (map_of (map (\<lambda>c. (g c, v c)) xs) y))"
  by (induction xs) (auto simp: assms intro!: ext)

lemma map_of_snoc_new:
  "k \<notin> fst ` set xs \<Longrightarrow> map_of (xs @ [(k, v)]) = (map_of xs)(k \<mapsto> v)"
  by (induction xs) auto

lemma upsert_daily_row_abs [stmt_abs]:
  assumes "upsert_daily_row E day tid n d = Inr d'"
  shows "catalogue_of d' = hear tid day n (catalogue_of d)"
proof -
  let ?g = "\<lambda>c. (da_track_id c, da_date c)" and ?cs = "tbl_cols (listened_daily d)"
  let ?m = "\<lambda>cs. map_of (map (\<lambda>c. (?g c, da_listened c)) cs)"
  have key: "?g c = (tid, day) \<longleftrightarrow> daily_key c = (day, tid)" for c by auto
  obtain tb where d': "d' = d\<lparr>listened_daily := tb\<rparr>"
    and tb: "?m (tbl_cols tb) = (?m ?cs)((tid, day) \<mapsto> n + given (?m ?cs (tid, day)) 0)"
  proof (cases "(day, tid) \<in> set (map daily_key ?cs)")
    case True
    let ?f = "\<lambda>c. c\<lparr>da_listened := da_listened c + n\<rparr>"
    let ?tb = "tbl_update (\<lambda>k c. daily_key c = (day, tid)) ?f (listened_daily d)"
    have "(tid, day) \<in> fst ` set (map (\<lambda>c. (?g c, da_listened c)) ?cs)" using True by force
    then obtain m where m: "?m ?cs (tid, day) = Some m"
      by (metis (no_types, lifting) map_of_eq_None_iff not_Some_eq)
    have "?m (tbl_cols ?tb) = ?m (map (\<lambda>c. if ?g c = (tid, day) then ?f c else c) ?cs)"
      unfolding tbl_update_cols key ..
    also have "\<dots> = (?m ?cs)((tid, day) := map_option ((+) n) (?m ?cs (tid, day)))"
      by (rule map_of_add_key) simp_all
    finally have "?m (tbl_cols ?tb) = (?m ?cs)((tid, day) \<mapsto> n + given (?m ?cs (tid, day)) 0)"
      by (simp add: m given_def)
    moreover have "d' = d\<lparr>listened_daily := ?tb\<rparr>"
      using assms True by (simp add: upsert_daily_row_def)
    ultimately show thesis by (intro that)
  next
    case False
    then obtain k tb where ins: "tbl_insert E \<lparr>da_date = day, da_track_id = tid, da_listened = n\<rparr>
        (listened_daily d) = Inr (k, tb)" "d' = d\<lparr>listened_daily := tb\<rparr>"
      using assms by (auto simp: upsert_daily_row_def and_then_Inr_iff split: if_splits)
    have new: "(tid, day) \<notin> fst ` set (map (\<lambda>c. (?g c, da_listened c)) ?cs)" using False by force
    then have "?m ?cs (tid, day) = None" by (simp only: map_of_eq_None_iff not_False_eq_True)
    then show thesis
      using that [OF ins(2)] map_of_snoc_new [OF new, of n]
      by (simp add: tbl_insert_Inr(6) [OF ins(1)] given_def)
  qed
  then show ?thesis by (simp add: catalogue_of_def hear_def heard_of_def urls_of_def assigned_def)
qed

section \<open>Adding tracks\<close>

fun put_all :: "('k \<times> 'v) list \<Rightarrow> ('k \<Rightarrow> 'v option) \<Rightarrow> 'k \<Rightarrow> 'v option" where
  "put_all [] m = m"
| "put_all ((k, v) # kvs) m = put_all kvs (m(k \<mapsto> v))"

lemma foldl_add_entries:
  "length ks = length ts \<Longrightarrow>
   foldl (\<lambda>L (k, t). add_entry k t L) L (zip ks ts)
     = L\<lparr>ct_entries := put_all (zip ks (map entry_of_new ts)) (ct_entries L),
         ct_urls := ct_urls L \<union> set (all_sources ts ks)\<rparr>"
proof (induction ks ts arbitrary: L rule: list_induct2)
  case Nil
  then show ?case by (simp add: all_sources_def)
next
  case (Cons k ks t ts)
  have "set (all_sources (t # ts) (k # ks)) = Pair k ` set (nt_sources t) \<union> set (all_sources ts ks)"
    by (simp add: all_sources_def)
  moreover have "foldl (\<lambda>L (k, t). add_entry k t L) L (zip (k # ks) (t # ts))
      = foldl (\<lambda>L (k, t). add_entry k t L) (add_entry k t L) (zip ks ts)" by simp
  ultimately show ?case
    unfolding Cons.IH by (simp add: add_entry_def Un_assoc del: fun_upd_apply)
qed

lemma map_of_append_fresh:
  "distinct (map fst (xs @ ys)) \<Longrightarrow> map_of (xs @ ys) = put_all ys (map_of xs)"
proof (induction ys arbitrary: xs)
  case (Cons y ys)
  obtain k v where y: "y = (k, v)" by fastforce
  have "k \<notin> fst ` set xs" using Cons.prems y by auto
  then have "map_of (xs @ [(k, v)]) = (map_of xs)(k \<mapsto> v)" by (rule map_of_snoc_new)
  moreover have "map_of ((xs @ [y]) @ ys) = put_all ys (map_of (xs @ [y]))"
    by (rule Cons.IH) (use Cons.prems y in auto)
  ultimately show ?case using y by (simp del: map_of_append fun_upd_apply)
qed simp

lemma put_all_map_option:
  "(\<lambda>i. map_option f (put_all (zip ks (map g ts)) m i))
     = put_all (zip ks (map (\<lambda>t. f (g t)) ts)) (\<lambda>i. map_option f (m i))"
proof (induction ts arbitrary: m ks)
  case (Cons t ts)
  show ?case
  proof (cases ks)
    case (Cons k ks')
    have "(\<lambda>i. map_option f ((m(k \<mapsto> g t)) i)) = (\<lambda>i. map_option f (m i))(k \<mapsto> f (g t))" by auto
    then show ?thesis using Cons Cons.IH [of ks' "m(k \<mapsto> g t)"] by (simp del: fun_upd_apply)
  qed simp
qed simp

lemma appends_tracks_abs:
  assumes "appends_tracks ts d d'" and "tbl_ok (track_info d')"
  shows "catalogue_of d' = (catalogue_of d)\<lparr>ct_entries :=
    put_all (zip (next_ids (tbl_seq (track_info d)) (length ts)) (map entry_of_new ts))
      (ct_entries (catalogue_of d))\<rparr>"
proof -
  let ?ids = "next_ids (tbl_seq (track_info d)) (length ts)"
  obtain tb where d': "d' = d\<lparr>track_info := tb\<rparr>"
    and rows: "tbl_rows tb = tbl_rows (track_info d) @ zip ?ids (map cols_of ts)"
    using assms(1) by (auto simp: appends_tracks_def)
  have "distinct (map fst (tbl_rows (track_info d) @ zip ?ids (map cols_of ts)))"
    using tbl_ok_distinct [OF assms(2)] by (simp add: tbl_ids_def d' rows)
  then have "tmap tb = put_all (zip ?ids (map cols_of ts)) (tmap (track_info d))"
    unfolding tmap_def rows by (rule map_of_append_fresh)
  then have "(\<lambda>k. map_option entry_of (tmap tb k))
      = put_all (zip ?ids (map entry_of_new ts)) (\<lambda>k. map_option entry_of (tmap (track_info d) k))"
    by (simp add: put_all_map_option entry_of_cols_of)
  then show ?thesis by (simp add: catalogue_of_def d' urls_of_def assigned_def heard_of_def)
qed

lemma add_tracks_abs:
  assumes "db_ok d" and "no_gaps E" and "add_tracks E ts d = (Ok ids, d')"
  shows "catalogue_of d' = foldl (\<lambda>L (k, t). add_entry k t L) (catalogue_of d) (zip ids ts)"
proof -
  obtain d1 where d1: "appends_tracks ts d d1" "appends_sources (all_sources ts ids) d1 d'"
    and ids: "ids = next_ids (tbl_seq (track_info d)) (length ts)"
    using add_tracks_effect [OF assms(2,3)] by blast
  have "db_ok d'" using safe_opD [OF add_tracks_safe assms(1), of E ts] assms(3) by simp
  then have "tbl_ok (track_info d1)" using appends_sources_frame [OF d1(2)] db_ok_tables(1) by metis
  note abs = appends_tracks_abs [OF d1(1) this] appends_sources_abs [OF d1(2)]
  show ?thesis using foldl_add_entries [of ids ts "catalogue_of d"] abs ids by simp
qed

lemma add_track_abs:
  assumes "db_ok d" and "add_track E t d = (Ok k, d')"
  shows "catalogue_of d' = add_entry k t (catalogue_of d)"
proof -
  have "add_track_unlogged E t d = Inr (k, d')"
    using assms(2) by (auto simp: add_track_def logged_Ok_iff split: list.splits)
  then obtain d1 where 1: "insert_track_row E t d = Inr (k, d1)"
    and 2: "for_each (\<lambda>i url s. exec E i (no_rowid (insert_source_row E k url s))) 2
          (nt_sources t) d1 = Inr d'"
    by (auto simp: add_track_unlogged_def inr_simps)
  show ?thesis
    using insert_track_row_abs [OF assms(1) 1] appends_sources_abs [OF insert_urls_appends [OF 2]]
    by (simp add: add_entry_def)
qed

section \<open>Assigning tags\<close>

lemma id_of_Ok: "to_i64 b = (Ok n :: ('e, int) rust) \<Longrightarrow> id_of b = n"
  by (auto simp: id_of_def to_i64_def split: sum.splits)

lemma to_i64_all_ids: "to_i64_all bs = (Ok ns :: ('e, int list) rust) \<Longrightarrow> ns = map id_of bs"
  by (induction bs arbitrary: ns) (auto simp: map_ok_iff id_of_Ok split: rust.splits)

lemma all_pairs_ids:
  "all_pairs as = Ok ps \<Longrightarrow>
   set ps = {(id_of (ta_track_id a), id_of b) |a b. a \<in> set as \<and> b \<in> set (ta_tag_ids a)}"
proof (induction as arbitrary: ps)
  case (Cons a as)
  then obtain tid gids qs where a: "to_i64 (ta_track_id a) = (Ok tid :: (sqlx_error, int) rust)"
    "to_i64_all (ta_tag_ids a) = (Ok gids :: (sqlx_error, int list) rust)" "all_pairs as = Ok qs"
    "ps = map (\<lambda>g. (tid, g)) gids @ qs"
    by (auto simp: map_ok_iff split: rust.splits)
  show ?case using Cons.IH [OF a(3)] to_i64_all_ids [OF a(2)] id_of_Ok [OF a(1)] a(4) by auto
qed simp

lemma insert_pairs_abs:
  assumes "for_each (\<lambda>i chunk s. exec E i (insert_assignment_rows E chunk s)) j cs d = Inr d'"
  shows "catalogue_of d' = (catalogue_of d)\<lparr>ct_tagged := ct_tagged (catalogue_of d) \<union> set (concat cs)\<rparr>"
  using assms
proof (induction cs arbitrary: j d)
  case (Cons c cs)
  then obtain d1 where "insert_assignment_rows E c d = Inr d1"
    and "for_each (\<lambda>i chunk s. exec E i (insert_assignment_rows E chunk s)) (Suc j) cs d1 = Inr d'"
    by (auto simp: inr_simps)
  then show ?case using Cons.IH insert_assignment_rows_abs by (simp add: Un_assoc)
qed simp

lemma assign_tags_abs:
  assumes "assign_tags E as d = (Ok u, d')"
  shows "catalogue_of d' = (catalogue_of d)\<lparr>ct_tagged := ct_tagged (catalogue_of d)
    \<union> {(id_of (ta_track_id a), id_of b) |a b. a \<in> set as \<and> b \<in> set (ta_tag_ids a)}\<rparr>"
proof -
  obtain ps where ps: "all_pairs as = Ok ps" "assign_pairs E ps d = Inr d'"
    using assms
    by (auto simp: assign_tags_def try_log_def logged_Ok_iff unit_result_Inr_iff
        split: sum.splits rust.splits)
  then have loop: "for_each (\<lambda>i chunk s. exec E i (insert_assignment_rows E chunk s)) 1
      (chunks pairs_batch_size ps) d = Inr d'"
    by (auto simp: assign_pairs_def Let_def inr_simps)
  have cs: "concat (chunks pairs_batch_size ps) = ps"
    by (rule concat_chunks) (simp add: pairs_batch_size_def sqlite_limit_variable_number_def)
  show ?thesis using insert_pairs_abs [OF loop] unfolding cs all_pairs_ids [OF ps(1)] .
qed

section \<open>Commands are updates\<close>

lemma on_repo_OkE:
  assumes "on_repo W j f s = (Ok v, s')"
  obtains w where "f (ex_repo s) = (Ok w, ex_repo s')" and "v = j w"
  using assms by (auto simp: on_repo_def to_val_Ok_iff split: prod.splits)

lemma with_id_OkE:
  assumes "with_id b k s = (Ok v, s')"
  obtains "k (id_of b) s = (Ok v, s')"
  using assms by (auto simp: with_id_def id_of_Ok split: rust.splits)

lemma time_of_Inr: "parse_i64 s = Inr n \<Longrightarrow> time_of s = n"
  by (simp add: time_of_def)

lemmas op_simps = logged_Ok_iff logged_steps_Ok_iff inr_simps

lemma try_log_repo: "try_log E ctx m d = (Ok v, d') \<Longrightarrow> d' = d"
  by (auto simp: try_log_def split: sum.splits)

lemma reads_abs:
  "get_track E n d = (Ok x1, d') \<Longrightarrow> d' = d" "get_listens_for_track E n d = (Ok x2, d') \<Longrightarrow> d' = d"
  "get_all_tags E d = (Ok x3, d') \<Longrightarrow> d' = d" "get_tags E pat d = (Ok x4, d') \<Longrightarrow> d' = d"
  "get_tags_for_track E n d = (Ok x5, d') \<Longrightarrow> d' = d" "get_meta_for_track E n d = (Ok x6, d') \<Longrightarrow> d' = d"
  "get_sources_for_track E n d = (Ok x7, d') \<Longrightarrow> d' = d"
  by (simp_all add: get_track_def get_listens_for_track_def get_all_tags_def get_tags_def
      get_tags_for_track_def get_meta_for_track_def get_sources_for_track_def try_log_repo)

lemma write_abs:
  "update_track E n u d = (Ok x1, d') \<Longrightarrow> catalogue_of d' = (catalogue_of d)\<lparr>ct_entries :=
     (ct_entries (catalogue_of d))(n := map_option (amend u) (ct_entries (catalogue_of d) n))\<rparr>"
  "db_ok d \<Longrightarrow> delete_track E n d = (Ok x2, d') \<Longrightarrow> catalogue_of d' = remove_entry n (catalogue_of d)"
  "db_ok d \<Longrightarrow> add_listen E n from to d = (Ok k, d') \<Longrightarrow> catalogue_of d' =
     (catalogue_of d)\<lparr>ct_listens := (ct_listens (catalogue_of d))(k \<mapsto> (n, time_of from, time_of to))\<rparr>"
  "add_listened_seconds E day n secs d = (Ok x4, d') \<Longrightarrow> catalogue_of d' = hear n day secs (catalogue_of d)"
proof -
  show "catalogue_of d' = (catalogue_of d)\<lparr>ct_entries :=
     (ct_entries (catalogue_of d))(n := map_option (amend u) (ct_entries (catalogue_of d) n))\<rparr>"
    if op: "update_track E n u d = (Ok x1, d')"
  proof (cases "u = \<lparr>tu_artist = None, tu_track_name = None, tu_length_seconds = None,
      tu_bitrate_kbps = None, tu_tempo_bpm = None, tu_addition_time = None\<rparr>")
    case True
    have "amend u = (\<lambda>e. e)"
    proof
      fix e
      show "amend u e = e" by (cases e) (simp add: True amend_def given_def)
    qed
    then show ?thesis using op True by (simp add: update_track_def option.map_ident)
  next
    case False
    then have "update_track_row u n d = Inr d'"
      using op by (cases u) (auto simp: update_track_def op_simps split: if_splits)
    then show ?thesis by (rule update_track_row_abs)
  qed
next
  show "catalogue_of d' = remove_entry n (catalogue_of d)"
    if ok: "db_ok d" and op: "delete_track E n d = (Ok x2, d')"
  proof -
    obtain t k rt where rt: "tbl_insert E (eng_show_json E (archive_json n t d)) (removed_tracks d) = Inr (k, rt)"
      "d' = delete_track_row n (d\<lparr>removed_tracks := rt\<rparr>)"
      using delete_track_effect [OF op] by blast
    then have "db_ok (d\<lparr>removed_tracks := rt\<rparr>)"
      using insert_removed_row_ok [OF ok] by (fastforce simp: insert_removed_row_def and_then_Inr_iff)
    moreover have "catalogue_of (d\<lparr>removed_tracks := rt\<rparr>) = catalogue_of d"
      by (simp add: catalogue_of_def urls_of_def assigned_def heard_of_def)
    ultimately show ?thesis using rt(2) delete_track_row_abs by simp
  qed
next
  show "catalogue_of d' =
     (catalogue_of d)\<lparr>ct_listens := (ct_listens (catalogue_of d))(k \<mapsto> (n, time_of from, time_of to))\<rparr>"
    if ok: "db_ok d" and op: "add_listen E n from to d = (Ok k, d')"
    using op by (auto simp: add_listen_def op_simps time_of_Inr dest!: insert_listen_row_abs [OF ok]
        split: sum.splits)
next
  show "catalogue_of d' = hear n day secs (catalogue_of d)"
    if "add_listened_seconds E day n secs d = (Ok x4, d')"
    using upsert_daily_row_abs [OF add_listened_seconds_effect [OF that]] by (simp add: bump_listened_abs)
qed

lemma row_abs:
  "db_ok d \<Longrightarrow> delete_tag E n d = (Ok x1, d') \<Longrightarrow> catalogue_of d' =
     (catalogue_of d)\<lparr>ct_tags := (ct_tags (catalogue_of d))(n := None),
       ct_tagged := {p \<in> ct_tagged (catalogue_of d). snd p \<noteq> n}\<rparr>"
  "remove_tag E n g d = (Ok x2, d') \<Longrightarrow> catalogue_of d' =
     (catalogue_of d)\<lparr>ct_tagged := ct_tagged (catalogue_of d) - {(n, g)}\<rparr>"
  "update_meta E n v d = (Ok x3, d') \<Longrightarrow> catalogue_of d' =
     (catalogue_of d)\<lparr>ct_notes := (ct_notes (catalogue_of d))(n :=
       map_option (\<lambda>(t, key, old). (t, key, v)) (ct_notes (catalogue_of d) n))\<rparr>"
  "db_ok d \<Longrightarrow> delete_meta E n d = (Ok x4, d') \<Longrightarrow> catalogue_of d' =
     (catalogue_of d)\<lparr>ct_notes := (ct_notes (catalogue_of d))(n := None)\<rparr>"
  "remove_track_source E n url d = (Ok x5, d') \<Longrightarrow> catalogue_of d' =
     (catalogue_of d)\<lparr>ct_urls := ct_urls (catalogue_of d) - {(n, url)}\<rparr>"
  by (auto simp: delete_tag_def remove_tag_def update_meta_def delete_meta_def remove_track_source_def
      op_simps delete_tag_row_abs delete_assignment_row_abs update_meta_row_abs delete_meta_row_abs
      delete_source_row_abs)

lemma searches_abs:
  "get_tracks E q cur cs n d = (Ok x1, d') \<Longrightarrow> d' = d"
  "get_tracks_with_sources E q cur cs n d = (Ok x2, d') \<Longrightarrow> d' = d"
  "get_tracks_filtered E any cur fs n d = (Ok x3, d') \<Longrightarrow> d' = d"
  by (auto simp: get_tracks_with_sources_def get_tracks_filtered_def
      dest!: get_tracks_Ok_db try_log_repo split: rust.splits prod.splits if_splits)

lemma execute_listened_abs:
  assumes "execute W (AddListenedSeconds a) s = (Ok v, s')"
  shows "catalogue_of (ex_repo s') = update W (ex_guard s) (AddListenedSeconds a) v (catalogue_of (ex_repo s))"
proof -
  obtain r g where sr: "should_record (wd_now W) (as_seconds a) (ex_guard s) = (r :: (string, bool) rust, g)"
    by fastforce
  show ?thesis
  proof (cases "r = Ok True")
    case True
    then have "with_id (as_track a) (\<lambda>n. on_repo W null_val
        (add_listened_seconds (wd_engine W) (wd_today W) n (as_seconds a))) (s\<lparr>ex_guard := g\<rparr>) = (Ok v, s')"
      using assms sr by simp
    then show ?thesis using True sr by (auto elim!: with_id_OkE on_repo_OkE dest!: write_abs(4))
  next
    case False
    then have "ex_repo s' = ex_repo s" using assms sr by (auto split: rust.splits bool.splits if_splits)
    then show ?thesis using False sr by simp
  qed
qed

text \<open>The ids \<^verbatim>\<open>add_tracks\<close> answers are those of its rows only on an engine that leaves no gaps.\<close>

lemma execute_abs:
  assumes "db_ok (ex_repo s)" and "execute W cmd s = (Ok v, s')"
    and "\<And>ts. cmd = AddTracks ts \<Longrightarrow> no_gaps (wd_engine W)"
  shows "catalogue_of (ex_repo s') = update W (ex_guard s) cmd v (catalogue_of (ex_repo s))"
proof (cases cmd)
  case (AddTrack t)
  then show ?thesis using assms(2) by (auto simp: num_of_def elim!: on_repo_OkE dest!: add_track_abs [OF assms(1)])
next
  case (AddTracks ts)
  obtain ids where ids: "add_tracks (wd_engine W) ts (ex_repo s) = (Ok ids, ex_repo s')"
    "v = JArr (map JInt ids)"
    using assms(2) AddTracks by (auto elim!: on_repo_OkE)
  have "foldl (\<lambda>L (k, t). add_entry (num_of k) t L) L (zip (map JInt ks) ts)
      = foldl (\<lambda>L (k, t). add_entry k t L) L (zip ks ts)" for L ks
    by (induction ks ts arbitrary: L rule: list_induct2') (simp_all add: num_of_def)
  then show ?thesis using add_tracks_abs [OF assms(1) assms(3) [OF AddTracks] ids(1)] ids(2) AddTracks by simp
next
  case (AddListenedSeconds a)
  then show ?thesis using execute_listened_abs assms(2) by simp
next
  case (AddListen a)
  then show ?thesis using assms(2)
    by (auto simp: num_of_def elim!: with_id_OkE on_repo_OkE dest!: write_abs(3) [OF assms(1)])
next
  case (AddTag name)
  then show ?thesis using assms(2)
    by (auto simp: num_of_def add_tag_def op_simps elim!: on_repo_OkE dest!: insert_tag_row_abs [OF assms(1)])
next
  case (AddMeta a)
  then show ?thesis using assms(2)
    by (auto simp: num_of_def add_meta_def op_simps elim!: with_id_OkE on_repo_OkE
        dest!: insert_meta_row_abs [OF assms(1)])
next
  case (UpdateTrack a)
  then show ?thesis using assms(2) by (auto elim!: with_id_OkE on_repo_OkE dest!: write_abs(1))
next
  case (DeleteTrack b)
  then show ?thesis using assms(2)
    by (auto elim!: with_id_OkE on_repo_OkE dest!: write_abs(2) [OF assms(1)])
next
  case (EditTag a)
  then show ?thesis using assms(2)
    by (auto simp: edit_tag_def op_simps elim!: with_id_OkE on_repo_OkE dest!: update_tag_row_abs)
next
  case (DeleteTag b)
  then show ?thesis using assms(2)
    by (auto elim!: with_id_OkE on_repo_OkE dest!: row_abs(1) [OF assms(1)])
next
  case (AssignTag a)
  then show ?thesis using assms(2)
    by (auto simp: assign_tag_def op_simps elim!: with_id_OkE on_repo_OkE dest!: insert_assignment_row_abs)
next
  case (AssignTags as)
  then show ?thesis using assms(2) by (auto elim!: on_repo_OkE dest!: assign_tags_abs)
next
  case (RemoveTag a)
  then show ?thesis using assms(2)
    by (auto elim!: with_id_OkE on_repo_OkE dest!: row_abs(2))
next
  case (UpdateMeta a)
  then show ?thesis using assms(2)
    by (auto elim!: with_id_OkE on_repo_OkE dest!: row_abs(3))
next
  case (DeleteMeta b)
  then show ?thesis using assms(2)
    by (auto elim!: with_id_OkE on_repo_OkE dest!: row_abs(4) [OF assms(1)])
next
  case (AddTrackSource a)
  then show ?thesis using assms(2)
    by (auto simp: add_track_source_def op_simps elim!: with_id_OkE on_repo_OkE dest!: insert_source_row_abs)
next
  case (RemoveTrackSource a)
  then show ?thesis using assms(2)
    by (auto elim!: with_id_OkE on_repo_OkE dest!: row_abs(5))
next
  case (EditTrackSource a)
  then show ?thesis using assms(2)
    by (auto simp: edit_track_source_def op_simps edit_track_source_steps_def delete_source_row_abs
        elim!: with_id_OkE on_repo_OkE dest!: insert_source_row_abs)
next
  case (GetTracks a)
  then show ?thesis using assms(2)
    by (cases "gt_cursor a") (auto simp: with_cursor_def elim!: with_id_OkE on_repo_OkE dest!: searches_abs)
next
  case (GetTracksWithSources a)
  then show ?thesis using assms(2)
    by (cases "gt_cursor a") (auto simp: with_cursor_def elim!: with_id_OkE on_repo_OkE dest!: searches_abs)
next
  case (GetTracksFiltered a)
  then show ?thesis using assms(2)
    by (cases "gf_cursor a") (auto simp: with_cursor_def elim!: with_id_OkE on_repo_OkE dest!: searches_abs)
next
  case GetHtmlBundle
  then show ?thesis using assms(2) by (auto split: prod.splits)
qed (use assms(2) in \<open>auto elim!: with_id_OkE on_repo_OkE dest!: reads_abs\<close>)

end
