(* ===== verification/Catalogue_Reads.thy ===== *)
theory Catalogue_Reads
  imports Catalogue_Refinement
begin

text \<open>
  What the reading commands answer, in terms of the catalogue alone: rows of a map in the order of
  their ids, with the listening counter of a track as the sum of what was heard of it on all days.
  The searches, whose text SQLite evaluates, are in \<open>Query_Properties\<close>.
\<close>

section \<open>Answers of a catalogue\<close>

text \<open>The rows of a map that satisfy \<open>p\<close>, in the order of their ids.\<close>

definition listing :: "(int \<Rightarrow> 'v \<Rightarrow> bool) \<Rightarrow> (int \<Rightarrow> 'v option) \<Rightarrow> (int \<times> 'v) list" where
  "listing p m = map (\<lambda>k. (k, the (m k))) (sorted_list_of_set {k. \<exists>v. m k = Some v \<and> p k v})"

definition total_heard :: "catalogue \<Rightarrow> int \<Rightarrow> int" where
  "total_heard L tid = (\<Sum>day \<in> {day. ct_heard L (tid, day) \<noteq> None}. the (ct_heard L (tid, day)))"

definition track_answer :: "catalogue \<Rightarrow> int \<Rightarrow> entry \<Rightarrow> TrackRow" where
  "track_answer L tid e =
     \<lparr>tr_id = bigint_try_from tid, tr_artist = en_artist e, tr_track_name = en_name e,
      tr_length_seconds = Some (en_length e), tr_bitrate_kbps = en_bitrate e,
      tr_tempo_bpm = en_tempo e, tr_addition_time = en_added e,
      tr_listened_seconds = total_heard L tid\<rparr>"

definition listen_answer :: "int \<times> int \<times> int \<times> int \<Rightarrow> ListenInfo" where
  "listen_answer r = (case r of (k, t, f, u) \<Rightarrow>
     \<lparr>li_id = bigint_try_from k, li_track_id = bigint_try_from t, li_listened_from = f,
      li_listened_to = u\<rparr>)"

definition note_answer :: "int \<times> int \<times> string \<times> string \<Rightarrow> TrackMeta" where
  "note_answer r = (case r of (k, t, key, v) \<Rightarrow>
     \<lparr>tm_id = bigint_try_from k, tm_track_id = bigint_try_from t, tm_key = key, tm_value = v\<rparr>)"

text \<open>The ids of sources are not in a catalogue: a list of sources has its urls, each once.\<close>

fun answers :: "world \<Rightarrow> catalogue \<Rightarrow> Command \<Rightarrow> json \<Rightarrow> bool" where
  "answers W L (GetTrack b) v \<longleftrightarrow>
     (\<exists>e. ct_entries L (id_of b) = Some e \<and> v = track_json (track_answer L (id_of b) e))"
| "answers W L (GetListensForTrack b) v \<longleftrightarrow>
     v = JArr (map (listen_json \<circ> listen_answer) (listing (\<lambda>k l. fst l = id_of b) (ct_listens L)))"
| "answers W L GetAllTags v \<longleftrightarrow> v = JArr (map (tag_json \<circ> tag_of_row) (listing (\<lambda>k name. True) (ct_tags L)))"
| "answers W L (GetTags p) v \<longleftrightarrow>
     v = JArr (map (tag_json \<circ> tag_of_row)
       (listing (\<lambda>k name. eng_like (wd_engine W) (''%'' @ p @ ''%'') name) (ct_tags L)))"
| "answers W L (GetTagsForTrack b) v \<longleftrightarrow>
     v = JArr (map (tag_json \<circ> tag_of_row) (listing (\<lambda>k name. (id_of b, k) \<in> ct_tagged L) (ct_tags L)))"
| "answers W L (GetMetaForTrack b) v \<longleftrightarrow>
     v = JArr (map (meta_json \<circ> note_answer) (listing (\<lambda>k n. fst n = id_of b) (ct_notes L)))"
| "answers W L (GetSourcesForTrack b) v \<longleftrightarrow>
     (\<exists>ss. v = JArr (map source_json ss) \<and> (\<forall>s \<in> set ss. ts_track_id s = bigint_try_from (id_of b))
        \<and> distinct (map ts_url ss) \<and> set (map ts_url ss) = {url. (id_of b, url) \<in> ct_urls L})"
| "answers W L cmd v \<longleftrightarrow> True"

section \<open>Selections are listings\<close>

lemma listing_rows:
  assumes "sorted_wrt (<) (map fst rs)"
  shows "filter (\<lambda>(k, c). p k c) rs = listing p (map_of rs)"
proof -
  let ?xs = "filter (\<lambda>(k, c). p k c) rs"
  have distinct: "distinct (map fst rs)" using assms by (simp add: strict_sorted_iff)
  have row: "map_of rs k = Some c \<longleftrightarrow> (k, c) \<in> set rs" for k c
    using distinct by (rule map_of_eq_Some_iff)
  have "sorted_wrt (<) (map fst ?xs)" using assms by (rule sorted_wrt_map_filter)
  moreover have "set (map fst ?xs) = {k. \<exists>c. map_of rs k = Some c \<and> p k c}"
    by (auto simp: row image_iff)
  ultimately have keys: "sorted_list_of_set {k. \<exists>c. map_of rs k = Some c \<and> p k c} = map fst ?xs"
    by (metis strict_sorted_iff sorted_list_of_set.idem_if_sorted_distinct)
  have "map (\<lambda>k. (k, the (map_of rs k))) (map fst ?xs) = ?xs"
  proof -
    have "map ((\<lambda>k. (k, the (map_of rs k))) \<circ> fst) ?xs = map (\<lambda>r. r) ?xs"
      by (rule map_cong) (auto simp: row [symmetric])
    then show ?thesis by simp
  qed
  then show ?thesis by (simp add: listing_def keys)
qed

lemma select_listing: "tbl_ok t \<Longrightarrow> tbl_select p t = listing p (tmap t)"
  unfolding tbl_select_def tmap_def by (rule listing_rows) (simp add: tbl_ok_def tbl_ids_def)

lemma listing_map_option:
  assumes "\<And>k c. q k (f c) = p k c"
  shows "listing q (\<lambda>k. map_option f (m k)) = map (\<lambda>(k, c). (k, f c)) (listing p m)"
proof -
  have "{k. \<exists>v. map_option f (m k) = Some v \<and> q k v} = {k. \<exists>c. m k = Some c \<and> p k c}"
    by (auto simp: assms)
  moreover have "map (\<lambda>k. (k, the (map_option f (m k)))) ks = map (\<lambda>k. (k, f (the (m k)))) ks"
    if "set ks \<subseteq> {k. \<exists>c. m k = Some c \<and> p k c}" for ks
    using that by (induction ks) auto
  moreover have "set (sorted_list_of_set {k. \<exists>c. m k = Some c \<and> p k c}) \<subseteq> {k. \<exists>c. m k = Some c \<and> p k c}"
    by (cases "finite {k. \<exists>c. m k = Some c \<and> p k c}") simp_all
  ultimately show ?thesis by (simp add: listing_def o_def)
qed

section \<open>The counter of a track\<close>

lemma sum_by_day:
  assumes "distinct (map (\<lambda>c. (a c, b c)) xs)"
  shows "sum_list (map v (filter (\<lambda>c. a c = i) xs))
    = (\<Sum>day \<in> {day. map_of (map (\<lambda>c. ((a c, b c), v c)) xs) (i, day) \<noteq> None}.
         the (map_of (map (\<lambda>c. ((a c, b c), v c)) xs) (i, day)) :: int)"
  using assms
proof (induction xs)
  case (Cons x xs)
  let ?m = "map_of (map (\<lambda>c. ((a c, b c), v c)) xs)"
  let ?m' = "map_of (map (\<lambda>c. ((a c, b c), v c)) (x # xs))"
  let ?S = "{day. ?m (i, day) \<noteq> None}"
  have IH: "sum_list (map v (filter (\<lambda>c. a c = i) xs)) = (\<Sum>day \<in> ?S. the (?m (i, day)))"
    using Cons by simp
  show ?case
  proof (cases "a x = i")
    case True
    have "(a x, b x) \<notin> fst ` set (map (\<lambda>c. ((a c, b c), v c)) xs)" using Cons.prems by (auto simp: image_iff)
    then have "?m (a x, b x) = None" by (simp only: map_of_eq_None_iff not_False_eq_True)
    then have new: "b x \<notin> ?S" using True by simp
    have "finite (Pair i -` dom ?m)" by (intro finite_vimageI finite_dom_map_of) (simp add: inj_def)
    moreover have "Pair i -` dom ?m = ?S" by auto
    ultimately have fin: "finite ?S" by simp
    have keys: "{day. ?m' (i, day) \<noteq> None} = insert (b x) ?S" using True by auto
    have "(\<Sum>day \<in> {day. ?m' (i, day) \<noteq> None}. the (?m' (i, day)))
        = the (?m' (i, b x)) + (\<Sum>day \<in> ?S. the (?m' (i, day)))"
      unfolding keys using fin new by (rule sum.insert)
    moreover have "(\<Sum>day \<in> ?S. the (?m' (i, day))) = (\<Sum>day \<in> ?S. the (?m (i, day)))"
      by (rule sum.cong) (use new in auto)
    ultimately show ?thesis using IH True by simp
  next
    case False
    then show ?thesis using IH by simp
  qed
qed simp

lemma total_heard_of:
  assumes "db_ok d"
  shows "total_heard (catalogue_of d) tid = daily_total d tid"
proof -
  have "distinct (map (prod.swap \<circ> daily_key) (tbl_cols (listened_daily d)))"
    using assms by (simp add: db_ok_def uniq_ok_def distinct_map comp_inj_on)
  then have "distinct (map (\<lambda>c. (da_track_id c, da_date c)) (tbl_cols (listened_daily d)))"
    by (simp add: o_def)
  then show ?thesis
    by (simp add: total_heard_def catalogue_of_def heard_of_def daily_total_def sum_by_day)
qed

section \<open>The reads answer from the catalogue\<close>

lemma try_log_Ok_exec: "try_log E ctx (exec E i m) d = (Ok v, d') \<Longrightarrow> m = Inr v"
  by (auto simp: try_log_def exec_Inr_iff split: sum.splits)

lemma get_track_answer:
  assumes "db_ok d" and "get_track E tid d = (Ok t, d')"
  shows "\<exists>e. ct_entries (catalogue_of d) tid = Some e \<and> t = track_answer (catalogue_of d) tid e"
proof -
  have ok: "tbl_ok (track_info d)" using assms(1) by (rule db_ok_tables)
  have "fetch_track tid d = Inr t" using assms(2) unfolding get_track_def by (rule try_log_Ok_exec)
  then obtain r rs where r: "tbl_select (\<lambda>k c. k = tid) (track_info d) = r # rs" "t = track_of_row r"
    by (auto simp: fetch_track_def split: list.splits)
  then have "r \<in> set (tbl_select (\<lambda>k c. k = tid) (track_info d))" by simp
  then obtain c where c: "r = (tid, c)" "(tid, c) \<in> set (tbl_rows (track_info d))"
    by (auto simp: tbl_select_def)
  then have "tmap (track_info d) tid = Some c"
    using tbl_ok_distinct [OF ok] by (simp add: tmap_def tbl_ids_def)
  moreover have "ti_listened_seconds c = daily_total d tid"
    using assms(1) c(2) by (auto simp: db_ok_def ledger_ok_def)
  ultimately show ?thesis
    using r(2) c(1) total_heard_of [OF assms(1), of tid]
    by (simp add: catalogue_of_def track_of_row_def track_answer_def entry_of_def)
qed

lemma get_listens_answer:
  assumes "db_ok d" and "get_listens_for_track E tid d = (Ok ls, d')"
  shows "ls = map listen_answer (listing (\<lambda>k l. fst l = tid) (ct_listens (catalogue_of d)))"
proof -
  have "listing (\<lambda>k l. fst l = tid) (ct_listens (catalogue_of d))
      = map (\<lambda>(k, c). (k, listened_of c)) (tbl_select (\<lambda>k c. ls_track_id c = tid) (listen_info d))"
    unfolding select_listing [OF db_ok_tables(3) [OF assms(1)]]
    by (simp add: catalogue_of_def listing_map_option [of _ _ "\<lambda>k c. ls_track_id c = tid"] listened_of_def)
  then show ?thesis
    using try_log_Ok_exec [OF assms(2) [unfolded get_listens_for_track_def]]
    by (auto simp: listen_of_row_def listen_answer_def listened_of_def split: prod.splits)
qed

lemma get_meta_answer:
  assumes "db_ok d" and "get_meta_for_track E tid d = (Ok ms, d')"
  shows "ms = map note_answer (listing (\<lambda>k n. fst n = tid) (ct_notes (catalogue_of d)))"
proof -
  have "listing (\<lambda>k n. fst n = tid) (ct_notes (catalogue_of d))
      = map (\<lambda>(k, c). (k, note_of c)) (tbl_select (\<lambda>k c. me_track_id c = tid) (track_meta d))"
    unfolding select_listing [OF db_ok_tables(6) [OF assms(1)]]
    by (simp add: catalogue_of_def listing_map_option [of _ _ "\<lambda>k c. me_track_id c = tid"] note_of_def)
  then show ?thesis
    using try_log_Ok_exec [OF assms(2) [unfolded get_meta_for_track_def]]
    by (auto simp: meta_of_row_def note_answer_def note_of_def split: prod.splits)
qed

lemma tags_answer:
  assumes "db_ok d"
  shows "get_all_tags E d = (Ok ts, d') \<Longrightarrow> ts = map tag_of_row (listing (\<lambda>k n. True) (ct_tags (catalogue_of d)))"
    and "get_tags E pat d = (Ok ts, d') \<Longrightarrow>
      ts = map tag_of_row (listing (\<lambda>k n. eng_like E (''%'' @ pat @ ''%'') n) (ct_tags (catalogue_of d)))"
    and "get_tags_for_track E tid d = (Ok ts, d') \<Longrightarrow>
      ts = map tag_of_row
        (listing (\<lambda>k n. (tid, k) \<in> ct_tagged (catalogue_of d)) (ct_tags (catalogue_of d)))"
proof -
  note ok = db_ok_tables(4) [OF assms]
  have all: "tbl_rows (tags d) = listing (\<lambda>k n. True) (tmap (tags d))"
    using select_listing [OF ok, of "\<lambda>k n. True"] by (simp add: tbl_select_def)
  show "get_all_tags E d = (Ok ts, d') \<Longrightarrow> ts = map tag_of_row (listing (\<lambda>k n. True) (ct_tags (catalogue_of d)))"
    unfolding get_all_tags_def by (drule try_log_Ok_exec) (simp add: catalogue_of_def all)
  show "get_tags E pat d = (Ok ts, d') \<Longrightarrow>
      ts = map tag_of_row (listing (\<lambda>k n. eng_like E (''%'' @ pat @ ''%'') n) (ct_tags (catalogue_of d)))"
    unfolding get_tags_def by (drule try_log_Ok_exec) (simp add: catalogue_of_def select_listing [OF ok])
  show "get_tags_for_track E tid d = (Ok ts, d') \<Longrightarrow>
      ts = map tag_of_row
        (listing (\<lambda>k n. (tid, k) \<in> ct_tagged (catalogue_of d)) (ct_tags (catalogue_of d)))"
    unfolding get_tags_for_track_def
    by (drule try_log_Ok_exec)
       (simp add: catalogue_of_def tags_of_track_def select_listing [OF ok] assigned_def)
qed

lemma get_sources_answer:
  assumes "db_ok d" and "get_sources_for_track E tid d = (Ok ss, d')"
  shows "(\<forall>s \<in> set ss. ts_track_id s = bigint_try_from tid) \<and> distinct (map ts_url ss)
     \<and> set (map ts_url ss) = {url. (tid, url) \<in> ct_urls (catalogue_of d)}"
proof -
  let ?rs = "tbl_select (\<lambda>k c. so_track_id c = tid) (track_sources d)"
  let ?cs = "filter (\<lambda>c. so_track_id c = tid) (tbl_cols (track_sources d))"
  have ss: "ss = map source_of_row ?rs"
    using try_log_Ok_exec [OF assms(2) [unfolded get_sources_for_track_def]] by simp
  have cols: "map snd ?rs = ?cs"
    by (simp add: tbl_select_def tbl_cols_def filter_map o_def case_prod_unfold)
  have urls: "map ts_url ss = map so_url ?cs"
    unfolding ss cols [symmetric] by (simp add: source_of_row_def o_def)
  have "distinct (map source_key ?cs)"
    using assms(1) by (simp add: db_ok_def uniq_ok_def distinct_map_filter)
  then have "distinct (map so_url ?cs)"
    by (auto simp: distinct_map inj_on_def)
  moreover have "set (map so_url ?cs) = {url. (tid, url) \<in> ct_urls (catalogue_of d)}"
    by (force simp: catalogue_of_def urls_of_def)
  moreover have "\<forall>s \<in> set ss. ts_track_id s = bigint_try_from tid"
    unfolding ss by (auto simp: source_of_row_def tbl_select_def)
  ultimately show ?thesis unfolding urls by simp
qed

lemma execute_answers:
  assumes "db_ok (ex_repo s)" and "execute W cmd s = (Ok v, s')"
  shows "answers W (catalogue_of (ex_repo s)) cmd v"
proof (cases cmd)
  case (GetTrack b)
  then show ?thesis using assms(2)
    by (auto elim!: with_id_OkE on_repo_OkE dest!: get_track_answer [OF assms(1)])
next
  case (GetListensForTrack b)
  then show ?thesis using assms(2)
    by (auto elim!: with_id_OkE on_repo_OkE dest!: get_listens_answer [OF assms(1)])
next
  case GetAllTags
  then show ?thesis using assms(2) by (auto elim!: on_repo_OkE dest!: tags_answer(1) [OF assms(1)])
next
  case (GetTags p)
  then show ?thesis using assms(2) by (auto elim!: on_repo_OkE dest!: tags_answer(2) [OF assms(1)])
next
  case (GetTagsForTrack b)
  then show ?thesis using assms(2)
    by (auto elim!: with_id_OkE on_repo_OkE dest!: tags_answer(3) [OF assms(1)])
next
  case (GetMetaForTrack b)
  then show ?thesis using assms(2)
    by (auto elim!: with_id_OkE on_repo_OkE dest!: get_meta_answer [OF assms(1)])
next
  case (GetSourcesForTrack b)
  then show ?thesis using assms(2)
    by (auto elim!: with_id_OkE on_repo_OkE dest!: get_sources_answer [OF assms(1)])
qed simp_all

section \<open>Sessions\<close>

text \<open>
  A shelf is the abstract state of a core: its catalogue and the listen guard, which decides whether
  listened seconds count. A step is a command with the answer it was given.
\<close>

record shelf =
  sh_catalogue :: catalogue
  sh_guard :: ListenGuard

definition shelf_of :: "AppCore \<Rightarrow> shelf" where
  "shelf_of c =
     \<lparr>sh_catalogue = (case ac_repo c of Some d \<Rightarrow> catalogue_of d | None \<Rightarrow> empty_catalogue),
      sh_guard = ac_guard c\<rparr>"

definition shelf_step :: "shelf \<Rightarrow> (world \<times> Command) \<times> (string, json) rust \<Rightarrow> shelf" where
  "shelf_step h q =
     (case q of ((W, cmd), r) \<Rightarrow>
       \<lparr>sh_catalogue =
          (case r of Ok v \<Rightarrow> update W (sh_guard h) cmd v (sh_catalogue h) | _ \<Rightarrow> sh_catalogue h),
        sh_guard =
          (case cmd of
             AddListenedSeconds a \<Rightarrow>
               snd (should_record (wd_now W) (as_seconds a) (sh_guard h) :: (string, bool) rust \<times> ListenGuard)
           | _ \<Rightarrow> sh_guard h)\<rparr>)"

fun run_commands ::
  "(world \<times> Command) list \<Rightarrow> AppCore \<Rightarrow> (string, json) rust list \<times> AppCore" where
  "run_commands [] c = ([], c)"
| "run_commands ((W, cmd) # qs) c =
     (case dispatch_with_core W cmd c of
        (r, c') \<Rightarrow> (case run_commands qs c' of (rs, c'') \<Rightarrow> (r # rs, c'')))"

text \<open>Batches get the ids that were answered: on an engine that leaves no gaps.\<close>

definition batches_without_gaps :: "(world \<times> Command) list \<Rightarrow> bool" where
  "batches_without_gaps qs \<longleftrightarrow>
     (\<forall>(W, cmd) \<in> set qs. case cmd of AddTracks ts \<Rightarrow> no_gaps (wd_engine W) | _ \<Rightarrow> True)"

lemma with_id_guard: "(\<And>n. ex_guard (snd (k n s)) = ex_guard s) \<Longrightarrow> ex_guard (snd (with_id b k s)) = ex_guard s"
  by (simp add: with_id_def split: rust.split)

lemma on_repo_guard: "ex_guard (snd (on_repo W j f s)) = ex_guard s"
  by (simp add: on_repo_def split: prod.split)

lemma with_cursor_guard:
  "(\<And>n. ex_guard (snd (k n s)) = ex_guard s) \<Longrightarrow> ex_guard (snd (with_cursor cur k s)) = ex_guard s"
  by (cases cur) (simp_all add: with_cursor_def with_id_guard)

lemma execute_guard:
  "ex_guard (snd (execute W cmd s)) =
     (case cmd of
        AddListenedSeconds a \<Rightarrow>
          snd (should_record (wd_now W) (as_seconds a) (ex_guard s) :: (string, bool) rust \<times> ListenGuard)
      | _ \<Rightarrow> ex_guard s)"
proof (cases cmd)
  case (AddListenedSeconds a)
  obtain r g where sr: "should_record (wd_now W) (as_seconds a) (ex_guard s) = (r :: (string, bool) rust, g)"
    by fastforce
  have "ex_guard (snd (with_id (as_track a) (\<lambda>n. on_repo W null_val
      (add_listened_seconds (wd_engine W) (wd_today W) n (as_seconds a))) (s\<lparr>ex_guard := g\<rparr>))) = g"
    by (simp add: with_id_guard on_repo_guard)
  then show ?thesis using AddListenedSeconds sr by (simp split: rust.split bool.split)
next
  case (GetTracks a)
  then show ?thesis by (simp add: with_cursor_guard on_repo_guard)
next
  case (GetTracksWithSources a)
  then show ?thesis by (simp add: with_cursor_guard on_repo_guard)
next
  case (GetTracksFiltered a)
  then show ?thesis by (simp add: with_cursor_guard on_repo_guard)
qed (simp_all add: with_id_guard on_repo_guard split: prod.split)

lemma dispatch_shelf:
  assumes "core_ok c" and "dispatch_with_core W cmd c = (r, c')"
    and "case cmd of AddTracks ts \<Rightarrow> no_gaps (wd_engine W) | _ \<Rightarrow> True"
  shows "shelf_of c' = shelf_step (shelf_of c) ((W, cmd), r)"
proof -
  obtain d where d: "ac_repo c = Some d" "db_ok d" using assms(1) by (rule core_okE)
  show "shelf_of c' = shelf_step (shelf_of c) ((W, cmd), r)"
  proof (cases "cmd = ResetDatabase")
    case True
    then show ?thesis
      using assms(2) d
      by (auto simp: dispatch_with_core_def reset_database_def create_repo_def shelf_of_def shelf_step_def
          catalogue_of_empty split: if_splits option.splits)
  next
    case False
    let ?s = "\<lparr>ex_repo = d, ex_guard = ac_guard c, ex_script = ac_script c\<rparr>"
    obtain s where s: "execute W cmd ?s = (r, s)" "ac_repo c' = Some (ex_repo s)" "ac_guard c' = ex_guard s"
      using False d assms(2) by (auto simp: dispatch_with_core_def split: prod.splits)
    have guard: "sh_guard (shelf_of c') = sh_guard (shelf_step (shelf_of c) ((W, cmd), r))"
      using execute_guard [of W cmd ?s] s by (simp add: shelf_of_def shelf_step_def split: Command.splits)
    have "catalogue_of (ex_repo s)
        = (case r of Ok v \<Rightarrow> update W (ac_guard c) cmd v (catalogue_of d) | _ \<Rightarrow> catalogue_of d)"
    proof (cases "\<exists>v. r = Ok v")
      case True
      then obtain v where v: "r = Ok v" by blast
      have "catalogue_of (ex_repo s) = update W (ex_guard ?s) cmd v (catalogue_of (ex_repo ?s))"
        by (rule execute_abs) (use d(2) s(1) v assms(3) in auto)
      then show ?thesis using v by simp
    next
      case False
      then have "same_data d (ex_repo s)" using safe_execD [OF execute_safe s(1)] d(2) by simp
      then show ?thesis using False by (simp add: catalogue_same_data split: rust.split)
    qed
    then show ?thesis
      using guard s(2) d(1) by (cases r) (simp_all add: shelf_of_def shelf_step_def)
  qed
qed

lemma dispatch_answers:
  assumes "core_ok c" and "dispatch_with_core W cmd c = (Ok v, c')"
  shows "answers W (sh_catalogue (shelf_of c)) cmd v"
proof (cases "cmd = ResetDatabase")
  case False
  obtain d where d: "ac_repo c = Some d" "db_ok d" using assms(1) by (rule core_okE)
  then obtain s where "execute W cmd \<lparr>ex_repo = d, ex_guard = ac_guard c, ex_script = ac_script c\<rparr> = (Ok v, s)"
    using False assms(2) by (auto simp: dispatch_with_core_def split: prod.splits)
  from execute_answers [OF _ this] show ?thesis using d by (simp add: shelf_of_def)
qed simp

lemma run_commands_shelf:
  assumes "core_ok c" and "run_commands qs c = (rs, c')" and "batches_without_gaps qs"
  shows "shelf_of c' = foldl shelf_step (shelf_of c) (zip qs rs) \<and> length rs = length qs"
  using assms
proof (induction qs arbitrary: c rs)
  case (Cons q qs)
  obtain W cmd where q: "q = (W, cmd)" by fastforce
  obtain r c1 where 1: "dispatch_with_core W cmd c = (r, c1)" by fastforce
  obtain rs1 where 2: "run_commands qs c1 = (rs1, c')" "rs = r # rs1"
    using Cons.prems(2) q 1 by (auto split: prod.splits)
  have "core_ok c1" using dispatch_with_core_safe [OF Cons.prems(1) 1] by blast
  from Cons.IH [OF this 2(1)] Cons.prems(3)
  have "shelf_of c' = foldl shelf_step (shelf_of c1) (zip qs rs1)" "length rs1 = length qs"
    by (simp_all add: batches_without_gaps_def)
  moreover have "shelf_of c1 = shelf_step (shelf_of c) (q, r)"
    using dispatch_shelf [OF Cons.prems(1) 1] Cons.prems(3) q by (simp add: batches_without_gaps_def)
  ultimately show ?case using 2(2) by simp
qed simp

end
