(* ===== verification/Catalogue_Accepts.thy ===== *)
theory Catalogue_Accepts
  imports Catalogue_Reads
begin

text \<open>
  Which commands succeed: on an engine that does not fail and has room for the new rows, exactly
  those whose arguments the catalogue admits. One condition per command, in the terms of the
  catalogue, and one lemma per operation.
\<close>

section \<open>What a catalogue admits\<close>

definition valid :: "BigintId \<Rightarrow> bool" where
  "valid b \<longleftrightarrow> (\<exists>n. to_i64 b = (Ok n :: (unit, int) rust))"

definition named :: "catalogue \<Rightarrow> string \<Rightarrow> string \<Rightarrow> int \<Rightarrow> bool" where
  "named L artist name k \<longleftrightarrow> (\<exists>e. ct_entries L k = Some e \<and> en_artist e = artist \<and> en_name e = name)"

definition has_entry :: "catalogue \<Rightarrow> int \<Rightarrow> bool" where
  "has_entry L k \<longleftrightarrow> ct_entries L k \<noteq> None"

definition is_time :: "string \<Rightarrow> bool" where
  "is_time s \<longleftrightarrow> (\<exists>n. parse_i64 s = Inr n)"

text \<open>A new track has a length and a name of its own, and names no source twice.\<close>

definition admits_track :: "catalogue \<Rightarrow> NewTrack \<Rightarrow> bool" where
  "admits_track L t \<longleftrightarrow>
     nt_length_seconds t \<noteq> None \<and> (\<forall>k. \<not> named L (nt_artist t) (nt_track_name t) k)
   \<and> distinct (nt_sources t)"

fun admits :: "world \<Rightarrow> shelf \<Rightarrow> Command \<Rightarrow> bool" where
  "admits W h (AddTrack t) \<longleftrightarrow> nt_sources t \<noteq> [] \<and> admits_track (sh_catalogue h) t"
| "admits W h (AddTracks ts) \<longleftrightarrow>
     (\<forall>t \<in> set ts. admits_track (sh_catalogue h) t)
   \<and> distinct (map (\<lambda>t. (nt_artist t, nt_track_name t)) ts)"
| "admits W h (UpdateTrack a) \<longleftrightarrow> valid (up_id a)
   \<and> (\<forall>e. ct_entries (sh_catalogue h) (id_of (up_id a)) = Some e \<longrightarrow>
        (\<forall>k. k \<noteq> id_of (up_id a) \<longrightarrow>
          \<not> named (sh_catalogue h) (en_artist (amend (up_update a) e)) (en_name (amend (up_update a) e)) k))"
| "admits W h (GetTrack b) \<longleftrightarrow> valid b \<and> has_entry (sh_catalogue h) (id_of b)"
| "admits W h (DeleteTrack b) \<longleftrightarrow> valid b \<and> has_entry (sh_catalogue h) (id_of b)"
| "admits W h (AddListen a) \<longleftrightarrow> valid (al_track_id a) \<and> is_time (al_from a) \<and> is_time (al_to a)
   \<and> has_entry (sh_catalogue h) (id_of (al_track_id a))"
| "admits W h (GetListensForTrack b) \<longleftrightarrow> valid b"
| "admits W h (AddListenedSeconds a) \<longleftrightarrow>
     (case fst (should_record (wd_now W) (as_seconds a) (sh_guard h)) :: (string, bool) rust of
        Ok True \<Rightarrow> valid (as_track a) \<and> has_entry (sh_catalogue h) (id_of (as_track a))
      | Ok False \<Rightarrow> True
      | _ \<Rightarrow> False)"
| "admits W h (AddTag name) \<longleftrightarrow> (\<forall>k. ct_tags (sh_catalogue h) k \<noteq> Some name)"
| "admits W h (EditTag a) \<longleftrightarrow> valid (et_id a)
   \<and> (ct_tags (sh_catalogue h) (id_of (et_id a)) = None
      \<or> (\<forall>k. k \<noteq> id_of (et_id a) \<longrightarrow> ct_tags (sh_catalogue h) k \<noteq> Some (et_name a)))"
| "admits W h (DeleteTag b) \<longleftrightarrow> valid b"
| "admits W h (AssignTag a) \<longleftrightarrow> valid (at_track_id a) \<and> valid (at_tag_id a)
   \<and> has_entry (sh_catalogue h) (id_of (at_track_id a))
   \<and> ct_tags (sh_catalogue h) (id_of (at_tag_id a)) \<noteq> None"
| "admits W h (AssignTags as) \<longleftrightarrow>
     (\<forall>a \<in> set as. valid (ta_track_id a) \<and> (\<forall>b \<in> set (ta_tag_ids a). valid b
        \<and> has_entry (sh_catalogue h) (id_of (ta_track_id a)) \<and> ct_tags (sh_catalogue h) (id_of b) \<noteq> None))"
| "admits W h (RemoveTag a) \<longleftrightarrow> valid (at_track_id a) \<and> valid (at_tag_id a)"
| "admits W h (GetTagsForTrack b) \<longleftrightarrow> valid b"
| "admits W h (AddMeta a) \<longleftrightarrow> valid (am_track_id a) \<and> has_entry (sh_catalogue h) (id_of (am_track_id a))"
| "admits W h (UpdateMeta a) \<longleftrightarrow> valid (um_id a)"
| "admits W h (DeleteMeta b) \<longleftrightarrow> valid b"
| "admits W h (GetMetaForTrack b) \<longleftrightarrow> valid b"
| "admits W h (AddTrackSource a) \<longleftrightarrow> valid (sa_track_id a)
   \<and> has_entry (sh_catalogue h) (id_of (sa_track_id a))
   \<and> (id_of (sa_track_id a), sa_url a) \<notin> ct_urls (sh_catalogue h)"
| "admits W h (RemoveTrackSource a) \<longleftrightarrow> valid (sa_track_id a)"
| "admits W h (EditTrackSource a) \<longleftrightarrow> valid (es_track_id a)
   \<and> has_entry (sh_catalogue h) (id_of (es_track_id a))
   \<and> (es_new_url a = es_old_url a
      \<or> (id_of (es_track_id a), es_new_url a) \<notin> ct_urls (sh_catalogue h))"
| "admits W h (GetSourcesForTrack b) \<longleftrightarrow> valid b"
| "admits W h cmd \<longleftrightarrow> True"

text \<open>The commands a catalogue decides; the others also ask SQLite, a file or the mode of the core.\<close>

fun decided :: "Command \<Rightarrow> bool" where
  "decided (GetTracks a) = False"
| "decided (GetTracksWithSources a) = False"
| "decided (GetTracksFiltered a) = False"
| "decided GetHtmlBundle = False"
| "decided ResetDatabase = False"
| "decided cmd = True"

text \<open>How many rows a command may insert into one table, and the room for them.\<close>

fun new_rows :: "Command \<Rightarrow> nat" where
  "new_rows (AddTrack t) = Suc (length (nt_sources t))"
| "new_rows (AddTracks ts) = length ts + length (concat (map nt_sources ts))"
| "new_rows (AssignTags as) = length (concat (map ta_tag_ids as))"
| "new_rows cmd = 1"

definition has_room :: "nat \<Rightarrow> database \<Rightarrow> bool" where
  "has_room n d \<longleftrightarrow> tbl_seq (track_info d) + int n \<le> i64_max \<and> tbl_seq (track_sources d) + int n \<le> i64_max
     \<and> tbl_seq (listen_info d) + int n \<le> i64_max \<and> tbl_seq (tags d) + int n \<le> i64_max
     \<and> tbl_seq (tag_assignments d) + int n \<le> i64_max \<and> tbl_seq (track_meta d) + int n \<le> i64_max
     \<and> tbl_seq (listened_daily d) + int n \<le> i64_max \<and> tbl_seq (removed_tracks d) + int n \<le> i64_max"

definition good_engine :: "engine \<Rightarrow> bool" where
  "good_engine E \<longleftrightarrow> no_faults E \<and> no_gaps E"

section \<open>Rows and the catalogue\<close>

lemma tmap_None_iff: "tmap t k = None \<longleftrightarrow> k \<notin> set (tbl_ids t)"
  by (simp add: tmap_def map_of_eq_None_iff tbl_ids_def)

lemma tmap_Some_iff: "tbl_ok t \<Longrightarrow> tmap t k = Some c \<longleftrightarrow> (k, c) \<in> set (tbl_rows t)"
  using tbl_ok_distinct [of t] by (simp add: tmap_def tbl_ids_def)

lemma has_entry_of: "has_entry (catalogue_of d) k \<longleftrightarrow> has_track d k"
  by (simp add: has_entry_def catalogue_of_def tmap_None_iff)

lemma has_tag_of: "ct_tags (catalogue_of d) k = None \<longleftrightarrow> \<not> has_tag d k"
  by (simp add: catalogue_of_def tmap_None_iff)

lemma named_of:
  assumes "db_ok d"
  shows "named (catalogue_of d) artist name k
    \<longleftrightarrow> (\<exists>c. (k, c) \<in> set (tbl_rows (track_info d)) \<and> track_key c = (artist, name))"
  using tmap_Some_iff [OF db_ok_tables(1) [OF assms], of k]
  by (auto simp: named_def catalogue_of_def entry_of_def)

lemma some_named_of:
  assumes "db_ok d"
  shows "(artist, name) \<in> set (map track_key (tbl_cols (track_info d)))
    \<longleftrightarrow> (\<exists>k. named (catalogue_of d) artist name k)"
  unfolding named_of [OF assms] by (force simp: tbl_cols_def)

lemma insert_succeeds:
  assumes "no_gaps E" and "tbl_seq t + 1 \<le> i64_max"
  shows "tbl_insert E c t = Inr (tbl_seq t + 1, \<lparr>tbl_rows = tbl_rows t @ [(tbl_seq t + 1, c)], tbl_seq = tbl_seq t + 1\<rparr>)"
  using assms by (simp add: tbl_insert_def Let_def no_gaps_def)

text \<open>Changing the value of one row keeps all values distinct exactly if no other row has the new one.\<close>

lemma distinct_values:
  assumes "distinct (map fst rs)"
  shows "distinct (map g (map snd rs)) \<longleftrightarrow>
    (\<forall>r \<in> set rs. \<forall>r' \<in> set rs. fst r \<noteq> fst r' \<longrightarrow> g (snd r) \<noteq> g (snd r'))"
proof -
  have "distinct rs" and "inj_on fst (set rs)" using assms by (simp_all add: distinct_map)
  then have "distinct (map g (map snd rs)) \<longleftrightarrow> inj_on (\<lambda>r. g (snd r)) (set rs)"
    and same: "\<And>r r'. r \<in> set rs \<Longrightarrow> r' \<in> set rs \<Longrightarrow> fst r = fst r' \<longleftrightarrow> r = r'"
    by (auto simp: distinct_map o_def dest: inj_onD)
  then show ?thesis unfolding inj_on_def by (metis same)
qed

lemma distinct_update_row:
  assumes "tbl_ok t" and "distinct (map g (tbl_cols t))"
  shows "distinct (map g (tbl_cols (tbl_update (\<lambda>k c. k = i) f t)))
    \<longleftrightarrow> (\<forall>c k c'. (i, c) \<in> set (tbl_rows t) \<longrightarrow> (k, c') \<in> set (tbl_rows t) \<longrightarrow> k \<noteq> i \<longrightarrow> g c' \<noteq> g (f c))"
    (is "_ \<longleftrightarrow> ?free")
proof -
  let ?rs = "tbl_rows t" and ?us = "tbl_rows (tbl_update (\<lambda>k c. k = i) f t)"
  let ?u = "\<lambda>r. if fst r = i then f (snd r) else snd r"
  have keys: "distinct (map fst ?rs)" using tbl_ok_distinct [OF assms(1)] by (simp add: tbl_ids_def)
  then have "distinct (map fst ?us)" using tbl_update_ids [of "\<lambda>k c. k = i" f t] by (simp add: tbl_ids_def)
  note us = distinct_values [OF this, of g]
  have rows: "set ?us = (\<lambda>r. (fst r, ?u r)) ` set ?rs"
    unfolding tbl_update_rows by (rule image_cong) (auto split: prod.splits)
  have old: "r \<in> set ?rs \<Longrightarrow> r' \<in> set ?rs \<Longrightarrow> fst r \<noteq> fst r' \<Longrightarrow> g (snd r) \<noteq> g (snd r')" for r r'
    using assms(2) distinct_values [OF keys, of g] unfolding tbl_cols_def by blast
  have "distinct (map g (tbl_cols (tbl_update (\<lambda>k c. k = i) f t)))
      \<longleftrightarrow> (\<forall>r \<in> set ?rs. \<forall>r' \<in> set ?rs. fst r \<noteq> fst r' \<longrightarrow> g (?u r) \<noteq> g (?u r'))"
    unfolding tbl_cols_def us rows by simp
  also have "\<dots> \<longleftrightarrow> (\<forall>r \<in> set ?rs. \<forall>r' \<in> set ?rs. fst r = i \<longrightarrow> fst r' \<noteq> i \<longrightarrow> g (snd r') \<noteq> g (f (snd r)))"
    (is "?all \<longleftrightarrow> ?one")
  proof
    assume all: ?all
    show ?one
    proof (intro ballI impI)
      fix r r' assume "r \<in> set ?rs" "r' \<in> set ?rs" "fst r = i" "fst r' \<noteq> i"
      then show "g (snd r') \<noteq> g (f (snd r))" using all [rule_format, of r r'] by auto
    qed
  next
    assume one: ?one
    show ?all
    proof (intro ballI impI)
      fix r r' assume r: "r \<in> set ?rs" "r' \<in> set ?rs" "fst r \<noteq> fst r'"
      then show "g (?u r) \<noteq> g (?u r')"
        using one [rule_format, of r r'] one [rule_format, of r' r] old [OF r]
        by (cases "fst r = i"; cases "fst r' = i") auto
    qed
  qed
  also have "\<dots> \<longleftrightarrow> ?free" by fastforce
  finally show ?thesis .
qed

section \<open>Operations that succeed\<close>

fun worked :: "'e + 'a \<Rightarrow> bool" where
  "worked (Inr x) = True"
| "worked (Inl e) = False"

lemma worked_combinators [simp]:
  "worked (and_then m f) = (case m of Inr x \<Rightarrow> worked (f x) | Inl e \<Rightarrow> False)"
  "worked (unit_result m1) = worked m1" "worked (no_rowid m2) = worked m2" "worked (in_ctx ctx m3) = worked m3"
  by (cases m; cases m1; cases m2; cases m3; auto simp: unit_result_def no_rowid_def in_ctx_def)+

lemma worked_iff: "worked m \<longleftrightarrow> (\<exists>x. m = Inr x)"
  by (cases m) simp_all

definition succeeds :: "('e, 'a) rust \<times> 's \<Rightarrow> bool" where
  "succeeds p \<longleftrightarrow> (\<exists>v. fst p = Ok v)"

lemma succeeds_simps [simp]:
  "succeeds (Ok v, s)" "\<not> succeeds (Err e, s)" "\<not> succeeds (Panic, s)"
  "succeeds (logged E ctx m1 d) = worked m1" "succeeds (logged_steps E m2 d) = worked m2"
  "succeeds (try_log E ctx m3 d) = worked m3"
  by (cases m1; cases m2; cases m3;
      auto simp: succeeds_def logged_def logged_steps_def try_log_def split: prod.splits)+

text \<open>Room for one row, in a sound database on a good engine.\<close>

definition ready :: "engine \<Rightarrow> database \<Rightarrow> bool" where
  "ready E d \<longleftrightarrow> good_engine E \<and> db_ok d \<and> has_room 1 d"

lemma good_engineD: "good_engine E \<Longrightarrow> no_faults E" "good_engine E \<Longrightarrow> no_gaps E"
  by (simp_all add: good_engine_def)

lemma readyD:
  assumes "ready E d"
  shows "no_faults E" "no_gaps E" "db_ok d" "tbl_seq (track_info d) + 1 \<le> i64_max"
    "tbl_seq (track_sources d) + 1 \<le> i64_max" "tbl_seq (listen_info d) + 1 \<le> i64_max"
    "tbl_seq (tags d) + 1 \<le> i64_max" "tbl_seq (tag_assignments d) + 1 \<le> i64_max"
    "tbl_seq (track_meta d) + 1 \<le> i64_max" "tbl_seq (listened_daily d) + 1 \<le> i64_max"
    "tbl_seq (removed_tracks d) + 1 \<le> i64_max"
  using assms by (simp_all add: ready_def good_engine_def has_room_def)

lemma insert_works:
  assumes "ready E d" and "tbl_seq t + 1 \<le> i64_max"
  shows "\<exists>k tb. \<forall>c. tbl_insert E c t = Inr (k, tb c)"
  using insert_succeeds [OF readyD(2) [OF assms(1)] assms(2)] by auto

lemma tag_in_use:
  "db_ok d \<Longrightarrow> name \<in> set (tbl_cols (tags d)) \<longleftrightarrow> (\<exists>k. ct_tags (catalogue_of d) k = Some name)"
  using tmap_Some_iff [OF db_ok_tables(4), of d]
  by (force simp: catalogue_of_def tbl_cols_def)

lemma url_in_use:
  "(n, url) \<in> ct_urls (catalogue_of d) \<longleftrightarrow> (n, url) \<in> set (map source_key (tbl_cols (track_sources d)))"
  by (simp add: catalogue_of_def urls_of_def)

lemmas accept_simps = has_entry_of has_tag_of url_in_use

lemma add_tag_succeeds:
  assumes "ready E d"
  shows "succeeds (add_tag E name d) \<longleftrightarrow> (\<forall>k. ct_tags (catalogue_of d) k \<noteq> Some name)"
  using insert_works [OF assms readyD(7) [OF assms]] tag_in_use [OF readyD(3) [OF assms]] readyD(1) [OF assms]
  by (auto simp: add_tag_def insert_tag_row_def)

lemma edit_tag_succeeds:
  assumes "ready E d"
  shows "succeeds (edit_tag E n name d) \<longleftrightarrow>
    ct_tags (catalogue_of d) n = None \<or> (\<forall>k. k \<noteq> n \<longrightarrow> ct_tags (catalogue_of d) k \<noteq> Some name)"
proof -
  note ok = readyD(3) [OF assms]
  have dist: "distinct (map (\<lambda>c. c) (tbl_cols (tags d)))" using ok by (simp add: db_ok_def uniq_ok_def)
  have "succeeds (edit_tag E n name d)
      \<longleftrightarrow> distinct (tbl_cols (tbl_update (\<lambda>k c. k = n) (\<lambda>c. name) (tags d)))"
    using readyD(1) [OF assms] by (simp add: edit_tag_def update_tag_row_def Let_def)
  also have "\<dots> \<longleftrightarrow> (\<forall>c k c'. (n, c) \<in> set (tbl_rows (tags d)) \<longrightarrow> (k, c') \<in> set (tbl_rows (tags d))
      \<longrightarrow> k \<noteq> n \<longrightarrow> c' \<noteq> name)"
    using distinct_update_row [OF db_ok_tables(4) [OF ok] dist, of n "\<lambda>c. name"] by simp
  finally show ?thesis
    using tmap_Some_iff [OF db_ok_tables(4) [OF ok]]
    by (auto simp: catalogue_of_def) (metis not_Some_eq)
qed

lemma add_listen_succeeds:
  assumes "ready E d"
  shows "succeeds (add_listen E n from to d) \<longleftrightarrow>
    is_time from \<and> is_time to \<and> has_entry (catalogue_of d) n"
  using insert_works [OF assms readyD(6) [OF assms]] readyD(1) [OF assms]
  by (auto simp: add_listen_def is_time_def insert_listen_row_def accept_simps split: sum.split)

lemma add_meta_succeeds:
  assumes "ready E d"
  shows "succeeds (add_meta E n key v d) \<longleftrightarrow> has_entry (catalogue_of d) n"
  using insert_works [OF assms readyD(9) [OF assms]] readyD(1) [OF assms]
  by (auto simp: add_meta_def insert_meta_row_def accept_simps)

lemma add_source_succeeds:
  assumes "ready E d"
  shows "succeeds (add_track_source E n url d) \<longleftrightarrow>
    has_entry (catalogue_of d) n \<and> (n, url) \<notin> ct_urls (catalogue_of d)"
  using insert_works [OF assms readyD(5) [OF assms]] readyD(1) [OF assms]
  by (auto simp: add_track_source_def insert_source_row_def accept_simps)

lemma edit_source_succeeds:
  assumes "ready E d"
  shows "succeeds (edit_track_source E n old new d) \<longleftrightarrow>
    has_entry (catalogue_of d) n \<and> (new = old \<or> (n, new) \<notin> ct_urls (catalogue_of d))"
proof -
  let ?d = "delete_source_row n old d"
  have d: "tbl_seq (track_sources ?d) = tbl_seq (track_sources d)" "has_track ?d n = has_track d n"
    by (simp_all add: delete_source_row_def)
  have "worked (insert_source_row E n new ?d) \<longleftrightarrow>
      has_track d n \<and> (n, new) \<notin> set (map source_key (tbl_cols (track_sources ?d)))"
    using insert_works [OF assms, of "track_sources ?d"] readyD(5) [OF assms] d
    by (auto simp: insert_source_row_def)
  also have "\<dots> \<longleftrightarrow> has_entry (catalogue_of d) n \<and> (n, new) \<notin> ct_urls (catalogue_of ?d)"
    by (simp add: has_entry_of url_in_use)
  also have "\<dots> \<longleftrightarrow> has_entry (catalogue_of d) n \<and> (new = old \<or> (n, new) \<notin> ct_urls (catalogue_of d))"
    by (auto simp: delete_source_row_abs)
  finally show ?thesis
    using readyD(1) [OF assms]
    by (cases "insert_source_row E n new ?d")
       (auto simp: edit_track_source_def edit_track_source_steps_def in_ctx_def no_rowid_def)
qed

lemma assign_tag_succeeds:
  assumes "ready E d"
  shows "succeeds (assign_tag E n g d) \<longleftrightarrow>
    has_entry (catalogue_of d) n \<and> ct_tags (catalogue_of d) g \<noteq> None"
proof -
  have "has_track d n \<and> has_tag d g" if "(n, g) \<in> set (map assignment_key (tbl_cols (tag_assignments d)))"
    using readyD(3) [OF assms] that by (auto simp: db_ok_def refs_ok_def)
  then show ?thesis
    using insert_works [OF assms readyD(8) [OF assms]] readyD(1) [OF assms]
    by (auto simp: assign_tag_def insert_assignment_row_def accept_simps)
qed

lemma fetch_works: "worked (fetch_track n d) \<longleftrightarrow> has_track d n"
proof -
  have "filter (\<lambda>(k, c). k = n) rs = [] \<longleftrightarrow> n \<notin> set (map fst rs)" for rs :: "(int \<times> track_info_cols) list"
    by (induction rs) auto
  from this [of "tbl_rows (track_info d)"]
  have "tbl_select (\<lambda>k c. k = n) (track_info d) = [] \<longleftrightarrow> \<not> has_track d n"
    unfolding tbl_select_def tbl_ids_def .
  then show ?thesis
    by (cases "tbl_select (\<lambda>k c. k = n) (track_info d)") (simp_all add: fetch_track_def)
qed

lemma get_track_succeeds:
  "ready E d \<Longrightarrow> succeeds (get_track E n d) \<longleftrightarrow> has_entry (catalogue_of d) n"
  using readyD(1) [of E d] by (simp add: get_track_def fetch_works has_entry_of)

lemma delete_track_succeeds:
  assumes "ready E d"
  shows "succeeds (delete_track E n d) \<longleftrightarrow> has_entry (catalogue_of d) n"
  using insert_works [OF assms readyD(11) [OF assms]] readyD(1) [OF assms] fetch_works [of n d]
  by (cases "fetch_track n d")
     (auto simp: delete_track_def delete_track_unlogged_def insert_removed_row_def no_rowid_def accept_simps)

lemma listened_succeeds:
  assumes "ready E d"
  shows "succeeds (add_listened_seconds E day n secs d) \<longleftrightarrow> has_entry (catalogue_of d) n"
proof -
  let ?d = "bump_listened n secs d"
  have b: "listened_daily ?d = listened_daily d" "has_track ?d n = has_track d n"
    by (simp_all add: bump_listened_def)
  have "has_track d n" if "(day, n) \<in> set (map daily_key (tbl_cols (listened_daily d)))"
    using readyD(3) [OF assms] that by (auto simp: db_ok_def refs_ok_def)
  then have "worked (upsert_daily_row E day n secs ?d) \<longleftrightarrow> has_track d n"
    using insert_works [OF assms readyD(10) [OF assms]] b
    by (auto simp: upsert_daily_row_def)
  then show ?thesis
    using readyD(1) [OF assms]
    by (cases "upsert_daily_row E day n secs ?d")
       (auto simp: add_listened_seconds_def has_entry_of add_listened_seconds_steps_def in_ctx_def)
qed

lemma distinct_row_of_name:
  assumes "db_ok d" and "named (catalogue_of d) a b k" and "named (catalogue_of d) a b n"
  shows "k = n"
proof -
  have "distinct (map track_key (map snd (tbl_rows (track_info d))))"
    using assms(1) by (simp add: db_ok_def uniq_ok_def tbl_cols_def)
  moreover have "distinct (map fst (tbl_rows (track_info d)))"
    using tbl_ok_distinct [OF db_ok_tables(1) [OF assms(1)]] by (simp add: tbl_ids_def)
  ultimately have all: "\<forall>r \<in> set (tbl_rows (track_info d)). \<forall>r' \<in> set (tbl_rows (track_info d)).
      fst r \<noteq> fst r' \<longrightarrow> track_key (snd r) \<noteq> track_key (snd r')"
    by (simp only: distinct_values)
  obtain c c' where rows: "(k, c) \<in> set (tbl_rows (track_info d))" "(n, c') \<in> set (tbl_rows (track_info d))"
    and "track_key c = (a, b)" "track_key c' = (a, b)"
    using assms(2,3) unfolding named_of [OF assms(1)] by blast
  then show ?thesis using bspec [OF bspec [OF all rows(1)] rows(2)] by auto
qed

lemma update_row_works:
  assumes "db_ok d"
  shows "worked (update_track_row u n d) \<longleftrightarrow>
   (\<forall>e. ct_entries (catalogue_of d) n = Some e \<longrightarrow>
      (\<forall>k. k \<noteq> n \<longrightarrow> \<not> named (catalogue_of d) (en_artist (amend u e)) (en_name (amend u e)) k))"
proof -
  have dist: "distinct (map track_key (tbl_cols (track_info d)))"
    using assms by (simp add: db_ok_def uniq_ok_def)
  have key: "track_key (apply_update u c) = (en_artist (amend u (entry_of c)), en_name (amend u (entry_of c)))"
    for c by (simp add: apply_update_def amend_def entry_of_def given_def)
  have "worked (update_track_row u n d) \<longleftrightarrow>
      distinct (map track_key (tbl_cols (tbl_update (\<lambda>k c. k = n) (apply_update u) (track_info d))))"
    by (simp add: update_track_row_def Let_def)
  also have "\<dots> \<longleftrightarrow> (\<forall>c. (n, c) \<in> set (tbl_rows (track_info d)) \<longrightarrow> (\<forall>k. k \<noteq> n \<longrightarrow>
      \<not> named (catalogue_of d) (en_artist (amend u (entry_of c))) (en_name (amend u (entry_of c))) k))"
    unfolding distinct_update_row [OF db_ok_tables(1) [OF assms] dist, of n "apply_update u"]
      named_of [OF assms] key by blast
  also have "\<dots> \<longleftrightarrow> (\<forall>e. ct_entries (catalogue_of d) n = Some e \<longrightarrow>
      (\<forall>k. k \<noteq> n \<longrightarrow> \<not> named (catalogue_of d) (en_artist (amend u e)) (en_name (amend u e)) k))"
    using tmap_Some_iff [OF db_ok_tables(1) [OF assms], of n] by (auto simp: catalogue_of_def)
  finally show ?thesis .
qed

lemma update_track_succeeds:
  assumes "ready E d"
  shows "succeeds (update_track E n u d) \<longleftrightarrow>
   (\<forall>e. ct_entries (catalogue_of d) n = Some e \<longrightarrow>
      (\<forall>k. k \<noteq> n \<longrightarrow> \<not> named (catalogue_of d) (en_artist (amend u e)) (en_name (amend u e)) k))"
proof (cases "tu_artist u = None \<and> tu_track_name u = None \<and> tu_length_seconds u = None
    \<and> tu_bitrate_kbps u = None \<and> tu_tempo_bpm u = None \<and> tu_addition_time u = None")
  case True
  have "\<not> named (catalogue_of d) (en_artist e) (en_name e) k"
    if "ct_entries (catalogue_of d) n = Some e" "k \<noteq> n" for e k
    using distinct_row_of_name [OF readyD(3) [OF assms], of "en_artist e" "en_name e" k n] that
    by (auto simp: named_def)
  then show ?thesis using True by (simp add: update_track_def amend_def given_def)
next
  case False
  then have "update_track E n u d
      = logged E ''update_track'' (unit_result (exec E 0 (update_track_row u n d))) d"
    by (auto simp: update_track_def)
  then show ?thesis using readyD(1) [OF assms] update_row_works [OF readyD(3) [OF assms], of u n] by simp
qed

section \<open>Batches that succeed\<close>

text \<open>\<open>I xs s\<close> says what a loop over \<open>xs\<close> needs of the state it starts in.\<close>

lemma for_each_progress:
  assumes "\<And>i x xs s. I (x # xs) s \<Longrightarrow> \<exists>s'. f i x s = Inr s' \<and> I xs s'"
  shows "I xs s \<Longrightarrow> \<exists>s'. for_each f i xs s = Inr s' \<and> I [] s'"
proof (induction xs arbitrary: i s)
  case (Cons x xs)
  then obtain s' where "f i x s = Inr s'" "I xs s'" using assms by blast
  then show ?case using Cons.IH [of s' "Suc i"] by simp
qed simp

lemma for_each_all:
  "for_each f i xs s = Inr s' \<Longrightarrow> x \<in> set xs \<Longrightarrow> \<exists>j t t'. f j x t = Inr t'"
  by (induction xs arbitrary: i s) (auto simp: and_then_Inr_iff)

definition sources_fit :: "(int \<times> string) list \<Rightarrow> database \<Rightarrow> bool" where
  "sources_fit ps d \<longleftrightarrow> distinct ps \<and> (\<forall>p \<in> set ps. p \<notin> urls_of d \<and> has_track d (fst p))
     \<and> tbl_seq (track_sources d) + int (length ps) \<le> i64_max"

lemma insert_source_fits:
  assumes "no_gaps E" and "sources_fit (p # ps) d"
  shows "\<exists>k d'. insert_source_row E (fst p) (snd p) d = Inr (k, d') \<and> sources_fit ps d'"
proof -
  let ?tb = "\<lparr>tbl_rows = tbl_rows (track_sources d)
      @ [(tbl_seq (track_sources d) + 1, \<lparr>so_track_id = fst p, so_url = snd p\<rparr>)],
    tbl_seq = tbl_seq (track_sources d) + 1\<rparr>"
  have "tbl_seq (track_sources d) + 1 \<le> i64_max" using assms(2) by (simp add: sources_fit_def)
  note ins = insert_succeeds [OF assms(1) this]
  have "insert_source_row E (fst p) (snd p) d = Inr (tbl_seq (track_sources d) + 1, d\<lparr>track_sources := ?tb\<rparr>)"
    using assms(2) by (simp add: insert_source_row_def ins sources_fit_def urls_of_def)
  moreover have "urls_of (d\<lparr>track_sources := ?tb\<rparr>) = insert p (urls_of d)"
    by (simp add: urls_of_def tbl_cols_def)
  then have "sources_fit ps (d\<lparr>track_sources := ?tb\<rparr>)" using assms(2) by (auto simp: sources_fit_def)
  ultimately show ?thesis by blast
qed

lemma source_rows_fit:
  assumes "no_gaps E" and "sources_fit (ps @ qs) d"
  shows "\<exists>d'. insert_source_rows E ps d = Inr d' \<and> sources_fit qs d'"
proof -
  have "\<exists>d'. insert_source_rows E ps d = Inr d' \<and> sources_fit ([] @ qs) d'"
    unfolding insert_source_rows_def
    by (rule for_each_progress [of "\<lambda>ps. sources_fit (ps @ qs)"])
       (use assms insert_source_fits [OF assms(1)] in \<open>fastforce simp: no_rowid_def split: prod.split\<close>)+
  then show ?thesis by simp
qed

lemma source_batches_fit:
  assumes "no_gaps E" and "no_faults E" and "sources_fit (concat cs) d"
  shows "\<exists>d'. for_each (\<lambda>i chunk s. in_ctx ctx (exec E i (insert_source_rows E chunk s))) i cs d = Inr d'"
  using for_each_progress [of "\<lambda>cs. sources_fit (concat cs)"
      "\<lambda>i chunk s. in_ctx ctx (exec E i (insert_source_rows E chunk s))", OF _ assms(3)]
    source_rows_fit [OF assms(1)] assms(2) by fastforce

lemma urls_fit:
  assumes "no_gaps E" and "no_faults E" and "sources_fit (map (Pair tid) urls) d"
  shows "\<exists>d'. for_each (\<lambda>i url s. exec E i (no_rowid (insert_source_row E tid url s))) i urls d = Inr d'"
proof -
  have "\<exists>s'. exec E i (no_rowid (insert_source_row E tid url s)) = Inr s' \<and> sources_fit (map (Pair tid) us) s'"
    if "sources_fit (map (Pair tid) (url # us)) s" for i url us s
    using insert_source_fits [OF assms(1), of "(tid, url)" "map (Pair tid) us" s] that assms(2)
    by (auto simp: no_rowid_def)
  then have "\<exists>s'. for_each (\<lambda>i url s. exec E i (no_rowid (insert_source_row E tid url s))) i urls d = Inr s'
      \<and> sources_fit (map (Pair tid) []) s'"
    by (rule for_each_progress [where I = "\<lambda>us. sources_fit (map (Pair tid) us)", OF _ assms(3)])
  then show ?thesis by blast
qed

abbreviation new_name :: "NewTrack \<Rightarrow> string \<times> string" where
  "new_name t \<equiv> (nt_artist t, nt_track_name t)"

definition tracks_fit :: "NewTrack list \<Rightarrow> database \<Rightarrow> bool" where
  "tracks_fit ts d \<longleftrightarrow> (\<forall>t \<in> set ts. nt_length_seconds t \<noteq> None
       \<and> new_name t \<notin> set (map track_key (tbl_cols (track_info d))))
     \<and> distinct (map new_name ts) \<and> tbl_seq (track_info d) + int (length ts) \<le> i64_max"

lemma distinct_map_Cons: "distinct (map g (x # xs)) \<Longrightarrow> \<forall>y \<in> set xs. g y \<noteq> g x"
  by (metis distinct.simps(2) image_eqI list.set_map list.simps(9))

lemma insert_track_fits:
  assumes "no_gaps E" and "tracks_fit (t # ts) d"
  shows "\<exists>d'. insert_track_row E t d = Inr (tbl_seq (track_info d) + 1, d') \<and> tracks_fit ts d'"
proof -
  obtain len where len: "nt_length_seconds t = Some len" using assms(2) by (auto simp: tracks_fit_def)
  let ?tb = "\<lparr>tbl_rows = tbl_rows (track_info d) @ [(tbl_seq (track_info d) + 1, new_track_cols t len)],
    tbl_seq = tbl_seq (track_info d) + 1\<rparr>"
  have "tbl_seq (track_info d) + 1 \<le> i64_max" using assms(2) by (simp add: tracks_fit_def)
  note ins = insert_succeeds [OF assms(1) this]
  have row: "insert_track_row E t d = Inr (tbl_seq (track_info d) + 1, d\<lparr>track_info := ?tb\<rparr>)"
    using assms(2) len by (simp add: insert_track_row_def ins tracks_fit_def)
  have "map track_key (tbl_cols ?tb) = map track_key (tbl_cols (track_info d)) @ [new_name t]"
    by (simp add: tbl_cols_def new_track_cols_def)
  moreover have "\<forall>u \<in> set ts. new_name u \<noteq> new_name t"
    using assms(2) by (intro distinct_map_Cons) (simp add: tracks_fit_def)
  ultimately have "tracks_fit ts (d\<lparr>track_info := ?tb\<rparr>)" using assms(2) by (auto simp: tracks_fit_def)
  then show ?thesis using row by blast
qed

lemma track_rows_fit:
  assumes "no_gaps E" and "tracks_fit (ts @ us) d"
  shows "\<exists>k d'. insert_track_rows E ts d = Inr (k, d') \<and> tracks_fit us d'"
proof -
  have "\<exists>s'. for_each (\<lambda>i t (last, s). insert_track_row E t s) 0 ts (0, d) = Inr s' \<and> tracks_fit ([] @ us) (snd s')"
    by (rule for_each_progress [of "\<lambda>ts s. tracks_fit (ts @ us) (snd s)"])
       (use assms(2) insert_track_fits [OF assms(1)] in \<open>fastforce split: prod.split\<close>)+
  then show ?thesis by (simp add: insert_track_rows_def)
qed

lemma track_batches_fit:
  assumes "no_gaps E" and "no_faults E" and "tracks_fit (concat cs) d"
  shows "\<exists>ids d'. for_each (add_tracks_batch E) i cs ([], d) = Inr (ids, d')"
proof -
  have "\<exists>s'. add_tracks_batch E i c s = Inr s' \<and> tracks_fit (concat cs) (snd s')"
    if "tracks_fit (concat (c # cs)) (snd s)" for i c cs s
  proof -
    obtain k d' where "insert_track_rows E c (snd s) = Inr (k, d')" "tracks_fit (concat cs) d'"
      using track_rows_fit [OF assms(1), of c "concat cs" "snd s"] \<open>tracks_fit (concat (c # cs)) (snd s)\<close> by auto
    then show ?thesis using assms(2) by (simp add: add_tracks_batch_def in_ctx_def)
  qed
  note step = this
  have start: "tracks_fit (concat cs) (snd ([] :: int list, d))" using assms(3) by simp
  have "\<exists>s'. for_each (add_tracks_batch E) i cs ([], d) = Inr s' \<and> tracks_fit (concat []) (snd s')"
    by (rule for_each_progress [where I = "\<lambda>cs s. tracks_fit (concat cs) (snd s)", OF step start])
  then show ?thesis by auto
qed

lemma admits_trackD:
  assumes "db_ok d" and "admits_track (catalogue_of d) t"
  shows "nt_length_seconds t \<noteq> None" and "new_name t \<notin> set (map track_key (tbl_cols (track_info d)))"
    and "distinct (nt_sources t)"
  using assms(2) some_named_of [OF assms(1), of "nt_artist t" "nt_track_name t"]
  by (auto simp: admits_track_def)

lemma admits_trackI:
  assumes "db_ok d" and "nt_length_seconds t \<noteq> None"
    and "new_name t \<notin> set (map track_key (tbl_cols (track_info d)))" and "distinct (nt_sources t)"
  shows "admits_track (catalogue_of d) t"
  using assms(2-4) some_named_of [OF assms(1), of "nt_artist t" "nt_track_name t"]
  by (auto simp: admits_track_def)

lemma appended_distinct:
  assumes "appends_sources ps d d'" and "db_ok d'"
  shows "distinct ps"
proof -
  obtain tb rs where "d' = d\<lparr>track_sources := tb\<rparr>" "tbl_rows tb = tbl_rows (track_sources d) @ rs"
    "ps = map source_key (map snd rs)"
    using assms(1) by (auto simp: appends_sources_def case_prod_unfold)
  then show ?thesis using assms(2) by (simp add: db_ok_def uniq_ok_def tbl_cols_def)
qed

text \<open>The sources of tracks that have just been inserted fit.\<close>

lemma new_sources_fit:
  assumes "refs_ok d" and "\<And>p. p \<in> set ps \<Longrightarrow> \<not> has_track d (fst p) \<and> has_track d' (fst p)"
    and "distinct ps" and "track_sources d' = track_sources d"
    and "tbl_seq (track_sources d) + int (length ps) \<le> i64_max"
  shows "sources_fit ps d'"
proof -
  have "p \<notin> urls_of d" if "p \<in> set ps" for p
    using assms(1) assms(2) [OF that] by (auto simp: urls_of_def refs_ok_def)
  then show ?thesis using assms(2-5) by (auto simp: sources_fit_def urls_of_def)
qed

lemma add_track_succeeds:
  assumes E: "good_engine E" and ok: "db_ok d" and room: "has_room (Suc (length (nt_sources t))) d"
  shows "succeeds (add_track E t d) \<longleftrightarrow> nt_sources t \<noteq> [] \<and> admits_track (catalogue_of d) t"
proof (cases "nt_sources t")
  case (Cons url urls)
  have run: "succeeds (add_track E t d) \<longleftrightarrow> worked (add_track_unlogged E t d)"
    using Cons by (simp add: add_track_def)
  have refs: "refs_ok d" using ok by (simp add: db_ok_def)
  show ?thesis
  proof
    assume "succeeds (add_track E t d)"
    then obtain k d' where op: "add_track_unlogged E t d = Inr (k, d')" using run by (auto simp: worked_iff)
    then obtain d1 where 1: "insert_track_row E t d = Inr (k, d1)"
      and 2: "for_each (\<lambda>i url s. exec E i (no_rowid (insert_source_row E k url s))) 2 (nt_sources t) d1 = Inr d'"
      by (auto simp: add_track_unlogged_def inr_simps)
    have "distinct (map (Pair k) (nt_sources t))"
      using appended_distinct [OF insert_urls_appends [OF 2]] add_track_unlogged_ok [OF ok op] by simp
    then have "distinct (nt_sources t)" by (simp add: distinct_map)
    then have "admits_track (catalogue_of d) t"
      using 1 by (intro admits_trackI [OF ok]) (auto simp: insert_track_row_def split: option.splits if_splits)
    then show "nt_sources t \<noteq> [] \<and> admits_track (catalogue_of d) t" using Cons by simp
  next
    assume adm: "nt_sources t \<noteq> [] \<and> admits_track (catalogue_of d) t"
    let ?k = "tbl_seq (track_info d) + 1"
    have "tracks_fit [t] d" using adm admits_trackD [OF ok, of t] room by (auto simp: tracks_fit_def has_room_def)
    then obtain d1 where 1: "insert_track_row E t d = Inr (?k, d1)"
      using insert_track_fits [OF good_engineD(2) [OF E]] by blast
    obtain tb where tb: "d1 = d\<lparr>track_info := tb\<rparr>" "tbl_rows tb = tbl_rows (track_info d) @ [(?k, cols_of t)]"
      using insert_track_row_rows [OF 1] by (auto simp: cols_of_def)
    have "\<not> has_track d ?k" using ok by (force simp: db_ok_def tables_ok_def tbl_ok_def)
    moreover have "has_track d1 ?k" using tb by (simp add: tbl_ids_def)
    ultimately have "sources_fit (map (Pair ?k) (nt_sources t)) d1"
      using adm room tb(1) refs
      by (intro new_sources_fit [OF refs]) (auto simp: admits_track_def distinct_map inj_on_def has_room_def)
    from urls_fit [OF good_engineD(2) [OF E] good_engineD(1) [OF E] this, of 2]
    show "succeeds (add_track E t d)"
      using 1 run good_engineD(1) [OF E] by (auto simp: add_track_unlogged_def)
  qed
qed (simp add: add_track_def)

lemma all_sources_distinct:
  assumes "length ids = length ts" and "distinct ids"
  shows "distinct (all_sources ts ids) \<longleftrightarrow> (\<forall>t \<in> set ts. distinct (nt_sources t))"
  using assms
proof (induction ids ts rule: list_induct2)
  case (Cons k ids t ts)
  have "fst ` set (all_sources ts ids) \<subseteq> set ids"
    by (force simp: all_sources_def dest: set_zip_rightD)
  then have "Pair k ` set (nt_sources t) \<inter> set (all_sources ts ids) = {}" using Cons.prems by force
  then show ?case using Cons by (simp add: all_sources_def distinct_map inj_on_def)
qed (simp add: all_sources_def)

lemma all_sources_length:
  "length ids = length ts \<Longrightarrow> length (all_sources ts ids) = length (concat (map nt_sources ts))"
  by (induction ids ts rule: list_induct2) (simp_all add: all_sources_def)

lemma all_sources_ids: "p \<in> set (all_sources ts ids) \<Longrightarrow> fst p \<in> set ids"
  by (force simp: all_sources_def dest: set_zip_rightD)

lemma next_ids_distinct: "distinct (next_ids s n)"
  by (simp add: next_ids_def distinct_map inj_on_def)

lemma next_ids_new: "db_ok d \<Longrightarrow> k \<in> set (next_ids (tbl_seq (track_info d)) n) \<Longrightarrow> \<not> has_track d k"
  by (force simp: next_ids_def db_ok_def tables_ok_def tbl_ok_def)

lemma batches_positive: "0 < tracks_batch_size" "0 < pairs_batch_size"
  by (simp_all add: tracks_batch_size_def pairs_batch_size_def sqlite_limit_variable_number_def)

lemma appended_tracks:
  assumes "appends_tracks ts d d1"
  shows "track_sources d1 = track_sources d"
    and "map track_key (tbl_cols (track_info d1)) = map track_key (tbl_cols (track_info d)) @ map new_name ts"
    and "set (tbl_ids (track_info d1))
      = set (tbl_ids (track_info d)) \<union> set (next_ids (tbl_seq (track_info d)) (length ts))"
proof -
  obtain tb where tb: "d1 = d\<lparr>track_info := tb\<rparr>"
    "tbl_rows tb = tbl_rows (track_info d) @ zip (next_ids (tbl_seq (track_info d)) (length ts)) (map cols_of ts)"
    using assms by (auto simp: appends_tracks_def)
  show "track_sources d1 = track_sources d" using tb(1) by simp
  show "map track_key (tbl_cols (track_info d1)) = map track_key (tbl_cols (track_info d)) @ map new_name ts"
    using tb by (simp add: tbl_cols_def cols_of_def new_track_cols_def)
  show "set (tbl_ids (track_info d1))
      = set (tbl_ids (track_info d)) \<union> set (next_ids (tbl_seq (track_info d)) (length ts))"
    using tb by (simp add: tbl_ids_def)
qed

lemma add_tracks_lengths:
  assumes "add_tracks E ts d = (Ok ids, d')" and "t \<in> set ts"
  shows "nt_length_seconds t \<noteq> None"
proof -
  obtain s where loop: "for_each (add_tracks_batch E) 1 (chunks tracks_batch_size ts) ([], d) = Inr s"
    using assms(1) by (auto simp: add_tracks_def logged_steps_Ok_iff add_tracks_steps_def Let_def inr_simps)
  have "concat (chunks tracks_batch_size ts) = ts" by (rule concat_chunks [OF batches_positive(1)])
  then obtain c where c: "c \<in> set (chunks tracks_batch_size ts)" "t \<in> set c"
    using assms(2) by (metis in_set_conv_nth set_concat UN_E)
  obtain j u u' where "add_tracks_batch E j c u = Inr u'" using for_each_all [OF loop c(1)] by blast
  then obtain v where "for_each (\<lambda>i t (last, s). insert_track_row E t s) 0 c (0, snd u) = Inr v"
    by (auto simp: add_tracks_batch_def inr_simps insert_track_rows_def split: prod.splits)
  then obtain w w' where "insert_track_row E t w = Inr w'"
    using for_each_all [OF _ c(2)] by (metis (no_types, lifting) case_prod_unfold)
  then show ?thesis by (auto simp: insert_track_row_def split: option.splits)
qed

lemma add_tracks_succeeds:
  assumes E: "good_engine E" and ok: "db_ok d"
    and room: "has_room (length ts + length (concat (map nt_sources ts))) d"
  shows "succeeds (add_tracks E ts d) \<longleftrightarrow>
    (\<forall>t \<in> set ts. admits_track (catalogue_of d) t) \<and> distinct (map new_name ts)"
proof
  let ?ids = "next_ids (tbl_seq (track_info d)) (length ts)"
  assume "succeeds (add_tracks E ts d)"
  then obtain ids d' where op: "add_tracks E ts d = (Ok ids, d')"
    by (cases "add_tracks E ts d") (auto simp: succeeds_def)
  obtain d1 where d1: "appends_tracks ts d d1" "appends_sources (all_sources ts ids) d1 d'"
    and ids: "ids = ?ids" using add_tracks_effect [OF good_engineD(2) [OF E] op] by blast
  have ok': "db_ok d'" using safe_opD [OF add_tracks_safe ok, of E ts] op by simp
  have "\<forall>t \<in> set ts. distinct (nt_sources t)"
    using appended_distinct [OF d1(2) ok'] all_sources_distinct [of ids ts] ids next_ids_distinct by simp
  moreover have "distinct (map track_key (tbl_cols (track_info d1)))"
    using ok' appends_sources_frame [OF d1(2)] by (simp add: db_ok_def uniq_ok_def)
  then have names: "distinct (map new_name ts)"
    "\<forall>t \<in> set ts. new_name t \<notin> set (map track_key (tbl_cols (track_info d)))"
    unfolding appended_tracks(2) [OF d1(1)] by auto
  ultimately show "(\<forall>t \<in> set ts. admits_track (catalogue_of d) t) \<and> distinct (map new_name ts)"
    using add_tracks_lengths [OF op] by (intro conjI ballI admits_trackI [OF ok]) auto
next
  let ?tcs = "chunks tracks_batch_size ts"
  have refs: "refs_ok d" using ok by (simp add: db_ok_def)
  have tcs: "concat ?tcs = ts" by (rule concat_chunks [OF batches_positive(1)])
  have nonempty: "\<forall>c \<in> set ?tcs. c \<noteq> []" using chunks_length by fastforce
  assume adm: "(\<forall>t \<in> set ts. admits_track (catalogue_of d) t) \<and> distinct (map new_name ts)"
  then have "tracks_fit (concat ?tcs) d"
    unfolding tcs using admits_trackD(1,2) [OF ok] room by (auto simp: tracks_fit_def has_room_def)
  from track_batches_fit [OF good_engineD(2) [OF E] good_engineD(1) [OF E] this, of 1]
  obtain ids d1 where loop: "for_each (add_tracks_batch E) 1 ?tcs ([], d) = Inr (ids, d1)" by blast
  from add_tracks_batches [OF good_engineD(2) [OF E] nonempty loop] tcs
  have d1: "appends_tracks ts d d1" and ids: "ids = next_ids (tbl_seq (track_info d)) (length ts)" by simp_all
  let ?scs = "chunks pairs_batch_size (all_sources ts ids)"
  have scs: "concat ?scs = all_sources ts ids" by (rule concat_chunks [OF batches_positive(2)])
  have "sources_fit (concat ?scs) d1"
  proof (unfold scs, rule new_sources_fit [OF refs])
    show "\<not> has_track d (fst p) \<and> has_track d1 (fst p)" if "p \<in> set (all_sources ts ids)" for p
      using all_sources_ids [OF that] next_ids_new [OF ok] appended_tracks(3) [OF d1] ids by auto
    show "distinct (all_sources ts ids)"
      using all_sources_distinct [of ids ts] ids next_ids_distinct adm by (simp add: admits_track_def)
    show "track_sources d1 = track_sources d" by (rule appended_tracks(1) [OF d1])
    show "tbl_seq (track_sources d) + int (length (all_sources ts ids)) \<le> i64_max"
      using room all_sources_length [of ids ts] ids by (simp add: has_room_def)
  qed
  from source_batches_fit [OF good_engineD(2) [OF E] good_engineD(1) [OF E] this]
  obtain d2 where "for_each (\<lambda>i chunk s. in_ctx ''add_tracks: insert track_sources batch''
      (exec E i (insert_source_rows E chunk s))) (1 + length ?tcs) ?scs d1 = Inr d2" by blast
  then show "succeeds (add_tracks E ts d)"
    using loop good_engineD(1) [OF E] by (simp add: add_tracks_def add_tracks_steps_def Let_def in_ctx_def)
qed

section \<open>Assignments that succeed\<close>

definition pairs_fit :: "(int \<times> int) list \<Rightarrow> database \<Rightarrow> bool" where
  "pairs_fit ps d \<longleftrightarrow> (\<forall>p \<in> set ps. has_track d (fst p) \<and> has_tag d (snd p))
     \<and> tbl_seq (tag_assignments d) + int (length ps) \<le> i64_max"

lemma insert_assignment_fits:
  assumes "no_gaps E" and "pairs_fit (p # ps) d"
  shows "\<exists>d'. insert_assignment_row E p d = Inr d' \<and> pairs_fit ps d'"
proof (cases "p \<in> set (map assignment_key (tbl_cols (tag_assignments d)))")
  case True
  then show ?thesis using assms(2) by (auto simp: insert_assignment_row_def pairs_fit_def)
next
  case False
  have "tbl_seq (tag_assignments d) + 1 \<le> i64_max" using assms(2) by (simp add: pairs_fit_def)
  note ins = insert_succeeds [OF assms(1) this]
  show ?thesis using False assms(2) by (auto simp: insert_assignment_row_def ins pairs_fit_def)
qed

lemma assignment_rows_fit:
  assumes "no_gaps E" and "pairs_fit (ps @ qs) d"
  shows "\<exists>d'. insert_assignment_rows E ps d = Inr d' \<and> pairs_fit qs d'"
proof -
  have "\<exists>d'. insert_assignment_rows E ps d = Inr d' \<and> pairs_fit ([] @ qs) d'"
    unfolding insert_assignment_rows_def
    by (rule for_each_progress [of "\<lambda>ps. pairs_fit (ps @ qs)"])
       (use assms insert_assignment_fits [OF assms(1)] in auto)
  then show ?thesis by simp
qed

lemma all_pairs_valid: "(\<exists>ps. all_pairs as = Ok ps) \<longleftrightarrow>
   (\<forall>a \<in> set as. valid (ta_track_id a) \<and> (\<forall>b \<in> set (ta_tag_ids a). valid b))"
proof -
  have one: "valid b \<longleftrightarrow> (\<exists>n. to_i64 b = (Ok n :: (sqlx_error, int) rust))" for b
    by (auto simp: valid_def to_i64_def split: sum.splits)
  have all: "(\<exists>ns. to_i64_all bs = (Ok ns :: (sqlx_error, int list) rust)) \<longleftrightarrow> (\<forall>b \<in> set bs. valid b)" for bs
    by (induction bs) (auto simp: one map_ok_iff split: rust.split)
  show ?thesis
  proof (induction as)
    case (Cons a as)
    have "(\<exists>ps. all_pairs (a # as) = Ok ps) \<longleftrightarrow> (\<exists>n. to_i64 (ta_track_id a) = (Ok n :: (sqlx_error, int) rust))
        \<and> (\<exists>ns. to_i64_all (ta_tag_ids a) = (Ok ns :: (sqlx_error, int list) rust)) \<and> (\<exists>ps. all_pairs as = Ok ps)"
      by (auto simp: map_ok_iff split: rust.split)
    then show ?case unfolding one [symmetric] all Cons.IH by auto
  qed simp
qed

lemma all_pairs_length: "all_pairs as = Ok ps \<Longrightarrow> length ps = length (concat (map ta_tag_ids as))"
  by (induction as arbitrary: ps) (auto simp: map_ok_iff dest!: to_i64_all_length split: rust.splits)

lemma assign_tags_succeeds:
  assumes E: "good_engine E" and ok: "db_ok d" and room: "has_room (length (concat (map ta_tag_ids as))) d"
  shows "succeeds (assign_tags E as d) \<longleftrightarrow>
    (\<forall>a \<in> set as. valid (ta_track_id a) \<and> (\<forall>b \<in> set (ta_tag_ids a). valid b
       \<and> has_entry (catalogue_of d) (id_of (ta_track_id a)) \<and> ct_tags (catalogue_of d) (id_of b) \<noteq> None))"
proof (cases "\<exists>ps. all_pairs as = Ok ps")
  case False
  then have "\<not> succeeds (assign_tags E as d)"
    using good_engineD(1) [OF E] by (cases "all_pairs as") (simp_all add: assign_tags_def)
  then show ?thesis using False unfolding all_pairs_valid by blast
next
  case True
  then obtain ps where ps: "all_pairs as = Ok ps" by blast
  note valid = True [unfolded all_pairs_valid]
  have run: "succeeds (assign_tags E as d) \<longleftrightarrow> worked (insert_assignment_rows E ps d)"
    using good_engineD(1) [OF E] ps by (simp add: assign_tags_def assign_pairs_one_loop)
  have "worked (insert_assignment_rows E ps d) \<longleftrightarrow> (\<forall>p \<in> set ps. has_track d (fst p) \<and> has_tag d (snd p))"
  proof
    assume "worked (insert_assignment_rows E ps d)"
    then obtain d' where op: "insert_assignment_rows E ps d = Inr d'" by (auto simp: worked_iff)
    then obtain tb where new: "assigned d' = assigned d \<union> set ps" and d': "d' = d\<lparr>tag_assignments := tb\<rparr>"
      using insert_assignment_rows_effect by blast
    have refs: "refs_ok d'" using insert_assignment_rows_ok [OF ok op] by (simp add: db_ok_def)
    show "\<forall>p \<in> set ps. has_track d (fst p) \<and> has_tag d (snd p)"
    proof
      fix p assume "p \<in> set ps"
      then have "p \<in> assignment_key ` set (tbl_cols (tag_assignments d'))"
        using new unfolding assigned_def set_map by blast
      then obtain c where "c \<in> set (tbl_cols (tag_assignments d'))" "assignment_key c = p" by (rule imageE) simp
      then have "has_track d' (fst p) \<and> has_tag d' (snd p)" using refs by (auto simp: refs_ok_def)
      then show "has_track d (fst p) \<and> has_tag d (snd p)" using d' by simp
    qed
  next
    assume "\<forall>p \<in> set ps. has_track d (fst p) \<and> has_tag d (snd p)"
    then have "pairs_fit (ps @ []) d"
      using room all_pairs_length [OF ps] by (simp add: pairs_fit_def has_room_def)
    then show "worked (insert_assignment_rows E ps d)"
      using assignment_rows_fit [OF good_engineD(2) [OF E]] by fastforce
  qed
  also have "\<dots> \<longleftrightarrow> (\<forall>a \<in> set as. \<forall>b \<in> set (ta_tag_ids a).
      has_entry (catalogue_of d) (id_of (ta_track_id a)) \<and> ct_tags (catalogue_of d) (id_of b) \<noteq> None)"
    unfolding all_pairs_ids [OF ps] has_entry_of has_tag_of by auto
  finally show ?thesis using run valid by auto
qed

section \<open>Commands that succeed\<close>

lemma succeeds_to_val: "(\<exists>v. to_val E j r = Ok v) \<longleftrightarrow> (\<exists>v. r = Ok v)"
  by (cases r) (simp_all add: to_val_def)

lemma succeeds_on_repo [simp]: "succeeds (on_repo W j f s) \<longleftrightarrow> succeeds (f (ex_repo s))"
  by (cases "f (ex_repo s)") (simp add: succeeds_def on_repo_def succeeds_to_val)

lemma succeeds_with_id [simp]: "succeeds (with_id b k s) \<longleftrightarrow> valid b \<and> succeeds (k (id_of b) s)"
  by (cases "parse_i64 (id_text b)") (simp_all add: succeeds_def with_id_def valid_def id_of_def to_i64_def)

lemma always_succeeds:
  assumes "no_faults E"
  shows "succeeds (delete_tag E n d)" "succeeds (remove_tag E n g d)" "succeeds (update_meta E n v d)"
    "succeeds (delete_meta E n d)" "succeeds (remove_track_source E n url d)" "succeeds (get_all_tags E d)"
    "succeeds (get_tags E p d)" "succeeds (get_tags_for_track E n d)" "succeeds (get_listens_for_track E n d)"
    "succeeds (get_meta_for_track E n d)" "succeeds (get_sources_for_track E n d)"
  using assms
  by (simp_all add: delete_tag_def remove_tag_def update_meta_def delete_meta_def remove_track_source_def
      get_all_tags_def get_tags_def get_tags_for_track_def get_listens_for_track_def get_meta_for_track_def
      get_sources_for_track_def)

lemmas operation_succeeds = add_tag_succeeds edit_tag_succeeds add_listen_succeeds add_meta_succeeds
  add_source_succeeds edit_source_succeeds assign_tag_succeeds get_track_succeeds delete_track_succeeds
  listened_succeeds update_track_succeeds

lemma execute_succeeds:
  assumes "good_engine (wd_engine W)" and "db_ok (ex_repo s)" and "has_room (new_rows cmd) (ex_repo s)"
    and "decided cmd" and "cmd \<noteq> ResetDatabase"
  shows "succeeds (execute W cmd s) \<longleftrightarrow>
    admits W \<lparr>sh_catalogue = catalogue_of (ex_repo s), sh_guard = ex_guard s\<rparr> cmd"
proof -
  have one: "ready (wd_engine W) (ex_repo s)" if "new_rows cmd = 1"
    using assms(1-3) that by (simp add: ready_def)
  note always = always_succeeds [OF good_engineD(1) [OF assms(1)]]
  show ?thesis
  proof (cases cmd)
    case (AddTrack t)
    then show ?thesis using add_track_succeeds [OF assms(1,2)] assms(3) by simp
  next
    case (AddTracks ts)
    then show ?thesis using add_tracks_succeeds [OF assms(1,2)] assms(3) by simp
  next
    case (AssignTags as)
    then show ?thesis using assign_tags_succeeds [OF assms(1,2)] assms(3) by simp
  next
    case (AddListenedSeconds a)
    obtain r g where sr: "should_record (wd_now W) (as_seconds a) (ex_guard s) = (r :: (string, bool) rust, g)"
      by fastforce
    have "succeeds (with_id (as_track a) (\<lambda>n. on_repo W null_val
        (add_listened_seconds (wd_engine W) (wd_today W) n (as_seconds a))) (s\<lparr>ex_guard := g\<rparr>))
      \<longleftrightarrow> valid (as_track a) \<and> has_entry (catalogue_of (ex_repo s)) (id_of (as_track a))"
      using one AddListenedSeconds by (simp add: listened_succeeds)
    then show ?thesis using AddListenedSeconds sr by (simp split: rust.split bool.split)
  qed (use one assms(4,5) in \<open>simp_all add: operation_succeeds always\<close>)
qed

lemma dispatch_succeeds:
  assumes "good_engine (wd_engine W)" and "ac_repo c = Some d" and "db_ok d" and "has_room (new_rows cmd) d"
    and "decided cmd"
  shows "succeeds (dispatch_with_core W cmd c) \<longleftrightarrow> admits W (shelf_of c) cmd"
proof -
  let ?s = "\<lparr>ex_repo = d, ex_guard = ac_guard c, ex_script = ac_script c\<rparr>"
  have cmd: "cmd \<noteq> ResetDatabase" using assms(5) by auto
  have "succeeds (dispatch_with_core W cmd c) \<longleftrightarrow> succeeds (execute W cmd ?s)"
    using cmd assms(2) by (simp add: dispatch_with_core_def succeeds_def split: prod.split)
  also have "\<dots> \<longleftrightarrow> admits W (shelf_of c) cmd"
    using execute_succeeds [OF assms(1), of ?s cmd] assms cmd by (simp add: shelf_of_def)
  finally show ?thesis .
qed

end
