(* ===== verification/App_Sessions.thy ===== *)
theory App_Sessions
  imports Catalogue_Reads
begin

text \<open>
  Many clients on one core: \<^verbatim>\<open>dispatch_with_core\<close> of \<^verbatim>\<open>commands/dispatch.rs\<close> and \<^verbatim>\<open>reset_database\<close> of
  \<^verbatim>\<open>app_core.rs\<close> as the tasks of the WebSocket connections and of the Tauri window run them, in any
  interleaving. A command is one step, under the read lock. A reset has three: it falls asleep, it
  opens a file named by the clock, and it puts the new repository behind the lock; the commands of
  other clients come in between. The repositories are the files of the directory, so two that are
  opened under one name are one database.
\<close>

section \<open>The core and its tasks\<close>

datatype core_task = Ready | Asleep nat | Opened world string

text \<open>
  \<open>sc_made\<close> holds the times and names of the files resets have opened, \<open>sc_log\<close> the commands that have
  been answered, by whom they were sent; no step reads them.
\<close>

record shared_core =
  sc_files :: "string \<Rightarrow> database option"
  sc_repo :: string
  sc_guard :: ListenGuard
  sc_is_test :: bool
  sc_script :: "string option"
  sc_now :: nat
  sc_tasks :: "nat \<Rightarrow> core_task"
  sc_made :: "(nat \<times> string) list"
  sc_log :: "(nat \<times> (world \<times> Command) \<times> (string, json) rust) list"

definition core_of :: "shared_core \<Rightarrow> AppCore" where
  "core_of s =
     \<lparr>ac_repo = sc_files s (sc_repo s), ac_guard = sc_guard s, ac_is_test = sc_is_test s,
      ac_script = sc_script s\<rparr>"

definition shared_start :: "string \<Rightarrow> database \<Rightarrow> bool \<Rightarrow> shared_core" where
  "shared_start file d is_test =
     \<lparr>sc_files = [file \<mapsto> d], sc_repo = file, sc_guard = new_guard, sc_is_test = is_test,
      sc_script = None, sc_now = 0, sc_tasks = (\<lambda>k. Ready), sc_made = [], sc_log = []\<rparr>"

definition reset_sleep :: nat where "reset_sleep = 2 * 10 ^ 9"

definition answered_to ::
  "nat \<Rightarrow> world \<Rightarrow> Command \<Rightarrow> (string, json) rust \<Rightarrow> shared_core \<Rightarrow> shared_core" where
  "answered_to k W cmd r s =
     s\<lparr>sc_tasks := (sc_tasks s)(k := Ready), sc_log := sc_log s @ [(k, (W, cmd), r)]\<rparr>"

definition with_core :: "AppCore \<Rightarrow> shared_core \<Rightarrow> shared_core" where
  "with_core c s =
     s\<lparr>sc_files := (sc_files s)(sc_repo s := ac_repo c), sc_guard := ac_guard c, sc_script := ac_script c\<rparr>"

text \<open>A file that is there is opened with what it holds; one that is not is made and migrated.\<close>

definition open_file :: "string \<Rightarrow> database \<Rightarrow> shared_core \<Rightarrow> shared_core" where
  "open_file name d s =
     s\<lparr>sc_files := (sc_files s)(name := Some (case sc_files s name of Some d' \<Rightarrow> d' | None \<Rightarrow> d)),
       sc_made := sc_made s @ [(sc_now s, name)]\<rparr>"

text \<open>\<open>stamp\<close> is the local time in the format of the file name; times count nanoseconds.\<close>

inductive app_step :: "(nat \<Rightarrow> string) \<Rightarrow> shared_core \<Rightarrow> shared_core \<Rightarrow> bool"
  for stamp :: "nat \<Rightarrow> string" where
  time_passes: "app_step stamp s (s\<lparr>sc_now := sc_now s + n\<rparr>)"
| command: "sc_tasks s k = Ready \<Longrightarrow> cmd \<noteq> ResetDatabase \<Longrightarrow>
    dispatch_with_core W cmd (core_of s) = (r, c) \<Longrightarrow>
    app_step stamp s (answered_to k W cmd r (with_core c s))"
| reset_refused: "sc_tasks s k = Ready \<Longrightarrow> \<not> sc_is_test s \<Longrightarrow>
    app_step stamp s
      (answered_to k W ResetDatabase (Err ''reset_database is only allowed in test mode'') s)"
| reset_sleeps: "sc_tasks s k = Ready \<Longrightarrow> sc_is_test s \<Longrightarrow>
    app_step stamp s (s\<lparr>sc_tasks := (sc_tasks s)(k := Asleep (sc_now s + reset_sleep))\<rparr>)"
| reset_fails: "sc_tasks s k = Asleep t \<Longrightarrow> t \<le> sc_now s \<Longrightarrow> create_repo W = Inl e \<Longrightarrow>
    app_step stamp s (answered_to k W ResetDatabase (Err e) s)"
| reset_opens: "sc_tasks s k = Asleep t \<Longrightarrow> t \<le> sc_now s \<Longrightarrow> create_repo W = Inr d \<Longrightarrow>
    name = stamp (sc_now s) @ ''_vampa.db'' \<Longrightarrow>
    app_step stamp s
      (open_file name d (s\<lparr>sc_tasks := (sc_tasks s)(k := Opened W name)\<rparr>))"
| reset_swaps: "sc_tasks s k = Opened W name \<Longrightarrow>
    app_step stamp s (answered_to k W ResetDatabase (Ok JNull) (s\<lparr>sc_repo := name\<rparr>))"

section \<open>One client at a time\<close>

lemma run_commands_snoc:
  "run_commands qs c = (rs, c1) \<Longrightarrow> dispatch_with_core W cmd c1 = (r, c2) \<Longrightarrow>
     run_commands (qs @ [(W, cmd)]) c = (rs @ [r], c2)"
  by (induction qs arbitrary: c rs) (auto split: prod.splits)

text \<open>
  While no name is used twice, a file that a reset has opened is its own and still empty.
\<close>

definition own_files :: "string \<Rightarrow> shared_core \<Rightarrow> bool" where
  "own_files file s \<longleftrightarrow>
     sc_files s (sc_repo s) \<noteq> None
   \<and> (\<forall>name. sc_files s name \<noteq> None \<longrightarrow> name \<in> set (file # map snd (sc_made s)))
   \<and> (\<forall>k t. sc_tasks s k = Asleep t \<longrightarrow> sc_is_test s)
   \<and> (\<forall>k W name. sc_tasks s k = Opened W name \<longrightarrow>
        sc_is_test s \<and> name \<noteq> sc_repo s \<and> sc_files s name = Some empty_db \<and> create_repo W = Inr empty_db)
   \<and> (\<forall>k k' W W' name. sc_tasks s k = Opened W name \<longrightarrow> sc_tasks s k' = Opened W' name \<longrightarrow> k = k')"

definition sequential :: "AppCore \<Rightarrow> shared_core \<Rightarrow> bool" where
  "sequential c0 s \<longleftrightarrow> run_commands (map (fst \<circ> snd) (sc_log s)) c0 = (map (snd \<circ> snd) (sc_log s), core_of s)"

definition app_inv :: "string \<Rightarrow> AppCore \<Rightarrow> shared_core \<Rightarrow> bool" where
  "app_inv file c0 s \<longleftrightarrow> distinct (file # map snd (sc_made s)) \<longrightarrow> own_files file s \<and> sequential c0 s"

lemma create_repo_empty: "create_repo W = Inr d \<Longrightarrow> d = empty_db"
  by (auto simp: create_repo_def split: option.splits)

lemma dispatch_keeps_mode:
  assumes "dispatch_with_core W cmd c = (r, c')" and "cmd \<noteq> ResetDatabase"
  shows "ac_is_test c' = ac_is_test c" and "ac_repo c \<noteq> None \<Longrightarrow> ac_repo c' \<noteq> None"
  using assms by (auto simp: dispatch_with_core_def split: option.splits prod.splits)

lemmas core_step_defs = core_of_def answered_to_def with_core_def open_file_def

lemma sequential_answered:
  assumes "sequential c0 s" and "dispatch_with_core W cmd (core_of s) = (r, core_of s')"
    and "sc_log s' = sc_log s"
  shows "sequential c0 (answered_to k W cmd r s')"
proof -
  have "core_of (answered_to k W cmd r s') = core_of s'" by (simp add: core_step_defs)
  then show ?thesis
    using run_commands_snoc [OF assms(1) [unfolded sequential_def] assms(2)] assms(3)
    by (simp add: sequential_def answered_to_def)
qed

lemma sequential_same_core:
  "sequential c0 s \<Longrightarrow> core_of s' = core_of s \<Longrightarrow> sc_log s' = sc_log s \<Longrightarrow> sequential c0 s'"
  by (simp add: sequential_def)

lemma app_step_made:
  "app_step stamp s s' \<Longrightarrow> \<exists>xs. sc_made s' = sc_made s @ xs"
  by (induction rule: app_step.induct) (auto simp: core_step_defs)

lemma own_files_step:
  assumes "app_step stamp s s'" and "own_files file s" and "distinct (file # map snd (sc_made s'))"
  shows "own_files file s'"
  using assms
proof (induction rule: app_step.induct)
  case (command s k cmd W r c)
  have "ac_repo c \<noteq> None"
    using dispatch_keeps_mode(2) [OF command(3,2)] command.prems(1) by (simp add: own_files_def core_of_def)
  then show ?case using command.prems(1) by (auto simp: own_files_def core_step_defs)
next
  case (reset_opens s k t W d name)
  have new: "sc_files s name = None"
    using reset_opens.prems by (auto simp: own_files_def core_step_defs)
  have "sc_is_test s" using reset_opens(1) reset_opens.prems(1) by (auto simp: own_files_def)
  moreover have "name \<noteq> sc_repo s" using new reset_opens.prems(1) by (auto simp: own_files_def)
  moreover have "sc_tasks s k' \<noteq> Opened W' name" for k' W'
    using new reset_opens.prems(1) by (auto simp: own_files_def)
  ultimately show ?case
    using reset_opens(3) new reset_opens.prems(1) create_repo_empty [OF reset_opens(3)]
    unfolding own_files_def core_step_defs by (simp split: if_splits) metis
next
  case (reset_swaps s k W name)
  have "n \<noteq> name" if "sc_tasks s k' = Opened W' n" "k' \<noteq> k" for k' W' n
    using reset_swaps(1) reset_swaps.prems(1) that unfolding own_files_def by blast
  then show ?case using reset_swaps(1) reset_swaps.prems(1) unfolding own_files_def core_step_defs by simp
qed (auto simp: own_files_def core_step_defs)

lemma dispatch_reset:
  "dispatch_with_core W ResetDatabase c =
     (if ac_is_test c
      then (case create_repo W of Inl e \<Rightarrow> (Err e, c) | Inr d \<Rightarrow> (Ok JNull, c\<lparr>ac_repo := Some d\<rparr>))
      else (Err ''reset_database is only allowed in test mode'', c))"
  by (simp add: dispatch_with_core_def reset_database_def split: sum.split)

lemma sequential_step:
  assumes "app_step stamp s s'" and "own_files file s" and "distinct (file # map snd (sc_made s'))"
    and "sequential c0 s"
  shows "sequential c0 s'"
  using assms
proof (induction rule: app_step.induct)
  case (time_passes s n)
  show ?case by (rule sequential_same_core [OF time_passes(3)]) (simp_all add: core_of_def)
next
  case (command s k cmd W r c)
  have "core_of (with_core c s) = c"
    using dispatch_keeps_mode(1) [OF command(3,2)] by (simp add: core_of_def with_core_def)
  then have "dispatch_with_core W cmd (core_of s) = (r, core_of (with_core c s))" using command(3) by simp
  then show ?case by (rule sequential_answered [OF command.prems(3)]) (simp add: with_core_def)
next
  case (reset_refused s k W)
  show ?case
    by (rule sequential_answered [OF reset_refused.prems(3)]) (simp_all add: dispatch_reset core_of_def reset_refused(2))
next
  case (reset_sleeps s k)
  show ?case by (rule sequential_same_core [OF reset_sleeps.prems(3)]) (simp_all add: core_of_def)
next
  case (reset_fails s k t W e)
  then have "sc_is_test s" by (auto simp: own_files_def)
  then show ?case using reset_fails(3)
    by (intro sequential_answered [OF reset_fails.prems(3)]) (simp_all add: dispatch_reset core_of_def)
next
  case (reset_opens s k t W d name)
  have "sc_files s name = None"
    using reset_opens.prems by (auto simp: own_files_def core_step_defs)
  then have "name \<noteq> sc_repo s" using reset_opens.prems(1) by (auto simp: own_files_def)
  then show ?case
    by (intro sequential_same_core [OF reset_opens.prems(3)]) (simp_all add: core_step_defs)
next
  case (reset_swaps s k W name)
  then have "sc_is_test s" "sc_files s name = Some empty_db" "create_repo W = Inr empty_db"
    by (auto simp: own_files_def)
  then show ?case
    by (intro sequential_answered [OF reset_swaps.prems(3)]) (simp_all add: dispatch_reset core_of_def)
qed

lemma app_inv_step:
  assumes "app_step stamp s s'" and "app_inv file c0 s"
  shows "app_inv file c0 s'"
  unfolding app_inv_def
proof (intro impI)
  assume new: "distinct (file # map snd (sc_made s'))"
  moreover obtain xs where "sc_made s' = sc_made s @ xs" using app_step_made [OF assms(1)] by blast
  ultimately have "own_files file s" "sequential c0 s" using assms(2) by (simp_all add: app_inv_def)
  then show "own_files file s' \<and> sequential c0 s'"
    using own_files_step [OF assms(1) _ new] sequential_step [OF assms(1) _ new] by blast
qed

interpretation app: transition_system "app_step stamp" "app_inv file c0" for stamp "file" c0
  by unfold_locales (rule app_inv_step)

lemma app_start: "app_inv file (core_of (shared_start file d t)) (shared_start file d t)"
  by (simp add: app_inv_def own_files_def sequential_def shared_start_def core_of_def)

lemma clients_in_sequence:
  assumes "(app_step stamp)\<^sup>*\<^sup>* (shared_start file d t) s" and "distinct (file # map snd (sc_made s))"
  shows "sequential (core_of (shared_start file d t)) s"
  using app.reached_inv [OF assms(1) app_start] assms(2) by (simp add: app_inv_def)

section \<open>One reset at a time\<close>

text \<open>
  The two seconds of sleep give every reset a file of its own as long as no two resets overlap and
  the local time is not set back.
\<close>

definition one_reset :: "shared_core \<Rightarrow> bool" where
  "one_reset s \<longleftrightarrow> (\<forall>k k'. sc_tasks s k \<noteq> Ready \<longrightarrow> sc_tasks s k' \<noteq> Ready \<longrightarrow> k = k')"

definition one_name_per_second :: "(nat \<Rightarrow> string) \<Rightarrow> bool" where
  "one_name_per_second stamp \<longleftrightarrow> (\<forall>t t'. stamp t = stamp t' \<longrightarrow> t div 10 ^ 9 = t' div 10 ^ 9)"

definition lone_step :: "(nat \<Rightarrow> string) \<Rightarrow> shared_core \<Rightarrow> shared_core \<Rightarrow> bool" where
  "lone_step stamp s s' \<longleftrightarrow> app_step stamp s s' \<and> one_reset s'"

definition spaced :: "(nat \<Rightarrow> string) \<Rightarrow> shared_core \<Rightarrow> bool" where
  "spaced stamp s \<longleftrightarrow>
     sorted_wrt (\<lambda>p q. fst p + reset_sleep \<le> fst q) (sc_made s)
   \<and> (\<forall>p \<in> set (sc_made s). fst p \<le> sc_now s \<and> snd p = stamp (fst p) @ ''_vampa.db'')
   \<and> (\<forall>k t. sc_tasks s k = Asleep t \<longrightarrow> (\<forall>p \<in> set (sc_made s). fst p + reset_sleep \<le> t))"

lemma spaced_step:
  assumes "app_step stamp s s'" and "one_reset s'" and "spaced stamp s"
  shows "spaced stamp s'"
  using assms
proof (induction rule: app_step.induct)
  case (reset_opens s k t W d name)
  have alone: "sc_tasks s k' \<noteq> Asleep t'" if "k' \<noteq> k" for k' t'
    using reset_opens.prems(1) [unfolded one_reset_def, rule_format, of k k'] that
    by (auto simp: open_file_def)
  have "\<forall>p \<in> set (sc_made s). fst p + reset_sleep \<le> sc_now s"
  proof
    fix p assume "p \<in> set (sc_made s)"
    then have "fst p + reset_sleep \<le> t"
      using reset_opens(1) reset_opens.prems(2) unfolding spaced_def by blast
    then show "fst p + reset_sleep \<le> sc_now s" using reset_opens(2) by (rule order_trans)
  qed
  then show ?case
    using reset_opens(4) reset_opens.prems(2) alone
    unfolding spaced_def open_file_def by (simp add: sorted_wrt_append)
next
  case (reset_sleeps s k)
  then show ?case unfolding spaced_def by simp
next
  case (time_passes s n)
  then show ?case unfolding spaced_def by fastforce
qed (simp_all add: spaced_def answered_to_def with_core_def)

interpretation lone: transition_system "lone_step stamp" "spaced stamp" for stamp
  by unfold_locales (auto simp: lone_step_def intro: spaced_step)

lemma other_second:
  fixes m :: nat
  assumes "x + 2 * m \<le> y" and "0 < m"
  shows "y div m \<noteq> x div m"
  using div_le_mono [OF assms(1), of m] assms(2) by simp

lemma spaced_distinct:
  assumes "one_name_per_second stamp" and "sorted_wrt (\<lambda>p q. fst p + reset_sleep \<le> fst q) ps"
    and "\<forall>p \<in> set ps. snd p = stamp (fst p) @ ''_vampa.db''"
  shows "distinct (map snd ps)"
  using assms(2,3)
proof (induction ps)
  case (Cons p ps)
  have "snd q \<noteq> snd p" if "q \<in> set ps" for q
  proof
    assume "snd q = snd p"
    then have "stamp (fst q) = stamp (fst p)" using Cons.prems(2) that by simp
    then have "fst q div 10 ^ 9 = fst p div 10 ^ 9" using assms(1) unfolding one_name_per_second_def by blast
    moreover have "fst p + 2 * 10 ^ 9 \<le> fst q"
      using Cons.prems(1) that unfolding reset_sleep_def sorted_wrt.simps by blast
    then have "fst q div 10 ^ 9 \<noteq> fst p div 10 ^ 9" by (rule other_second) simp
    ultimately show False by blast
  qed
  then have "snd p \<notin> set (map snd ps)" unfolding set_map by (metis imageE)
  then show ?case using Cons by simp
qed simp

lemma lone_resets_have_own_files:
  assumes "(lone_step stamp)\<^sup>*\<^sup>* (shared_start file d t) s" and "one_name_per_second stamp"
    and "\<forall>u. file \<noteq> stamp u @ ''_vampa.db''"
  shows "distinct (file # map snd (sc_made s))"
proof -
  have "spaced stamp (shared_start file d t)" by (simp add: spaced_def shared_start_def)
  then have "spaced stamp s" by (rule lone.reached_inv [OF assms(1)])
  then have made: "sorted_wrt (\<lambda>p q. fst p + reset_sleep \<le> fst q) (sc_made s)"
    "\<forall>p \<in> set (sc_made s). snd p = stamp (fst p) @ ''_vampa.db''" by (auto simp: spaced_def)
  have "file \<notin> set (map snd (sc_made s))"
  proof
    assume "file \<in> set (map snd (sc_made s))"
    then obtain p where "p \<in> set (sc_made s)" "file = snd p" by auto
    then show False using made(2) assms(3) by auto
  qed
  then show ?thesis using spaced_distinct [OF assms(2) made] by simp
qed

section \<open>Resets that overlap\<close>

text \<open>
  Two clients reset within one second: the second reset opens the file of the first, and what a
  client has stored in between is still there after it is answered \<open>Ok\<close>.
\<close>

lemma overlapping_resets_share_a_file:
  assumes "create_repo W = Inr empty_db"
    and "\<And>c. c = \<lparr>ac_repo = Some empty_db, ac_guard = new_guard, ac_is_test = True, ac_script = None\<rparr> \<Longrightarrow>
      dispatch_with_core W cmd c = (r, c\<lparr>ac_repo := Some d'\<rparr>)"
    and "cmd \<noteq> ResetDatabase" and "file \<noteq> stamp reset_sleep @ ''_vampa.db''"
  shows "\<exists>s. (app_step stamp)\<^sup>*\<^sup>* (shared_start file d True) s
    \<and> map snd (sc_log s) = [((W, ResetDatabase), Ok JNull), ((W, cmd), r), ((W, ResetDatabase), Ok JNull)]
    \<and> ac_repo (core_of s) = Some d'"
proof -
  let ?n = "stamp reset_sleep @ ''_vampa.db''"
  define s0 where "s0 = shared_start file d True"
  define s1 where "s1 = s0\<lparr>sc_tasks := (sc_tasks s0)(0 := Asleep (sc_now s0 + reset_sleep))\<rparr>"
  define s2 where "s2 = s1\<lparr>sc_tasks := (sc_tasks s1)(1 := Asleep (sc_now s1 + reset_sleep))\<rparr>"
  define s3 where "s3 = s2\<lparr>sc_now := sc_now s2 + reset_sleep\<rparr>"
  define s4 where "s4 = open_file ?n empty_db (s3\<lparr>sc_tasks := (sc_tasks s3)(0 := Opened W ?n)\<rparr>)"
  define s5 where "s5 = open_file ?n empty_db (s4\<lparr>sc_tasks := (sc_tasks s4)(1 := Opened W ?n)\<rparr>)"
  define s6 where "s6 = answered_to 0 W ResetDatabase (Ok JNull) (s5\<lparr>sc_repo := ?n\<rparr>)"
  define c where "c = (core_of s6)\<lparr>ac_repo := Some d'\<rparr>"
  define s7 where "s7 = answered_to 0 W cmd r (with_core c s6)"
  define s8 where "s8 = answered_to 1 W ResetDatabase (Ok JNull) (s7\<lparr>sc_repo := ?n\<rparr>)"
  note states = s0_def s1_def s2_def s3_def s4_def s5_def s6_def
  have 1: "app_step stamp s0 s1"
    unfolding s1_def by (rule reset_sleeps) (simp_all add: states shared_start_def)
  have 2: "app_step stamp s1 s2"
    unfolding s2_def by (rule reset_sleeps) (simp_all add: states shared_start_def)
  have 3: "app_step stamp s2 s3" unfolding s3_def by (rule time_passes)
  have now: "sc_now s3 = reset_sleep" "sc_tasks s3 0 = Asleep reset_sleep"
    "sc_now s4 = reset_sleep" "sc_tasks s4 1 = Asleep reset_sleep"
    by (simp_all add: states shared_start_def open_file_def)
  have 4: "app_step stamp s3 s4"
    unfolding s4_def by (rule reset_opens [OF now(2) _ assms(1)]) (simp_all add: now(1))
  have 5: "app_step stamp s4 s5"
    unfolding s5_def by (rule reset_opens [OF now(4) _ assms(1)]) (simp_all add: now(3))
  have 6: "app_step stamp s5 s6"
    unfolding s6_def by (rule reset_swaps) (simp add: s4_def s5_def open_file_def)
  have core: "core_of s6 = \<lparr>ac_repo = Some empty_db, ac_guard = new_guard, ac_is_test = True, ac_script = None\<rparr>"
    by (simp add: states core_step_defs shared_start_def assms(4) [symmetric])
  have task: "sc_tasks s6 0 = Ready" "sc_tasks s7 1 = Opened W ?n"
    by (simp_all add: s5_def s6_def s7_def answered_to_def open_file_def with_core_def)
  have "dispatch_with_core W cmd (core_of s6) = (r, c)" unfolding c_def by (rule assms(2) [OF core])
  from command [OF task(1) assms(3) this] have 7: "app_step stamp s6 s7" unfolding s7_def .
  have 8: "app_step stamp s7 s8" unfolding s8_def by (rule reset_swaps [OF task(2)])
  note run = converse_rtranclp_into_rtranclp [of "app_step stamp"]
  have "(app_step stamp)\<^sup>*\<^sup>* s0 s8"
    by (rule run [OF 1 run [OF 2 run [OF 3 run [OF 4 run [OF 5 run [OF 6 run [OF 7 run
        [OF 8 rtranclp.rtrancl_refl]]]]]]]])
  moreover have "map snd (sc_log s8)
      = [((W, ResetDatabase), Ok JNull), ((W, cmd), r), ((W, ResetDatabase), Ok JNull)]"
    by (simp add: states s7_def s8_def core_step_defs shared_start_def)
  moreover have "ac_repo (core_of s8) = Some d'"
    by (simp add: s6_def s7_def s8_def c_def core_step_defs)
  ultimately show ?thesis unfolding s0_def by (intro exI [of _ s8] conjI)
qed

end
