(* ===== verification/Spec2Isabelle.thy ===== *)
theory Spec2Isabelle
  imports Network_Properties Query_Properties Dispatch_Safety Node_Properties Rtc_Properties
    Data_Channel Commands Ws_Link Relay End_To_End Client_Session Ice_Con Reply_Types Handler Servers
    Catalogue_Accepts App_Sessions
begin

text \<open>
  A verification library for \<^verbatim>\<open>vamp\<close>, a music player's library server: a SQLite repository of
  tracks, tags and listening times behind a set of commands, reached from a Tauri window, a
  WebSocket or a WebRTC data channel, and a signalling server that lets two peers find each other.

  \<^bold>\<open>Parts, and the theories that model them.\<close>

  \<^item> \<open>Vamp_Prelude\<close>: results of Rust calls (a value, an error, a panic), the \<open>?\<close> operator, loops that
    stop at the first error, \<^verbatim>\<open>slice::chunks\<close>, decimal \<^verbatim>\<open>i64\<close>, and the locales \<open>step_system\<close> (a
    step function that keeps an invariant), \<open>transition_system\<close> (a step relation that does) and
    \<open>refinement\<close> (one that implements an abstract relation).
  \<^item> \<open>Schema\<close>: \<^verbatim>\<open>db/schema.rs\<close>, \<^verbatim>\<open>db/filtered_schema.rs\<close>, \<^verbatim>\<open>db/bigint_id.rs\<close> and the JSON of the
    rows. Ids are decimal text outside and \<^verbatim>\<open>i64\<close> inside, as in the code.
  \<^item> \<open>Database\<close>, \<open>Statements\<close>: the tables of \<^verbatim>\<open>migrations/\<close> as lists of rows with their
    \<^verbatim>\<open>AUTOINCREMENT\<close> counters, and the SQL statements of \<^verbatim>\<open>db/sqlite.rs\<close>, one function each, with
    the declared constraints. \<open>Integrity\<close> proves that each statement keeps the invariant \<open>db_ok\<close>.
  \<^item> \<open>Repository\<close>, \<open>Track_Query\<close>: the operations of \<^verbatim>\<open>SqliteRepository\<close>, transactions, batches
    and error logging included; the two searches, one as the SQL text and bind values it builds,
    the other as the meaning of the conditions it adds. \<open>Repository_Safety\<close> proves all of them
    atomic, \<open>Repository_Lemmas\<close> and \<open>Query_Lemmas\<close> what each of them does.
  \<^item> \<open>Listen_Guard\<close>: \<^verbatim>\<open>commands/listen_guard.rs\<close>, with the rounding of binary64 and poisoning.
  \<^item> \<open>Dispatch\<close>: \<^verbatim>\<open>commands/dispatch.rs\<close>, \<^verbatim>\<open>app_core.rs\<close>, \<^verbatim>\<open>app_ws_handler.rs\<close>,
    \<^verbatim>\<open>transport/ws_server.rs\<close>, \<^verbatim>\<open>common/defines.rs\<close>. \<open>Dispatch_Safety\<close> states the contract of a
    repository (the locale \<open>repository_contract\<close>) and interprets it on \<open>execute\<close> and on
    \<open>dispatch_with_core\<close>. \<open>Reply_Types\<close> gives each command the JSON type of its reply, from
    \<^verbatim>\<open>db/repository.rs\<close> and the serialisers of \<^verbatim>\<open>db/schema.rs\<close>.
  \<^item> \<open>Catalogue\<close>: what the repository promises, as maps from ids and sets of pairs that know nothing of
    rows, batches, counters and transactions, with one update for each command. \<open>Catalogue_Refinement\<close>
    shows that every statement, and so every command, makes its update; \<open>Catalogue_Reads\<close> that a read
    answers a function of the catalogue, and runs whole sessions; \<open>Catalogue_Accepts\<close> gives each command
    the condition on the catalogue under which it succeeds. What a catalogue does not decide, the two
    searches, the script and the reset, the last of them names. \<open>App_Sessions\<close>: the clients of one
    \<^verbatim>\<open>AppCore\<close> in any interleaving, the three steps of \<^verbatim>\<open>reset_database\<close> and the files they open
    included; without two files of one name they are one client after the other.
  \<^item> \<open>Wire\<close>, \<open>Routing\<close>, \<open>Signalling\<close>, \<open>Signalling_Safety\<close>: \<^verbatim>\<open>signalling/ws_server.rs\<close>; the
    accept loop and the three tasks of every connection are one step system, whose events are
    what one task does between two awaits, in any order. \<open>Relay\<close> relates the frames a run has
    taken from each connection to those it has put out to the others.
  \<^item> \<open>Legacy_Server\<close>: \<^verbatim>\<open>signalling-server/src/wsserver.rs\<close>, which routes by address; \<open>Servers\<close>: its
    accept loop with its port and shutdown, and that of \<^verbatim>\<open>transport/ws_server.rs\<close>.
  \<^item> \<open>Transport\<close>: \<^verbatim>\<open>rtc/ws_node_handler.rs\<close>, acknowledgements, duplicate filter and retries on
    32-bit sequence numbers, and the link of two ends over a lossy channel. \<open>Handler\<close> is the
    \<^verbatim>\<open>TransportHandler\<close> that owns both ends, as it runs on a node: its callback, the task that
    sends acknowledgements, and \<^verbatim>\<open>stop\<close>. \<open>End_To_End\<close> composes the link with the server of
    \<open>Signalling\<close>: what the two ends transmit, and what they take, are frames of its connections.
  \<^item> \<open>Lossy_Fifo\<close>: the abstract specification of a reconnecting link, a queue of bounded room that
    loses at most the message each connection breaks on; \<open>Ws_Node\<close> and \<open>Ws_Link\<close> implement it.
  \<^item> \<open>Ws_Node\<close>: \<^verbatim>\<open>rtc/ws_node.rs\<close>, the reconnecting node below the transport; \<open>Debouncer\<close>:
    \<^verbatim>\<open>rtc/debouncer.rs\<close>; \<open>Rtc_Connector\<close>, \<open>Rtc_Safety\<close>: \<^verbatim>\<open>rtc/rtc_connector.rs\<close>, the answering side of a
    WebRTC connection with its debouncer, and the invariant of its runs; \<open>Data_Channel\<close>: the
    channels of a connector as their owner sees them. The tasks of each are one transition
    relation with a rule for every branch of a \<^verbatim>\<open>select!\<close> and every callback, so that a run is any
    interleaving; the libraries below (sockets, \<^verbatim>\<open>webrtc\<close>) succeed or fail freely. What
    happened so far (messages accepted and written, offers taken, answers sent) is kept in
    fields of the state that no rule reads.
  \<^item> \<open>Client\<close>, \<open>Ws_Link\<close>: \<^verbatim>\<open>signalling-server/src/wsclient.rs\<close> and \<^verbatim>\<open>rtc/client.rs\<close>, a loop that may
    not return (a partial function) and a link that reconnects. \<open>Negotiation\<close>: \<^verbatim>\<open>rtc/dc.rs\<close>, its
    copy in \<^verbatim>\<open>wsclient.rs\<close>, and \<^verbatim>\<open>start_ice\<close>, as functions of the event that comes next, an own
    step with the result of a call, or a callback; \<open>Client_Session\<close> puts the loop of \<^verbatim>\<open>client.rs\<close> and
    the negotiation it spawns together. \<open>Ice_Con\<close>: \<^verbatim>\<open>src/ice_con.rs\<close> and the TURN server of
    \<^verbatim>\<open>rtc_peer_stuff.rs\<close>.
  \<^item> \<open>Commands\<close>: the wrappers of \<^verbatim>\<open>commands/mod.rs\<close> and the choice of the database file in
    \<^verbatim>\<open>db_config.rs\<close>, compared with \<open>Dispatch\<close>.
  \<^item> \<open>Library_Properties\<close>, \<open>Query_Properties\<close>, \<open>Network_Properties\<close>, \<open>Node_Properties\<close>,
    \<open>Rtc_Properties\<close> and this theory hold the properties, each after the text that states it,
    with its witness; others stand beside their model, in \<open>Commands\<close>, \<open>Client\<close>, \<open>Ws_Link\<close>, \<open>Relay\<close>,
    \<open>End_To_End\<close>, \<open>Negotiation\<close>, \<open>Client_Session\<close> and \<open>Handler\<close>.

  \<^bold>\<open>Parameters.\<close> Code that is not in the repository is an argument: the record \<open>engine\<close> is SQLite
  through sqlx (which statement of a call fails and with what error, the gaps it leaves between
  rowids, \<^verbatim>\<open>LIKE\<close>, the printing of errors, JSON and reals), \<open>wd_query\<close> answers a query text with
  its bind values, \<open>decode\<close> and \<open>parse\<close> are serde. The theorems hold for every such argument unless
  they name what they need: \<open>no_faults\<close> (no statement fails of its own) and \<open>no_gaps\<close> (rowids are
  consecutive within a statement), together \<open>good_engine\<close>, both met by \<open>quiet_engine\<close>; \<open>has_room\<close> says
  that the counters of the tables stay below the largest rowid.

  \<^bold>\<open>Bounds.\<close> No definition takes fuel: loops recur on lists of rows, messages or events, or on a
  decreasing length, and the one loop that may not return, \<open>client_loop\<close>, is a partial function
  whose value \<open>None\<close> says so. Sequence numbers are \<open>32 word\<close>; \<^verbatim>\<open>i64\<close> is \<open>int\<close> with \<open>is_i64\<close>
  where it is parsed; \<^verbatim>\<open>usize\<close> and \<^verbatim>\<open>u64\<close> counters of connections and messages are \<open>nat\<close>, time is
  \<open>nat\<close> nanoseconds. The queues have the capacities of the code (64 messages of a node, 8 signals,
  64 events of the debouncer, 16 messages of a channel, 100 of the link).

  \<^bold>\<open>Not modelled.\<close> SQLite turns an integer sum that overflows 64 bits into a real; the sums of
  listened seconds here do not. Interleavings of two commands inside one SQLite transaction are
  not modelled: a command is one step, as the engine's write lock makes it; only resets have steps in
  between. In the connector the
  opening of a channel and the dropping of the one it replaces are one step, as is the closing of
  all channels; a claim that settles between the two halves counts as settled before. The
  connection between the connector's sending phase and the transport is free: a send returns or
  fails at any time or never. In a negotiation the calls of the \<^verbatim>\<open>webrtc\<close> crate are steps with any
  result and its callbacks come at any time; what it does with the configuration of its API and of
  the ICE servers is its own. What a listener accepts is an argument.

  The rest of the code has no behaviour of its own to model: functions nothing calls
  (the copy of \<^verbatim>\<open>validate_offer\<close> in \<^verbatim>\<open>wsclient.rs\<close>, \<^verbatim>\<open>set_up_data_channel_listener\<close> in
  \<^verbatim>\<open>rtc_peer_stuff.rs\<close>, the empty functions at the end of \<^verbatim>\<open>rtc_connector.rs\<close>), the wiring of sockets,
  TLS and the WebRTC engine, the \<^verbatim>\<open>main\<close> functions with the Tauri window and the type exports, and the
  tests: \<^verbatim>\<open>db/testdb.rs\<close> measures queries on a seeded file, \<^verbatim>\<open>sanity_checks/selects.rs\<close> collects
  experiments with tokio and a running network, of which its \<^verbatim>\<open>main\<close> starts the WebSocket server only.
\<close>

section \<open>The application core\<close>

lemma core_okI: "ac_repo c = Some d \<Longrightarrow> db_ok d \<Longrightarrow> core_ok c"
  by (simp add: core_ok_def)

definition still_world :: world where
  "still_world = \<lparr>wd_engine = quiet_engine, wd_query = (\<lambda>sql bs d. Inr []), wd_empty_any = True,
     wd_today = ''2025-01-01'', wd_now = 0, wd_script = None, wd_open_fault = None\<rparr>"

definition library_core :: AppCore where
  "library_core = \<lparr>ac_repo = Some library, ac_guard = new_guard, ac_is_test = False,
     ac_script = None\<rparr>"

lemma library_core_ok: "core_ok library_core"
  by (rule core_okI [of _ library]) (simp_all add: library_core_def library_ok)

text \<open>C1: The integrity of the database. Whatever commands a session dispatches, with whatever
  arguments, engine failures and clock, the database is sound after every one of them: ids are
  unique and below the counters, every foreign key has its row, names and pairs declared unique are
  unique, and tracks are never left without their statistics.\<close>

theorem sessions_keep_integrity:
  assumes "core_ok c"
  shows "core_ok (foldl (\<lambda>c (W, cmd). snd (dispatch_with_core W cmd c)) c (take n cmds))"
  using core.client.every_prefix_inv [OF assms, of n cmds] by (simp add: case_prod_unfold)

theorem sessions_keep_integrity_witness:
  "core_ok (snd (dispatch_with_core still_world (AddTag ''rock'')
     (snd (dispatch_with_core still_world (AddTrack (song ''z'')) library_core))))"
  using sessions_keep_integrity [OF library_core_ok, of 2
      "[(still_world, AddTrack (song ''z'')), (still_world, AddTag ''rock'')]"]
  by simp

text \<open>C2: The database implements a catalogue. Whatever a session dispatches, and whatever engine
  failures it meets, the tables afterwards stand for the catalogue that results from the answers
  alone: each command answered Ok has made the one update \<open>update\<close> gives it, to maps and sets that
  know nothing of rows, batches, counters and transactions; every other command has made none.\<close>

theorem sessions_implement_the_catalogue:
  assumes "core_ok c" and "run_commands qs c = (rs, c')" and "batches_without_gaps qs"
  shows "shelf_of c' = foldl shelf_step (shelf_of c) (zip qs rs)"
  using run_commands_shelf [OF assms] by blast

text \<open>A session that renames a tag, fails to add it again and deletes a track.\<close>

definition busy_session :: "(world \<times> Command) list" where
  "busy_session = map (Pair still_world)
     [EditTag \<lparr>et_id = from_i64 1, et_name = ''jazz''\<rparr>, AddTag ''jazz'', DeleteTrack (from_i64 1)]"

definition busy_core :: AppCore where "busy_core = snd (run_commands busy_session library_core)"

lemma busy_replies: "\<exists>e. fst (run_commands busy_session library_core) = [Ok JNull, Err e, Ok JNull]"
  by (simp add: busy_session_def dispatch_with_core_def still_world_def library_core_def on_repo_def
      to_val_def with_id_def edit_tag_def update_tag_row_def tbl_update_def add_tag_def insert_tag_row_def
      delete_track_def delete_track_unlogged_def fetch_track_def tbl_select_def insert_removed_row_def
      log_error_def insert_error_row_def null_val_def library_value run_simps is_i64_def i64_min_def)

theorem sessions_implement_the_catalogue_witness:
  "ct_tags (sh_catalogue (shelf_of busy_core)) 1 = Some ''jazz''
   \<and> ct_entries (sh_catalogue (shelf_of busy_core)) 1 = None"
proof -
  obtain e where e: "fst (run_commands busy_session library_core) = [Ok JNull, Err e, Ok JNull]"
    using busy_replies by blast
  have "shelf_of busy_core = foldl shelf_step (shelf_of library_core) (zip busy_session [Ok JNull, Err e, Ok JNull])"
    unfolding busy_core_def e [symmetric]
    by (rule sessions_implement_the_catalogue [OF library_core_ok])
       (simp_all add: batches_without_gaps_def busy_session_def)
  moreover have "ct_tags (sh_catalogue (shelf_of library_core)) 1 = Some ''rock''"
    by (simp add: shelf_of_def library_core_def catalogue_of_def tmap_def library_value)
  moreover have "id_of (from_i64 1) = 1"
    by (rule id_of_Ok [where 'e = unit]) (simp add: is_i64_def i64_min_def i64_max_def)
  ultimately show ?thesis
    by (simp add: busy_session_def shelf_step_def remove_entry_def)
qed







text \<open>C6: A failed command changes nothing. A command that is answered with an error, or that unwinds,
  leaves every table of the database as it was, the error log apart.\<close>

theorem failed_command_changes_nothing:
  assumes "core_ok c" and "ac_repo c = Some d"
    and "dispatch_with_core W cmd c = (r, c')" and "\<forall>v. r \<noteq> Ok v"
  shows "\<exists>log. ac_repo c' = Some (d\<lparr>errors := log\<rparr>)"
proof -
  have "core_same c c'" using dispatch_with_core_safe [OF assms(1,3)] assms(4) by blast
  then obtain d' where "ac_repo c' = Some d'" "same_data d d'"
    using assms(2) by (auto simp: core_same_def split: option.splits)
  then show ?thesis by (auto simp: same_data_iff)
qed

theorem failed_command_changes_nothing_witness:
  "\<exists>log. ac_repo (snd (dispatch_with_core still_world (AddTag ''rock'') library_core))
     = Some (library\<lparr>errors := log\<rparr>)"
proof -
  have "\<forall>v. fst (dispatch_with_core still_world (AddTag ''rock'') library_core) \<noteq> Ok v"
    by (simp add: dispatch_with_core_def still_world_def library_core_def on_repo_def to_val_def
        add_tag_def insert_tag_row_def library_value run_simps)
  then show ?thesis
    by (intro failed_command_changes_nothing [OF library_core_ok])
      (simp_all add: library_core_def surjective_pairing [symmetric])
qed

text \<open>C7: Every successful reply of the dispatcher has the JSON type of its command, field by field:
  the type the repository declares for the result and the serialiser derived for its rows. A
  command that makes a row answers with a number, while every row names its id as text.\<close>

theorem replies_have_their_types:
  assumes "dispatch_with_core W cmd c = (Ok v, c')"
  shows "conforms (reply_type cmd) v"
proof (cases "cmd = ResetDatabase")
  case True
  then show ?thesis using assms
    by (auto simp: dispatch_with_core_def split: prod.splits sum.splits)
next
  case False
  then obtain d s where "execute W cmd \<lparr>ex_repo = d, ex_guard = ac_guard c, ex_script = ac_script c\<rparr> = (Ok v, s)"
    using assms by (auto simp: dispatch_with_core_def split: option.splits prod.splits)
  then show ?thesis using execute_conforms [of cmd W] by (metis reply_conforms_ok(1))
qed

theorem replies_have_their_types_witness:
  "\<exists>v c'. dispatch_with_core still_world GetAllTags library_core = (Ok v, c')
     \<and> conforms (TList tag_ty) v"
proof -
  have "\<exists>v c'. dispatch_with_core still_world GetAllTags library_core = (Ok v, c')"
    by (simp add: dispatch_with_core_def still_world_def library_core_def on_repo_def to_val_def
        get_all_tags_def library_value run_simps)
  then obtain v c' where run: "dispatch_with_core still_world GetAllTags library_core = (Ok v, c')"
    by blast
  then show ?thesis using replies_have_their_types [OF run] by (simp del: conforms.simps)
qed

text \<open>Reset is for tests. Outside test mode \<^verbatim>\<open>ResetDatabase\<close> is refused and changes nothing; in
  test mode a reset whose database opens leaves the empty database, and one whose database
  does not open leaves the old one; the listen guard and the cached script survive either way.\<close>

theorem reset_is_for_tests:
  "dispatch_with_core W ResetDatabase c =
     (if \<not> ac_is_test c then (Err ''reset_database is only allowed in test mode'', c)
      else
        (case wd_open_fault W of
           Some e \<Rightarrow> (Err (eng_show_err (wd_engine W) e), c)
         | None \<Rightarrow> (Ok JNull, c\<lparr>ac_repo := Some empty_db\<rparr>)))"
  by (simp add: dispatch_with_core_def reset_database_def create_repo_def split: option.splits)

text \<open>C37: A core that was started on the configuration of its environment replaces its database on
  \<^verbatim>\<open>ResetDatabase\<close> only if \<^verbatim>\<open>TEST_DIR\<close> is set and names the directory of its database; in any other
  environment the command is refused and the database stays.\<close>

theorem reset_needs_a_test_directory:
  assumes "create_db_config test_dir app_dir now_text data_dir = Ok cfg"
    and "make_app_core W0 (cf_is_test cfg) existing = Inr c"
    and "ac_repo (snd (dispatch_with_core W ResetDatabase c)) \<noteq> Some existing
         \<or> (\<exists>v. fst (dispatch_with_core W ResetDatabase c) = Ok v)"
  shows "test_dir = Some (cf_db_path cfg) \<and> cf_db_filename cfg = now_text @ ''_test.db''"
proof -
  have c: "ac_repo c = Some existing" "ac_is_test c = cf_is_test cfg"
    using assms(2) by (auto simp: make_app_core_def split: option.splits)
  have "cf_is_test cfg"
    using assms(3) c by (auto simp: dispatch_with_core_def reset_database_def)
  then show ?thesis
    using assms(1)
    by (auto simp: create_db_config_def launch_mode_def unwrap_dir_def split: option.splits if_splits)
qed

theorem reset_needs_a_test_directory_witness:
  "\<exists>cfg. create_db_config (Some ''/tmp/t'') (Some ''/srv/vamp'') ''20240101_000000'' None
       = (Ok cfg :: (string, DbConfig) rust)
     \<and> cf_db_filename cfg = ''20240101_000000'' @ ''_test.db''"
proof -
  let ?cfg = "\<lparr>cf_db_path = ''/tmp/t'', cf_db_filename = ''20240101_000000'' @ ''_test.db'',
    cf_is_test = True\<rparr>"
  let ?c = "\<lparr>ac_repo = Some empty_db, ac_guard = new_guard, ac_is_test = True, ac_script = None\<rparr>"
  have conf: "create_db_config (Some ''/tmp/t'') (Some ''/srv/vamp'') ''20240101_000000'' None
      = (Ok ?cfg :: (string, DbConfig) rust)"
    by (simp add: create_db_config_def launch_mode_def unwrap_dir_def)
  have "make_app_core still_world (cf_is_test ?cfg) empty_db = Inr ?c"
    by (simp add: make_app_core_def still_world_def)
  moreover have "fst (dispatch_with_core still_world ResetDatabase ?c) = Ok JNull"
    by (simp add: dispatch_with_core_def reset_database_def create_repo_def still_world_def)
  ultimately show ?thesis using reset_needs_a_test_directory [OF conf] conf by blast
qed

section \<open>WebSocket connections\<close>

text \<open>The core after a connection has handled some of its messages.\<close>

definition core_after ::
  "(string \<Rightarrow> string + Command DataTransportMessage) \<Rightarrow> (world \<times> Message option \<times> bool) list
     \<Rightarrow> AppCore \<Rightarrow> AppCore" where
  "core_after parse evs c =
     foldl (\<lambda>c (W, m, sent). case m of
              Some msg \<Rightarrow> snd (handle parse W msg c :: (unit, Message) rust \<times> AppCore)
            | None \<Rightarrow> c) c evs"

lemma core_after_simps [simp]:
  "core_after parse [] c = c"
  "core_after parse ((W, Some m, sent) # evs) c =
     core_after parse evs (snd (handle parse W m c :: (unit, Message) rust \<times> AppCore))"
  by (simp_all add: core_after_def)

lemma handle_safe:
  assumes "core_ok c" and "handle parse W msg c = (r, c')"
  shows "core_ok c'"
proof (cases "\<exists>t rq. msg = Text t \<and> parse t = Inr (Request rq)")
  case True
  then obtain t rq where t: "msg = Text t" "parse t = Inr (Request rq)" by blast
  obtain r0 c0 where d: "dispatch_with_core W (rq_cmd rq) c = (r0, c0)" by fastforce
  then have "c' = c0" using assms(2) t by (cases r0) (auto simp: handle_def)
  then show ?thesis using dispatch_with_core_safe [OF assms(1) d] by simp
next
  case False
  then have "c' = c"
    using assms(2) by (auto simp: handle_def split: Message.splits sum.splits DataTransportMessage.splits)
  then show ?thesis using assms(1) by simp
qed

lemma handle_request:
  assumes "parse t = Inr (Request rq)" and "handle parse W (Text t) c = (Ok reply, c')"
  shows "\<exists>res. reply = Text (eng_show_json (wd_engine W)
           (response_json \<lparr>rs_id = rq_id rq, rs_result = res\<rparr>))"
  using assms by (auto simp: handle_def response_ok_def error_message_def response_error_def
      split: prod.splits rust.splits)

text \<open>C38: A connection answers in order. The replies of a connection are the replies to its first
  messages, in order, each computed on the core that the messages before it left; the reply to a
  request carries the request's id; and the core stays sound through the connection.\<close>

theorem replies_answer_in_order:
  assumes "core_ok c" and "handle_connection parse evs c = (rs, c')"
  shows "core_ok c' \<and> length rs \<le> length evs
     \<and> (\<forall>i < length rs. \<exists>W m.
          evs ! i = (W, Some m, True)
          \<and> fst (handle parse W m (core_after parse (take i evs) c) :: (unit, Message) rust \<times> AppCore)
              = Ok (rs ! i)
          \<and> (\<forall>t rq. m = Text t \<and> parse t = Inr (Request rq) \<longrightarrow>
               (\<exists>res. rs ! i = Text (eng_show_json (wd_engine W)
                  (response_json \<lparr>rs_id = rq_id rq, rs_result = res\<rparr>)))))"
  using assms
proof (induction parse evs c arbitrary: rs rule: handle_connection.induct)
  case (3 parse W m sent evs c)
  obtain r c1 where h: "handle parse W m c = (r :: (unit, Message) rust, c1)" by fastforce
  have ok: "core_ok c1" by (rule handle_safe [OF "3.prems"(1) h])
  show ?case
  proof (cases "\<exists>reply. r = Ok reply \<and> sent")
    case False
    then have "rs = [] \<and> c' = c1" using "3.prems"(2) h by (cases r) auto
    then show ?thesis using ok by simp
  next
    case True
    then obtain reply where r: "r = Ok reply" "sent" by blast
    obtain rs1 where rs1: "handle_connection parse evs c1 = (rs1, c')" "rs = reply # rs1"
      using "3.prems"(2) h r by (auto split: prod.splits)
    note IH = "3.IH" [OF h [symmetric] r(1) r(2) ok rs1(1)]
    show ?thesis
    proof (intro conjI allI impI)
      show "core_ok c'" "length rs \<le> length ((W, Some m, sent) # evs)" using IH rs1(2) by simp_all
    next
      fix i
      assume i: "i < length rs"
      show "\<exists>W' m'. ((W, Some m, sent) # evs) ! i = (W', Some m', True)
          \<and> fst (handle parse W' m' (core_after parse (take i ((W, Some m, sent) # evs)) c)
              :: (unit, Message) rust \<times> AppCore) = Ok (rs ! i)
          \<and> (\<forall>t rq. m' = Text t \<and> parse t = Inr (Request rq) \<longrightarrow>
               (\<exists>res. rs ! i = Text (eng_show_json (wd_engine W')
                  (response_json \<lparr>rs_id = rq_id rq, rs_result = res\<rparr>))))"
      proof (cases i)
        case 0
        then show ?thesis using h r rs1(2) handle_request by fastforce
      next
        case (Suc j)
        then show ?thesis using IH i rs1(2) h by simp
      qed
    qed
  qed
qed simp_all

theorem replies_answer_in_order_witness:
  "\<exists>reply. fst (handle_connection (\<lambda>t. Inr (Request \<lparr>rq_id = t, rq_cmd = GetAllTags\<rparr>))
      [(still_world, Some (Text ''7''), True)] library_core) = [reply]
    \<and> (\<exists>res. reply = Text (eng_show_json quiet_engine (response_json \<lparr>rs_id = ''7'', rs_result = res\<rparr>)))"
proof -
  let ?p = "\<lambda>t. Inr (Request \<lparr>rq_id = t, rq_cmd = GetAllTags\<rparr>)"
  obtain reply c' where run: "handle_connection ?p [(still_world, Some (Text ''7''), True)] library_core
      = ([reply], c')"
    by (simp add: handle_def dispatch_with_core_def library_core_def still_world_def on_repo_def
        to_val_def get_all_tags_def run_simps)
  from replies_answer_in_order [OF library_core_ok run] show ?thesis
    using run by (auto simp: still_world_def)
qed

end
